(* ===== verification/Prelude.thy ===== *)
theory Prelude
  imports Complex_Main "HOL-Library.List_Lexorder" "HOL-Library.Product_Lexorder"
    "HOL-Library.Option_ord"
begin

text \<open>
  Shared vocabulary of the development: Python strings as lists of code points, the
  exceptions the gateway raises or catches, the source of clock readings and random
  identifiers, and the generic facts on lists that the component theories use.

  A Python \<open>str\<close> is a list of code points (\<open>nat\<close>); \<^theory_text>\<open>lit\<close> turns an ASCII
  literal into one. The order on lists of numbers is the lexicographic one of
  \<open>List_Lexorder\<close>, which is both Python's string order and SQLite's \<open>BINARY\<close>
  collation (UTF-8 byte order and code point order agree).
\<close>

named_theorems world_simps \<open>projections of the world after one primitive effect\<close>
named_theorems table_simps \<open>lookup and update on rows with a primary key\<close>

section \<open>Strings\<close>

type_synonym str = "nat list"

definition lit :: "string \<Rightarrow> str" where
  "lit cs = map of_char cs"

lemma lit_inject [simp]: "lit a = lit b \<longleftrightarrow> a = b"
  by (simp add: lit_def inj_map_eq_map inj_of_char)

lemma lit_eq_Nil [simp]: "lit cs = [] \<longleftrightarrow> cs = []" "[] = lit cs \<longleftrightarrow> cs = []"
  by (auto simp: lit_def)

lemma length_lit [simp]: "length (lit cs) = length cs"
  by (simp add: lit_def)

text \<open>Truth value of a Python \<open>str | None\<close>: \<open>None\<close> and the empty string are false.\<close>

definition truthy :: "str option \<Rightarrow> bool" where
  "truthy v \<longleftrightarrow> (case v of None \<Rightarrow> False | Some s \<Rightarrow> s \<noteq> [])"

lemma truthy_simps [simp]: "\<not> truthy None" "truthy (Some s) \<longleftrightarrow> s \<noteq> []"
  by (simp_all add: truthy_def)

text \<open>\<open>str(n)\<close> for a non-negative integer, and for any integer.\<close>

fun nat_str :: "nat \<Rightarrow> str" where
  "nat_str n = (if n < 10 then [48 + n] else nat_str (n div 10) @ [48 + n mod 10])"

declare nat_str.simps [simp del]

lemma nat_str_not_Nil [simp]: "nat_str n \<noteq> []" "[] \<noteq> nat_str n"
  by (subst nat_str.simps, simp)+

lemma nat_str_inject: "nat_str m = nat_str n \<longleftrightarrow> m = n"
proof (induction m arbitrary: n rule: less_induct)
  case (less m)
  have small: "k < 10 \<Longrightarrow> nat_str k = [48 + k]" and
    big: "\<not> k < 10 \<Longrightarrow> nat_str k = nat_str (k div 10) @ [48 + k mod 10]" for k
    by (simp_all add: nat_str.simps [of k])
  show ?case
  proof (cases "m < 10 \<or> n < 10")
    case True
    then show ?thesis by (cases "m < 10"; cases "n < 10") (auto simp: small big)
  next
    case False
    then have "nat_str m = nat_str n \<longleftrightarrow> m div 10 = n div 10 \<and> m mod 10 = n mod 10"
      using less.IH [of "m div 10" "n div 10"] by (simp add: big)
    then show ?thesis by (metis div_mult_mod_eq)
  qed
qed

definition int_str :: "int \<Rightarrow> str" where
  "int_str i = (if i < 0 then 45 # nat_str (nat (- i)) else nat_str (nat i))"

definition starts_with :: "str \<Rightarrow> str \<Rightarrow> bool" where
  "starts_with p s \<longleftrightarrow> take (length p) s = p"

definition last_n :: "nat \<Rightarrow> str \<Rightarrow> str" where
  "last_n n s = drop (length s - n) s"

section \<open>Exceptions\<close>

text \<open>
  The Python exceptions that the modelled code raises or tells apart. \<open>ModemError\<close> stands
  for the class itself; its two subclasses have constructors of their own.
  \<open>OtherError c m\<close> is any further exception of class \<open>c\<close> with message \<open>m\<close>.
\<close>

datatype exn =
    ModemError str
  | ModemConnectionError str
  | PartialSendError str
  | StaleDataError
  | IntegrityError
  | UnicodeEncodeError
  | UnicodeDecodeError
  | HTTPException nat str
  | AdminAuthRequired
  | OtherError str str

fun exn_class :: "exn \<Rightarrow> str" where
  "exn_class (ModemError _) = lit ''ModemError''"
| "exn_class (ModemConnectionError _) = lit ''ModemConnectionError''"
| "exn_class (PartialSendError _) = lit ''PartialSendError''"
| "exn_class StaleDataError = lit ''StaleDataError''"
| "exn_class IntegrityError = lit ''IntegrityError''"
| "exn_class UnicodeEncodeError = lit ''UnicodeEncodeError''"
| "exn_class UnicodeDecodeError = lit ''UnicodeDecodeError''"
| "exn_class (HTTPException _ _) = lit ''HTTPException''"
| "exn_class AdminAuthRequired = lit ''AdminAuthRequired''"
| "exn_class (OtherError c _) = c"

fun exn_str :: "exn \<Rightarrow> str" where
  "exn_str (ModemError m) = m"
| "exn_str (ModemConnectionError m) = m"
| "exn_str (PartialSendError m) = m"
| "exn_str (HTTPException c d) = nat_str c @ lit '': '' @ d"
| "exn_str (OtherError _ m) = m"
| "exn_str AdminAuthRequired = []"
| "exn_str e = exn_class e"

text \<open>\<open>isinstance(e, ModemError)\<close>.\<close>

fun is_modem_error :: "exn \<Rightarrow> bool" where
  "is_modem_error (ModemError _) = True"
| "is_modem_error (ModemConnectionError _) = True"
| "is_modem_error (PartialSendError _) = True"
| "is_modem_error _ = False"

section \<open>Generic facts on lists\<close>

text \<open>The lexicographic order of \<open>Product_Lexorder\<close>, stated for linear orders.\<close>

lemma lex_less_iff: "(a :: 'a::linorder, b :: 'b::linorder) < (c, d) \<longleftrightarrow> a < c \<or> a = c \<and> b < d"
  by auto

declare less_prod_simp [simp del] lex_less_iff [simp]

lemma map_if_id [simp]: "(\<And>x. x \<in> set xs \<Longrightarrow> \<not> P x) \<Longrightarrow> map (\<lambda>x. if P x then f x else x) xs = xs"
  by (induction xs) auto

lemma length_filter_imp: "(\<And>x. P x \<Longrightarrow> Q x) \<Longrightarrow> length (filter P xs) \<le> length (filter Q xs)"
  by (induction xs) auto

lemma filter_map_same:
  assumes "\<And>x. x \<in> set xs \<Longrightarrow> P (f x) = P x" and "\<And>x. x \<in> set xs \<Longrightarrow> P x \<Longrightarrow> f x = x"
  shows "filter P (map f xs) = filter P xs"
  using assms by (induction xs) auto

lemma sorted_key_drop_prefix:
  fixes f :: "'a \<Rightarrow> 'k::linorder"
  assumes sorted: "sorted (map f (zs @ z # ys))" and dist: "distinct (map f (zs @ z # ys))"
  shows "filter (\<lambda>r. f z < f r) (zs @ z # ys) = ys"
proof -
  have "\<forall>x \<in> set zs. f x \<le> f z" and le: "\<forall>y \<in> set ys. f z \<le> f y"
    using sorted by (auto simp: sorted_append)
  moreover have "\<forall>y \<in> set ys. f z \<noteq> f y"
    using dist by auto
  ultimately show ?thesis
    by (auto simp: filter_empty_conv filter_id_conv not_less order.strict_iff_order)
qed

end
