(* ===== verification/Sms.thy ===== *)
theory Sms
  imports Prelude
begin

text \<open>
  \<^verbatim>\<open>gateway/shared/sms.py\<close>: the GSM 03.38 alphabets, the number of segments a body
  needs and the cap on an enqueued body. A lone surrogate makes \<open>body.encode("utf-16-be")\<close>
  raise, which the model keeps as \<^theory_text>\<open>UnicodeEncodeError\<close>.
\<close>

section \<open>Alphabets\<close>

definition GSM7_BASIC :: "nat list" where
  "GSM7_BASIC =
     [64, 163, 36, 165, 232, 233, 249, 236, 242, 199, 10, 216, 248, 13, 197, 229,
      916, 95, 934, 915, 923, 937, 928, 936, 931, 920, 926, 198, 230, 223, 201] @
     lit '' '' @ [33, 34, 35, 164] @ lit ''%&'' @ [39] @ lit ''()*+,-./0123456789:;<=>?'' @
     [161] @ lit ''ABCDEFGHIJKLMNOPQRSTUVWXYZ'' @ [196, 214, 209, 220, 167, 191] @
     lit ''abcdefghijklmnopqrstuvwxyz'' @ [228, 246, 241, 252, 224]"

definition GSM7_EXTENSION :: "nat list" where
  "GSM7_EXTENSION = [12, 8364, 91, 93, 123, 125, 94, 126, 92, 124]"

definition MAX_SEGMENTS :: nat where "MAX_SEGMENTS = 10"
definition MAX_BODY_CHARS :: nat where "MAX_BODY_CHARS = 1600"

section \<open>Counting\<close>

definition gsm7_char :: "nat \<Rightarrow> bool" where
  "gsm7_char ch \<longleftrightarrow> ch \<in> set GSM7_BASIC \<or> ch \<in> set GSM7_EXTENSION"

definition septets :: "str \<Rightarrow> nat" where
  "septets body = sum_list (map (\<lambda>ch. if ch \<in> set GSM7_EXTENSION then 2 else 1) body)"

definition surrogate :: "nat \<Rightarrow> bool" where
  "surrogate ch \<longleftrightarrow> 55296 \<le> ch \<and> ch \<le> 57343"

definition utf16_units :: "str \<Rightarrow> exn + nat" where
  "utf16_units body =
     (if list_ex surrogate body then Inl UnicodeEncodeError
      else Inr (sum_list (map (\<lambda>ch. if 65535 < ch then 2 else 1) body)))"

definition ceil_div :: "nat \<Rightarrow> nat \<Rightarrow> nat" where
  "ceil_div n d = (n + d - 1) div d"

definition count_segments :: "str \<Rightarrow> exn + nat" where
  "count_segments body =
     (if list_all gsm7_char body
      then Inr (if septets body \<le> 160 then 1 else ceil_div (septets body) 153)
      else (case utf16_units body of
              Inl e \<Rightarrow> Inl e
            | Inr code_units \<Rightarrow>
                Inr (if code_units \<le> 70 then 1 else ceil_div code_units 67)))"

definition body_too_long :: "str \<Rightarrow> exn + bool" where
  "body_too_long body =
     (if MAX_BODY_CHARS < length body then Inr True
      else (case count_segments body of Inl e \<Rightarrow> Inl e | Inr n \<Rightarrow> Inr (MAX_SEGMENTS < n)))"

section \<open>Reference: segments as the least number that holds the text\<close>

text \<open>
  What an operator counts: one segment holds 160 septets (70 UTF-16 code units); in a chain
  of \<open>k\<close> segments each gives some of its room to the concatenation header and holds 153 (67).
\<close>

definition segment_capacity :: "bool \<Rightarrow> nat \<Rightarrow> nat" where
  "segment_capacity gsm k =
     (if gsm then (if k = 1 then 160 else 153 * k) else (if k = 1 then 70 else 67 * k))"

definition is_gsm7 :: "str \<Rightarrow> bool" where
  "is_gsm7 body \<longleftrightarrow> list_all gsm7_char body"

definition text_units :: "str \<Rightarrow> nat" where
  "text_units body =
     (if is_gsm7 body then septets body
      else sum_list (map (\<lambda>ch. if 65535 < ch then 2 else 1) body))"

lemma ceil_div_le_iff:
  assumes "0 < d"
  shows "ceil_div n d \<le> k \<longleftrightarrow> n \<le> k * d"
proof -
  have "ceil_div n d \<le> k \<longleftrightarrow> (n + d - 1) div d < Suc k"
    by (simp add: ceil_div_def less_Suc_eq_le)
  also have "\<dots> \<longleftrightarrow> n + d - 1 < Suc k * d"
    using assms by (simp add: div_less_iff_less_mult)
  also have "\<dots> \<longleftrightarrow> n \<le> k * d"
    using assms by auto
  finally show ?thesis .
qed

lemma gsm7_not_surrogate: "gsm7_char ch \<Longrightarrow> \<not> surrogate ch"
  by (auto simp: gsm7_char_def surrogate_def GSM7_BASIC_def GSM7_EXTENSION_def lit_def)

text \<open>One equation for both alphabets, on which the facts below rest.\<close>

lemma count_segments_units:
  "count_segments body =
     (if \<not> is_gsm7 body \<and> list_ex surrogate body then Inl UnicodeEncodeError
      else Inr (if text_units body \<le> segment_capacity (is_gsm7 body) 1 then 1
                else ceil_div (text_units body) (if is_gsm7 body then 153 else 67)))"
  by (auto simp: count_segments_def utf16_units_def text_units_def is_gsm7_def segment_capacity_def)

lemma list_ex_surrogate_gsm7: "is_gsm7 body \<Longrightarrow> \<not> list_ex surrogate body"
  by (auto simp: is_gsm7_def list_all_iff list_ex_iff dest: gsm7_not_surrogate)

lemma count_segments_Inr_units:
  assumes "count_segments body = Inr n"
  shows "n = (if text_units body \<le> segment_capacity (is_gsm7 body) 1 then 1
              else ceil_div (text_units body) (if is_gsm7 body then 153 else 67))"
  using assms by (auto simp: count_segments_units split: if_splits)

lemma segments_fit_iff:
  fixes u k c m :: nat
  assumes "1 \<le> k" and "0 < m" and "c < 2 * m" and "m \<le> c"
  shows "u \<le> (if k = 1 then c else m * k) \<longleftrightarrow> (if u \<le> c then 1 else ceil_div u m) \<le> k"
proof (cases "u \<le> c")
  case True
  have "u \<le> m * k" if "k \<noteq> 1"
  proof -
    have "m * 2 \<le> m * k" using that assms(1) by (intro mult_le_mono2) simp
    then show ?thesis using True assms(3) by linarith
  qed
  then show ?thesis using True assms(1) by simp
next
  case False
  then have "ceil_div u m \<le> k \<longleftrightarrow> u \<le> m * k"
    using assms(2) by (simp add: ceil_div_le_iff mult.commute)
  then show ?thesis using False assms(4) by auto
qed

lemma count_segments_fits:
  assumes "count_segments body = Inr n" and "1 \<le> k"
  shows "text_units body \<le> segment_capacity (is_gsm7 body) k \<longleftrightarrow> n \<le> k"
  using segments_fit_iff [OF assms(2), of 153 160 "text_units body"]
    segments_fit_iff [OF assms(2), of 67 70 "text_units body"]
  unfolding count_segments_Inr_units [OF assms(1)] segment_capacity_def by simp

lemma count_segments_pos:
  assumes "count_segments body = Inr n"
  shows "1 \<le> n"
  unfolding count_segments_Inr_units [OF assms]
  by (auto simp: segment_capacity_def ceil_div_def div_greater_zero_iff Suc_le_eq)

lemma body_too_long_FalseE:
  assumes "body_too_long body = Inr False"
  obtains n where "count_segments body = Inr n" "n \<le> 10" "length body \<le> 1600"
  using assms that
  by (auto simp: body_too_long_def MAX_BODY_CHARS_def MAX_SEGMENTS_def not_less
      split: if_splits sum.splits)

lemmas sms_eval =
  count_segments_def body_too_long_def MAX_BODY_CHARS_def MAX_SEGMENTS_def utf16_units_def
  septets_def gsm7_char_def GSM7_BASIC_def GSM7_EXTENSION_def surrogate_def ceil_div_def
  list_all_iff list_ex_iff sum_list_replicate lit_def

section \<open>Properties\<close>

text \<open>
  C38. Sending costs as few segments as possible: the count returned by \<open>count_segments\<close> is at
  least one, and a chain of \<open>k\<close> segments holds the text exactly when \<open>k\<close> reaches that count.
\<close>

theorem count_segments_least:
  assumes "count_segments body = Inr n"
  shows "1 \<le> n \<and> (\<forall>k \<ge> 1. text_units body \<le> segment_capacity (is_gsm7 body) k \<longleftrightarrow> n \<le> k)"
  using assms count_segments_fits count_segments_pos by blast

theorem count_segments_least_witness:
  "count_segments (replicate 71 8217) = Inr 2 \<and>
   \<not> text_units (replicate 71 8217) \<le> segment_capacity (is_gsm7 (replicate 71 8217)) 1"
proof -
  have c: "count_segments (replicate 71 8217) = Inr 2" by (simp add: sms_eval)
  show ?thesis using count_segments_least [OF c] c by auto
qed

text \<open>
  The cap on enqueued bodies: a body that \<open>body_too_long\<close> lets through has at most 1600
  characters and between 1 and 10 segments, hence at most 1530 septets, or 670 code units.
\<close>

theorem accepted_body_bounds:
  assumes "body_too_long body = Inr False"
  shows "length body \<le> 1600 \<and>
    (\<exists>n. count_segments body = Inr n \<and> 1 \<le> n \<and> n \<le> 10) \<and>
    text_units body \<le> (if is_gsm7 body then 1530 else 670)"
proof -
  obtain n where n: "count_segments body = Inr n" "n \<le> 10" "length body \<le> 1600"
    using assms by (rule body_too_long_FalseE)
  have "text_units body \<le> segment_capacity (is_gsm7 body) 10"
    using count_segments_fits [OF n(1), of 10] n(2) by simp
  then show ?thesis using n count_segments_pos [OF n(1)] by (auto simp: segment_capacity_def)
qed

theorem accepted_body_bounds_witness:
  "body_too_long (replicate 670 8217) = Inr False \<and> text_units (replicate 670 8217) \<le> 670"
proof -
  have c: "body_too_long (replicate 670 8217) = Inr False" by (simp add: sms_eval)
  have "\<not> is_gsm7 (replicate 670 8217)" by (simp add: sms_eval is_gsm7_def)
  then show ?thesis using accepted_body_bounds [OF c] c by simp
qed

end
