(* ===== verification/Clock.thy ===== *)
theory Clock
  imports Prelude
begin

text \<open>
  \<^verbatim>\<open>gateway/shared/clock.py\<close> and the part of Python's \<open>datetime\<close> it uses. A UTC moment is
  its number of microseconds since 0001-01-01T00:00:00, Python's own origin; \<open>iso\<close> is
  \<open>strftime("%Y-%m-%dT%H:%M:%SZ")\<close> and \<open>parse_iso\<close> is \<open>datetime.fromisoformat\<close> on the one
  format the gateway stores (anything else is the \<open>ValueError\<close> here). Years run from 1000 to
  9999, where \<open>%Y\<close> prints four digits.
\<close>

type_synonym datetime = int

section \<open>The proleptic Gregorian calendar\<close>

definition leap :: "nat \<Rightarrow> bool" where
  "leap y \<longleftrightarrow> y mod 4 = 0 \<and> (y mod 100 \<noteq> 0 \<or> y mod 400 = 0)"

definition days_before_year :: "nat \<Rightarrow> nat" where
  "days_before_year y = (let p = y - 1 in 365 * p + p div 4 - p div 100 + p div 400)"

definition month_lengths :: "nat \<Rightarrow> nat list" where
  "month_lengths y = [31, if leap y then 29 else 28, 31, 30, 31, 30, 31, 31, 30, 31, 30, 31]"

lemma leap_count_step:
  fixes p a b c :: nat
  assumes "b \<le> a" and "j \<Longrightarrow> i" and "k \<Longrightarrow> j"
  shows "365 * Suc p + (if i then Suc a else a) - (if j then Suc b else b) + (if k then Suc c else c) =
    365 * p + a - b + c + (if i \<and> (\<not> j \<or> k) then 366 else 365)"
  using assms by (cases i; cases j; cases k) auto

lemma days_before_Suc:
  assumes "0 < y"
  shows "days_before_year (Suc y) = days_before_year y + sum_list (month_lengths y)"
proof -
  obtain p where y: "y = Suc p" using assms by (cases y) auto
  have step: "Suc p div k = (if Suc p mod k = 0 then Suc (p div k) else p div k)" for k
    by (rule div_Suc)
  have "Suc p mod 100 = 0 \<Longrightarrow> Suc p mod 4 = 0" "Suc p mod 400 = 0 \<Longrightarrow> Suc p mod 100 = 0"
    using dvd_trans [of 4 100 "Suc p"] dvd_trans [of 100 400 "Suc p"]
    by (simp_all add: mod_eq_0_iff_dvd del: mod_Suc)
  note mods = this
  have "p div 100 \<le> p div 4" by (rule div_le_mono2) simp_all
  from leap_count_step [OF this mods, where p = p and c = "p div 400"] show ?thesis
    unfolding y days_before_year_def Let_def diff_Suc_1 step
    by (simp add: month_lengths_def leap_def del: mod_Suc)
qed

lemma days_before_ge: "y \<le> days_before_year (Suc y)"
  by (simp add: days_before_year_def Let_def)

function year_from :: "nat \<Rightarrow> nat \<Rightarrow> nat" where
  "year_from y n = (if days_before_year (Suc y) \<le> n then year_from (Suc y) n else y)"
  by pat_completeness auto
termination
proof (relation "measure (\<lambda>(y, n). Suc n - y)")
  fix y n
  assume "days_before_year (Suc y) \<le> n"
  then have "y < Suc n" using days_before_ge [of y] by linarith
  then show "((Suc y, n), (y, n)) \<in> measure (\<lambda>(y, n). Suc n - y)" by auto
qed simp

declare year_from.simps [simp del]

definition year_of :: "nat \<Rightarrow> nat" where
  "year_of n = year_from (Suc (n div 366)) n"

fun month_day :: "nat list \<Rightarrow> nat \<Rightarrow> nat \<Rightarrow> nat \<times> nat" where
  "month_day [] m r = (m, Suc r)"
| "month_day (l # ls) m r = (if r < l then (m, Suc r) else month_day ls (Suc m) (r - l))"

definition ymd :: "nat \<Rightarrow> nat \<times> nat \<times> nat" where
  "ymd n = (let y = year_of n in (y, month_day (month_lengths y) 1 (n - days_before_year y)))"

lemma year_from_spec:
  "0 < y \<Longrightarrow> days_before_year y \<le> n \<Longrightarrow>
   0 < year_from y n \<and> days_before_year (year_from y n) \<le> n \<and>
   n < days_before_year (Suc (year_from y n))"
proof (induction y n rule: year_from.induct)
  case (1 y n)
  then show ?case
    by (cases "days_before_year (Suc y) \<le> n") (auto simp: year_from.simps [of y n] not_le)
qed

lemma year_of_spec:
  "0 < year_of n" "days_before_year (year_of n) \<le> n" "n < days_before_year (Suc (year_of n))"
proof -
  have "days_before_year (Suc p) \<le> 366 * p" for p
  proof -
    have "4 * (p div 4) \<le> p" "400 * (p div 400) \<le> p" by simp_all
    then have "p div 4 + p div 400 \<le> p" by linarith
    then show ?thesis by (simp add: days_before_year_def Let_def)
  qed
  from this [of "n div 366"] have "days_before_year (Suc (n div 366)) \<le> n"
    by (rule order_trans) simp
  from year_from_spec [OF _ this] show "0 < year_of n" "days_before_year (year_of n) \<le> n"
    "n < days_before_year (Suc (year_of n))"
    by (simp_all add: year_of_def)
qed

lemma days_before_mono: "0 < y \<Longrightarrow> y \<le> z \<Longrightarrow> days_before_year y \<le> days_before_year z"
proof (induction z)
  case (Suc z)
  then show ?case by (cases "y = Suc z") (auto simp: days_before_Suc)
qed simp

lemma year_of_mono: "n \<le> n' \<Longrightarrow> year_of n \<le> year_of n'"
proof (rule ccontr)
  assume le: "n \<le> n'" and "\<not> year_of n \<le> year_of n'"
  then have "days_before_year (Suc (year_of n')) \<le> days_before_year (year_of n)"
    by (intro days_before_mono) auto
  then show False using year_of_spec(2) [of n] year_of_spec(3) [of n'] le by linarith
qed

lemma month_day_ge: "m \<le> fst (month_day ls m r)"
  by (induction ls m r rule: month_day.induct) auto

lemma month_day_mono: "r < r' \<Longrightarrow> month_day ls m r < month_day ls m r'"
proof (induction ls arbitrary: m r r')
  case (Cons l ls)
  have "(m, d) < month_day ls (Suc m) q" for d q
    using month_day_ge [of "Suc m" ls q] by (cases "month_day ls (Suc m) q") (auto simp: less_prod_def)
  then show ?case using Cons by auto
qed (auto simp: less_prod_def)

lemma ymd_mono:
  assumes "n < n'"
  shows "ymd n < ymd n'"
proof (cases "year_of n = year_of n'")
  case True
  then have "n - days_before_year (year_of n) < n' - days_before_year (year_of n')"
    using assms year_of_spec(2) [of n] by (simp add: diff_less_mono)
  from month_day_mono [OF this, of "month_lengths (year_of n')" 1] True show ?thesis
    unfolding ymd_def Let_def less_prod_def by simp
next
  case False
  then show ?thesis
    using year_of_mono [of n n'] assms by (simp add: ymd_def Let_def less_prod_def)
qed

text \<open>The inverse of \<open>ymd\<close>: the day number of a date.\<close>

definition ordinal :: "nat \<Rightarrow> nat \<Rightarrow> nat \<Rightarrow> nat" where
  "ordinal y m d = days_before_year y + sum_list (take (m - 1) (month_lengths y)) + (d - 1)"

definition valid_date :: "nat \<Rightarrow> nat \<Rightarrow> nat \<Rightarrow> bool" where
  "valid_date y m d \<longleftrightarrow>
     1 \<le> y \<and> 1 \<le> m \<and> m \<le> 12 \<and> 1 \<le> d \<and> d \<le> month_lengths y ! (m - 1)"

lemma month_day_inverse:
  assumes "r < sum_list ls" and "month_day ls m r = (m', d)"
  shows "m \<le> m' \<and> m' < m + length ls \<and> 1 \<le> d \<and> d \<le> ls ! (m' - m) \<and>
         r = sum_list (take (m' - m) ls) + (d - 1)"
  using assms
proof (induction ls arbitrary: m r)
  case (Cons l ls)
  show ?case
  proof (cases "r < l")
    case False
    with Cons.prems have "r - l < sum_list ls" "month_day ls (Suc m) (r - l) = (m', d)" by auto
    from Cons.IH [OF this] have ih: "Suc m \<le> m'" "m' < Suc m + length ls" "1 \<le> d"
      "d \<le> ls ! (m' - Suc m)" "r - l = sum_list (take (m' - Suc m) ls) + (d - 1)" by auto
    then have "m' - m = Suc (m' - Suc m)" by simp
    then show ?thesis using ih False by simp
  qed (use Cons.prems in auto)
qed simp

lemma ymd_ordinal:
  assumes "ymd n = (y, m, d)"
  shows "ordinal y m d = n \<and> valid_date y m d"
proof -
  have y: "y = year_of n" and md: "month_day (month_lengths y) 1 (n - days_before_year y) = (m, d)"
    using assms by (auto simp: ymd_def Let_def)
  have "n - days_before_year y < sum_list (month_lengths y)"
    using year_of_spec [of n] days_before_Suc [of y] y by simp
  from month_day_inverse [OF this md] show ?thesis
    using year_of_spec [of n] y by (auto simp: ordinal_def valid_date_def month_lengths_def)
qed

section \<open>The stored format\<close>

definition dig2 :: "nat \<Rightarrow> str" where
  "dig2 n = [48 + n div 10, 48 + n mod 10]"

definition dig4 :: "nat \<Rightarrow> str" where
  "dig4 n = dig2 (n div 100) @ dig2 (n mod 100)"

definition clock_fields :: "nat \<Rightarrow> nat \<times> nat \<times> nat" where
  "clock_fields sod = (sod div 3600, sod div 60 mod 60, sod mod 60)"

definition render :: "nat \<times> nat \<times> nat \<Rightarrow> nat \<times> nat \<times> nat \<Rightarrow> str" where
  "render date tod =
     (case date of (y, m, d) \<Rightarrow> case tod of (hh, mm, ss) \<Rightarrow>
        dig4 y @ [45] @ dig2 m @ [45] @ dig2 d @ [84] @
        dig2 hh @ [58] @ dig2 mm @ [58] @ dig2 ss @ [90])"

definition seconds :: "datetime \<Rightarrow> nat" where
  "seconds t = nat (t div 1000000)"

definition iso :: "datetime \<Rightarrow> str" where
  "iso t = render (ymd (seconds t div 86400)) (clock_fields (seconds t mod 86400))"

definition undig :: "str \<Rightarrow> nat option" where
  "undig cs = (if list_all (\<lambda>c. 48 \<le> c \<and> c \<le> 57) cs
               then Some (foldl (\<lambda>acc c. 10 * acc + (c - 48)) 0 cs) else None)"

definition ValueError :: exn where
  "ValueError = OtherError (lit ''ValueError'') (lit ''Invalid isoformat string'')"

definition parse_iso :: "str \<Rightarrow> exn + datetime" where
  "parse_iso s =
     (if length s \<noteq> 20 \<or> s ! 4 \<noteq> 45 \<or> s ! 7 \<noteq> 45 \<or> s ! 10 \<noteq> 84 \<or> s ! 13 \<noteq> 58 \<or>
         s ! 16 \<noteq> 58 \<or> s ! 19 \<noteq> 90
      then Inl ValueError
      else (case (undig (take 4 s), undig (take 2 (drop 5 s)), undig (take 2 (drop 8 s)),
                  undig (take 2 (drop 11 s)), undig (take 2 (drop 14 s)), undig (take 2 (drop 17 s)))
            of (Some y, Some m, Some d, Some hh, Some mm, Some ss) \<Rightarrow>
                 if valid_date y m d \<and> hh < 24 \<and> mm < 60 \<and> ss < 60
                 then Inr (1000000 * (86400 * int (ordinal y m d) + int (3600 * hh + 60 * mm + ss)))
                 else Inl ValueError
             | _ \<Rightarrow> Inl ValueError))"

subsection \<open>Order\<close>

lemma append_less_same_length:
  fixes xs :: "nat list"
  shows "length xs = length xs' \<Longrightarrow> xs < xs' \<Longrightarrow> xs @ ys < xs' @ ys'"
  by (induction xs xs' rule: list_induct2) auto

lemma append_less_cancel: "xs @ ys < xs @ ys' \<longleftrightarrow> ys < (ys' :: nat list)"
  by (induction xs) auto

lemma div_mod_less:
  fixes n n' b :: nat
  assumes "n < n'" and "0 < b"
  shows "n div b < n' div b \<or> n div b = n' div b \<and> n mod b < n' mod b"
proof (cases "n div b = n' div b")
  case True
  have "n div b * b + n mod b < n' div b * b + n' mod b"
    using assms(1) by (simp only: div_mult_mod_eq)
  then show ?thesis using True by (simp only: add_less_cancel_left simp_thms)
next
  case False
  then show ?thesis using assms by (simp add: div_le_mono le_neq_implies_less)
qed

lemma dig2_less: "n < n' \<Longrightarrow> dig2 n < dig2 n'"
  using div_mod_less [of n n' 10] by (auto simp: dig2_def)

lemma length_dig [simp]: "length (dig2 n) = 2" "length (dig4 n) = 4"
  by (simp_all add: dig2_def dig4_def)

lemma dig4_less:
  assumes "n < n'"
  shows "dig4 n < dig4 n'"
proof (cases "n div 100 < n' div 100")
  case True
  then show ?thesis
    unfolding dig4_def by (intro append_less_same_length dig2_less) simp_all
next
  case False
  then show ?thesis
    using div_mod_less [OF assms, of 100] dig2_less by (simp add: dig4_def append_less_cancel)
qed

lemma clock_fields_mono: "n < n' \<Longrightarrow> clock_fields n < clock_fields n'"
  using div_mod_less [of n n' 60] div_mod_less [of "n div 60" "n' div 60" 60]
  by (auto simp: clock_fields_def less_prod_def simp flip: div_mult2_eq)


lemma render_mono:
  assumes "(date, tod) < (date', tod')"
  shows "render date tod < render date' tod'"
proof -
  obtain y m d hh mm ss where l: "date = (y, m, d)" "tod = (hh, mm, ss)"
    by (metis prod.exhaust)
  obtain y' m' d' hh' mm' ss' where r: "date' = (y', m', d')" "tod' = (hh', mm', ss')"
    by (metis prod.exhaust)
  note less = dig2_less dig4_less
  consider "y < y'" | "y = y'" "m < m'" | "y = y'" "m = m'" "d < d'"
    | "date = date'" "hh < hh'" | "date = date'" "hh = hh'" "mm < mm'"
    | "date = date'" "hh = hh'" "mm = mm'" "ss < ss'"
    using assms l r by auto
  then show ?thesis
    by cases (auto simp: l r render_def append_less_cancel intro!: append_less_same_length less)
qed

lemma seconds_split: "seconds t = seconds t div 86400 * 86400 + seconds t mod 86400"
  by simp

lemma iso_less:
  assumes "seconds a < seconds b"
  shows "iso a < iso b"
proof -
  consider "ymd (seconds a div 86400) < ymd (seconds b div 86400)"
    | "ymd (seconds a div 86400) = ymd (seconds b div 86400)"
      "clock_fields (seconds a mod 86400) < clock_fields (seconds b mod 86400)"
    using div_mod_less [OF assms, of 86400] ymd_mono clock_fields_mono by auto
  then show ?thesis
    unfolding iso_def by cases (auto intro!: render_mono)
qed

text \<open>String order on stored timestamps is time order: the fact every SQL comparison relies on.\<close>

lemma iso_less_iff: "iso a < iso b \<longleftrightarrow> seconds a < seconds b"
  by (metis iso_less iso_def less_asym linorder_less_linear)

lemma iso_le_iff: "iso a \<le> iso b \<longleftrightarrow> seconds a \<le> seconds b"
  by (meson iso_less_iff not_le)

lemma iso_eq_iff: "iso a = iso b \<longleftrightarrow> seconds a = seconds b"
  by (metis iso_le_iff order_antisym order_refl)

subsection \<open>Reading a stored timestamp back\<close>

lemma digits_bound: "n < (100::nat) \<Longrightarrow> n div 10 \<le> 9 \<and> n mod 10 \<le> 9"
  by (simp add: less_mult_imp_div_less flip: less_Suc_eq_le)

lemma undig_dig2: "n < 100 \<Longrightarrow> undig (dig2 n) = Some n"
  using digits_bound [of n] by (simp add: undig_def dig2_def)

lemma undig_dig4:
  assumes "n < 10000"
  shows "undig (dig4 n) = Some n"
proof -
  have "n div 100 < 100" "n mod 100 < 100" using assms by (simp_all add: less_mult_imp_div_less)
  then have "undig (dig4 n) = Some (100 * (n div 100) + n mod 100)"
    using digits_bound [of "n div 100"] digits_bound [of "n mod 100"]
      div_mult_mod_eq [of "n div 100" 10] div_mult_mod_eq [of "n mod 100" 10]
    unfolding undig_def dig4_def dig2_def by (simp add: algebra_simps)
  then show ?thesis by simp
qed

lemma valid_date_bounds: "valid_date y m d \<Longrightarrow> m \<le> 12 \<and> d \<le> 31"
proof -
  assume v: "valid_date y m d"
  have "length (month_lengths y) = 12" by (simp add: month_lengths_def)
  then have "m - 1 < length (month_lengths y)" using v by (auto simp: valid_date_def)
  then have "month_lengths y ! (m - 1) \<in> set (month_lengths y)" by (rule nth_mem)
  then have "month_lengths y ! (m - 1) \<le> 31" by (auto simp: month_lengths_def split: if_splits)
  then show ?thesis using v by (simp add: valid_date_def)
qed

lemma parse_render:
  assumes "valid_date y m d" and "y < 10000" and "hh < 24" and "mm < 60" and "ss < 60"
  shows "parse_iso (render (y, m, d) (hh, mm, ss)) =
    Inr (1000000 * (86400 * int (ordinal y m d) + int (3600 * hh + 60 * mm + ss)))"
proof -
  have two: "\<exists>a b. dig2 n = [a, b]" for n by (simp add: dig2_def)
  obtain y1 y2 y3 y4 where y: "dig4 y = [y1, y2, y3, y4]" by (simp add: dig4_def dig2_def)
  obtain m1 m2 where m: "dig2 m = [m1, m2]" using two by blast
  obtain d1 d2 where d: "dig2 d = [d1, d2]" using two by blast
  obtain h1 h2 where h: "dig2 hh = [h1, h2]" using two by blast
  obtain n1 n2 where n: "dig2 mm = [n1, n2]" using two by blast
  obtain s1 s2 where s: "dig2 ss = [s1, s2]" using two by blast
  note eqs = y m d h n s
  have ud: "undig (dig4 y) = Some y" "undig (dig2 m) = Some m" "undig (dig2 d) = Some d"
    "undig (dig2 hh) = Some hh" "undig (dig2 mm) = Some mm" "undig (dig2 ss) = Some ss"
    using assms valid_date_bounds [OF assms(1)] by (simp_all add: undig_dig2 undig_dig4)
  have r: "render (y, m, d) (hh, mm, ss) =
     [y1, y2, y3, y4, 45, m1, m2, 45, d1, d2, 84, h1, h2, 58, n1, n2, 58, s1, s2, 90]"
    by (simp add: render_def eqs)
  show ?thesis
    unfolding r parse_iso_def using ud [unfolded eqs] assms by simp
qed

text \<open>The moments whose year prints with four digits.\<close>

definition in_range :: "datetime \<Rightarrow> bool" where
  "in_range t \<longleftrightarrow>
     int (days_before_year 1000) * 86400000000 \<le> t \<and> t < int (days_before_year 10000) * 86400000000"

lemma seconds_in_range:
  assumes "in_range t"
  shows "int (seconds t) = t div 1000000" "seconds t div 86400 < days_before_year 10000"
proof -
  have "0 \<le> t" "t < int (days_before_year 10000) * 86400000000"
    using assms by (auto simp: in_range_def intro: order_trans [rotated])
  then show "int (seconds t) = t div 1000000"
    by (simp add: seconds_def pos_imp_zdiv_nonneg_iff)
  then have "int (seconds t) < int (days_before_year 10000) * 86400"
    using \<open>t < _\<close> by linarith
  then have "seconds t < days_before_year 10000 * 86400" by linarith
  then show "seconds t div 86400 < days_before_year 10000" by (simp add: less_mult_imp_div_less)
qed

lemma parse_iso_iso:
  assumes "in_range t"
  shows "parse_iso (iso t) = Inr (t div 1000000 * 1000000)"
proof -
  let ?n = "seconds t div 86400" and ?s = "seconds t mod 86400"
  obtain y m d where ymd: "ymd ?n = (y, m, d)" by (metis prod.exhaust)
  have vd: "ordinal y m d = ?n" "valid_date y m d" using ymd_ordinal [OF ymd] by auto
  have "y < 10000"
  proof (rule ccontr)
    assume "\<not> y < 10000"
    then have "days_before_year 10000 \<le> days_before_year y" by (intro days_before_mono) auto
    also have "\<dots> \<le> ?n" using year_of_spec(2) [of ?n] ymd by (simp add: ymd_def Let_def)
    finally show False using seconds_in_range(2) [OF assms] by simp
  qed
  moreover have "?s div 3600 < 24" by (simp add: less_mult_imp_div_less)
  moreover have "3600 * (?s div 3600) + 60 * (?s div 60 mod 60) + ?s mod 60 = ?s"
  proof -
    have "?s div 3600 = ?s div 60 div 60" by (simp flip: div_mult2_eq)
    moreover have "60 * (?s div 60 div 60) + ?s div 60 mod 60 = ?s div 60"
      "60 * (?s div 60) + ?s mod 60 = ?s"
      by (rule mult_div_mod_eq)+
    ultimately show ?thesis by linarith
  qed
  ultimately have "parse_iso (iso t) = Inr (1000000 * (86400 * int ?n + int ?s))"
    unfolding iso_def ymd clock_fields_def using vd by (subst parse_render) auto
  moreover have "86400 * int ?n + int ?s = int (seconds t)"
    by (metis (mono_tags) mult_div_mod_eq of_nat_add of_nat_mult of_nat_numeral)
  ultimately show ?thesis using seconds_in_range(1) [OF assms] by simp
qed

lemma in_range_floor: "in_range t \<Longrightarrow> seconds (t div 1000000 * 1000000) = seconds t"
  by (simp add: seconds_def)

lemmas iso_eval =
  iso_def seconds_def ymd_def year_of_def days_before_year_def year_from.simps month_lengths_def
  leap_def clock_fields_def render_def dig4_def dig2_def Let_def

section \<open>Properties\<close>

text \<open>
  Stored timestamps compare as moments: whole second by whole second, the string order that
  every SQL comparison and every \<open>ORDER BY\<close> of the gateway uses is the order of time, and two
  moments have the same string exactly when they fall in the same second.
\<close>

theorem timestamp_order:
  "(iso a < iso b \<longleftrightarrow> seconds a < seconds b) \<and> (iso a = iso b \<longleftrightarrow> seconds a = seconds b)"
  by (simp add: iso_less_iff iso_eq_iff)

end
