(* ===== verification/Store.thy ===== *)
theory Store
  imports Clock
begin

text \<open>
  The shared SQLite database and what every operation on it needs: the rows of
  \<^verbatim>\<open>gateway/shared/models.py\<close>, the key-value configuration of \<^verbatim>\<open>configstore.py\<close>, the
  event log of \<^verbatim>\<open>events.py\<close>, the identifiers of \<^verbatim>\<open>ids.py\<close>, and the \<open>world\<close> that the
  operations of both processes take and return. A table with a primary key is the list of its
  rows in insertion order (SQLite's rowid order); a key-value table is a map. A transaction that
  fails leaves the database as it was, so its model returns the exception without a new state.
\<close>

section \<open>Rows\<close>

datatype direction = Outbound | Inbound

datatype msg_status = Queued | Sending | Sent | Delivered | Failed | Received

datatype whd_status = WPending | WDelivered | WFailed

record message =
  msg_id :: str
  msg_direction :: direction
  msg_msisdn :: str
  msg_body :: str
  msg_status :: msg_status
  msg_segments :: int
  msg_error :: "str option"
  msg_modem_ref :: "int option"
  msg_created_at :: str
  msg_sent_at :: "str option"
  msg_delivered_at :: "str option"
  msg_received_at :: "str option"

record delivery =
  whd_id :: str
  whd_message_id :: str
  whd_attempt :: nat
  whd_status :: whd_status
  whd_response_code :: "nat option"
  whd_next_retry_at :: "str option"
  whd_delivered_at :: "str option"
  whd_created_at :: str

record kv_row =
  kv_value :: str
  kv_updated_at :: str

record api_token =
  tok_id :: str
  tok_hash :: str
  tok_prefix :: str
  tok_label :: "str option"
  tok_last_used_at :: "str option"
  tok_revoked_at :: "str option"
  tok_created_at :: str

record admin_user =
  usr_id :: str
  usr_username :: str
  usr_password_hash :: str
  usr_created_at :: str

record event =
  ev_id :: nat
  ev_ts :: str
  ev_source :: str
  ev_level :: str
  ev_message :: str

record database =
  messages :: "message list"
  deliveries :: "delivery list"
  gateway_status :: "str \<rightharpoonup> kv_row"
  gateway_config :: "str \<rightharpoonup> kv_row"
  api_tokens :: "api_token list"
  admin_users :: "admin_user list"
  events :: "event list"
  event_seq :: nat

definition empty_db :: database where
  "empty_db = \<lparr>messages = [], deliveries = [], gateway_status = Map.empty,
     gateway_config = Map.empty, api_tokens = [], admin_users = [], events = [], event_seq = 0\<rparr>"

section \<open>Clocks, identifiers and the world\<close>

text \<open>
  The environment a process runs in. Every reading of a clock and every fresh identifier takes
  the next position \<open>tick\<close> of a tape: \<open>wall\<close> is \<open>datetime.now(UTC)\<close>, \<open>monotime\<close> is
  \<open>time.monotonic()\<close>, \<open>ulid\<close> is \<open>str(ULID())\<close> of the third-party package and \<open>random_byte i j\<close>
  is byte \<open>j\<close> of reading \<open>i\<close> of the random source behind \<open>secrets\<close>. The
  tapes are arbitrary, so every theorem holds for all readings.
\<close>

record env =
  wall :: "nat \<Rightarrow> datetime"
  monotime :: "nat \<Rightarrow> rat"
  ulid :: "nat \<Rightarrow> str"
  random_byte :: "nat \<Rightarrow> nat \<Rightarrow> nat"
  tick :: nat

text \<open>
  The database, the environment and the process's own state \<open>'d\<close>: the modem driver in the worker, \<open>app.state\<close> in the API
  process.
\<close>

record 'd world =
  db :: database
  env :: env
  drv :: 'd

definition advance :: "nat \<Rightarrow> 'd world \<Rightarrow> 'd world" where
  "advance n w = w\<lparr>env := (env w)\<lparr>tick := tick (env w) + n\<rparr>\<rparr>"

definition now_utc :: "'d world \<Rightarrow> datetime \<times> 'd world" where
  "now_utc w = (wall (env w) (tick (env w)), advance 1 w)"

definition utc_now_iso :: "'d world \<Rightarrow> str \<times> 'd world" where
  "utc_now_iso w = (iso (wall (env w) (tick (env w))), advance 1 w)"

definition read_monotonic :: "'d world \<Rightarrow> rat \<times> 'd world" where
  "read_monotonic w = (monotime (env w) (tick (env w)), advance 1 w)"

definition new_id :: "str \<Rightarrow> 'd world \<Rightarrow> str \<times> 'd world" where
  "new_id prefix w = (prefix @ lit ''_'' @ ulid (env w) (tick (env w)), advance 1 w)"

definition message_id :: "'d world \<Rightarrow> str \<times> 'd world" where
  "message_id = new_id (lit ''msg'')"

definition token_id :: "'d world \<Rightarrow> str \<times> 'd world" where
  "token_id = new_id (lit ''tok'')"

definition delivery_id :: "'d world \<Rightarrow> str \<times> 'd world" where
  "delivery_id = new_id (lit ''whd'')"

lemmas reading_defs =
  now_utc_def utc_now_iso_def read_monotonic_def new_id_def message_id_def token_id_def
  delivery_id_def

lemma advance_simps [simp, world_simps]:
  "db (advance n w) = db w" "drv (advance n w) = drv w"
  "wall (env (advance n w)) = wall (env w)" "monotime (env (advance n w)) = monotime (env w)"
  "ulid (env (advance n w)) = ulid (env w)" "random_byte (env (advance n w)) = random_byte (env w)"
  "tick (env (advance n w)) = tick (env w) + n"
  by (simp_all add: advance_def)

text \<open>Reading a clock or drawing an identifier touches neither the database nor the driver.\<close>

lemma readings_snd [simp, world_simps]:
  "snd (now_utc w) = advance 1 w" "snd (utc_now_iso w) = advance 1 w"
  "snd (read_monotonic w) = advance 1 w" "snd (message_id w) = advance 1 w"
  "snd (token_id w) = advance 1 w" "snd (delivery_id w) = advance 1 w"
  by (simp_all add: reading_defs)

lemma utc_now_iso_eq: "utc_now_iso w = (iso (wall (env w) (tick (env w))), advance 1 w)"
  by (simp add: utc_now_iso_def)

section \<open>Tables with a primary key\<close>

definition find_row :: "('r \<Rightarrow> str) \<Rightarrow> str \<Rightarrow> 'r list \<Rightarrow> 'r option" where
  "find_row key k rows = find (\<lambda>r. key r = k) rows"

definition insert_row :: "('r \<Rightarrow> str) \<Rightarrow> 'r \<Rightarrow> 'r list \<Rightarrow> exn + 'r list" where
  "insert_row key r rows =
     (if find_row key (key r) rows = None then Inr (rows @ [r]) else Inl IntegrityError)"

text \<open>
  An ORM update: \<open>UPDATE \<dots> WHERE id = k\<close>. Where no row matched, SQLAlchemy raises
  \<open>StaleDataError\<close>.
\<close>

definition update_row ::
  "('r \<Rightarrow> str) \<Rightarrow> str \<Rightarrow> ('r \<Rightarrow> 'r) \<Rightarrow> 'r list \<Rightarrow> exn + 'r list" where
  "update_row key k f rows =
     (if find_row key k rows = None then Inl StaleDataError
      else Inr (map (\<lambda>r. if key r = k then f r else r) rows))"

definition get_message :: "database \<Rightarrow> str \<Rightarrow> message option" where
  "get_message d k = find_row msg_id k (messages d)"

definition get_delivery :: "database \<Rightarrow> str \<Rightarrow> delivery option" where
  "get_delivery d k = find_row whd_id k (deliveries d)"

definition add_message :: "message \<Rightarrow> database \<Rightarrow> exn + database" where
  "add_message m d = map_sum id (\<lambda>rows. d\<lparr>messages := rows\<rparr>) (insert_row msg_id m (messages d))"

definition add_delivery :: "delivery \<Rightarrow> database \<Rightarrow> exn + database" where
  "add_delivery r d =
     (if get_message d (whd_message_id r) = None then Inl IntegrityError
      else map_sum id (\<lambda>rows. d\<lparr>deliveries := rows\<rparr>) (insert_row whd_id r (deliveries d)))"

definition update_message :: "str \<Rightarrow> (message \<Rightarrow> message) \<Rightarrow> database \<Rightarrow> exn + database" where
  "update_message k f d =
     map_sum id (\<lambda>rows. d\<lparr>messages := rows\<rparr>) (update_row msg_id k f (messages d))"

definition update_delivery :: "str \<Rightarrow> (delivery \<Rightarrow> delivery) \<Rightarrow> database \<Rightarrow> exn + database" where
  "update_delivery k f d =
     map_sum id (\<lambda>rows. d\<lparr>deliveries := rows\<rparr>) (update_row whd_id k f (deliveries d))"

lemma find_row_Nil [simp]: "find_row key k [] = None"
  by (simp add: find_row_def)

lemma find_row_Cons [simp]:
  "find_row key k (r # rows) = (if key r = k then Some r else find_row key k rows)"
  by (simp add: find_row_def)

lemma find_row_None_iff: "find_row key k rows = None \<longleftrightarrow> k \<notin> key ` set rows"
  by (auto simp: find_row_def find_None_iff)

lemma find_row_SomeD: "find_row key k rows = Some r \<Longrightarrow> r \<in> set rows \<and> key r = k"
  by (auto simp: find_row_def find_Some_iff)

lemma find_row_append [table_simps]:
  "find_row key k (rows @ rows') =
     (case find_row key k rows of Some r \<Rightarrow> Some r | None \<Rightarrow> find_row key k rows')"
  by (induction rows) auto

lemma find_row_map [table_simps]:
  "(\<And>r. key (f r) = key r) \<Longrightarrow>
   find_row key j (map (\<lambda>r. if key r = k then f r else r) rows) =
     (if j = k then map_option f (find_row key j rows) else find_row key j rows)"
  by (induction rows) auto

lemma find_row_distinct:
  "distinct (map key rows) \<Longrightarrow> r \<in> set rows \<Longrightarrow> find_row key (key r) rows = Some r"
  by (induction rows) (auto simp: image_iff)

subsection \<open>The interface of a keyed table\<close>

text \<open>
  What the operations rely on, whichever table they write: a lookup after an insert or an
  update, and when these fail.
\<close>

locale row_store =
  fixes key :: "'r \<Rightarrow> str"
    and get :: "'s \<Rightarrow> str \<Rightarrow> 'r option"
    and update :: "str \<Rightarrow> ('r \<Rightarrow> 'r) \<Rightarrow> 's \<Rightarrow> exn + 's"
  assumes get_key: "get d k = Some r \<Longrightarrow> key r = k"
    and update_fails: "update k f d = Inl e \<longleftrightarrow> get d k = None \<and> e = StaleDataError"
    and get_update: "\<lbrakk>update k f d = Inr d'; \<And>r. key (f r) = key r\<rbrakk> \<Longrightarrow>
      get d' j = (if j = k then map_option f (get d k) else get d j)"
begin

lemma update_ok_iff: "(\<exists>d'. update k f d = Inr d') \<longleftrightarrow> get d k \<noteq> None"
  by (metis Inl_Inr_False obj_sumE update_fails)

lemma get_update_same:
  "\<lbrakk>update k f d = Inr d'; \<And>r. key (f r) = key r\<rbrakk> \<Longrightarrow> get d' k = map_option f (get d k)"
  by (simp add: get_update)

lemma get_update_other:
  "\<lbrakk>update k f d = Inr d'; \<And>r. key (f r) = key r; j \<noteq> k\<rbrakk> \<Longrightarrow> get d' j = get d j"
  by (simp add: get_update)

lemma update_succeeds:
  assumes "get d k = Some r"
  obtains d' where "update k f d = Inr d'"
  using assms update_ok_iff [of k f d] by auto

lemma update_twice:
  assumes "update k f d = Inr d1" and "update k g d1 = Inr d2"
    and "\<And>r. key (f r) = key r" and "\<And>r. key (g r) = key r"
  shows "get d2 k = map_option (g \<circ> f) (get d k)"
  using get_update_same [OF assms(1,3)] get_update_same [OF assms(2,4)]
  by (simp add: option.map_comp)

end

interpretation msg: row_store msg_id get_message update_message
  by unfold_locales
    (auto simp: get_message_def update_message_def update_row_def table_simps
      dest!: find_row_SomeD split: if_splits)

interpretation whd: row_store whd_id get_delivery update_delivery
  by unfold_locales
    (auto simp: get_delivery_def update_delivery_def update_row_def table_simps
      dest!: find_row_SomeD split: if_splits)

text \<open>Frame facts: which part of the database a row operation leaves alone.\<close>

lemma add_message_Inr:
  "add_message m d = Inr d' \<longleftrightarrow>
     get_message d (msg_id m) = None \<and> d' = d\<lparr>messages := messages d @ [m]\<rparr>"
  by (auto simp: add_message_def insert_row_def get_message_def)

lemma add_message_Inl:
  "add_message m d = Inl e \<longleftrightarrow> get_message d (msg_id m) \<noteq> None \<and> e = IntegrityError"
  by (auto simp: add_message_def insert_row_def get_message_def)

lemma add_delivery_Inr:
  "add_delivery r d = Inr d' \<longleftrightarrow>
     get_message d (whd_message_id r) \<noteq> None \<and> get_delivery d (whd_id r) = None \<and>
     d' = d\<lparr>deliveries := deliveries d @ [r]\<rparr>"
  by (auto simp: add_delivery_def insert_row_def get_delivery_def)

lemma update_message_Inr:
  "update_message k f d = Inr d' \<longleftrightarrow>
     get_message d k \<noteq> None \<and>
     d' = d\<lparr>messages := map (\<lambda>r. if msg_id r = k then f r else r) (messages d)\<rparr>"
  by (auto simp: update_message_def update_row_def get_message_def)

lemma update_delivery_Inr:
  "update_delivery k f d = Inr d' \<longleftrightarrow>
     get_delivery d k \<noteq> None \<and>
     d' = d\<lparr>deliveries := map (\<lambda>r. if whd_id r = k then f r else r) (deliveries d)\<rparr>"
  by (auto simp: update_delivery_def update_row_def get_delivery_def)

lemmas row_ops_Inr = add_message_Inr add_delivery_Inr update_message_Inr update_delivery_Inr

lemma get_message_SomeD: "get_message d k = Some m \<Longrightarrow> m \<in> set (messages d) \<and> msg_id m = k"
  by (auto simp: get_message_def dest: find_row_SomeD)

lemma get_message_None_iff: "get_message d k = None \<longleftrightarrow> k \<notin> msg_id ` set (messages d)"
  by (simp add: get_message_def find_row_None_iff)

lemma get_message_in:
  "distinct (map msg_id (messages d)) \<Longrightarrow> m \<in> set (messages d) \<Longrightarrow> get_message d (msg_id m) = Some m"
  by (simp add: get_message_def find_row_distinct)

lemma get_delivery_SomeD: "get_delivery d k = Some r \<Longrightarrow> r \<in> set (deliveries d) \<and> whd_id r = k"
  by (auto simp: get_delivery_def dest: find_row_SomeD)

lemma get_delivery_in:
  "distinct (map whd_id (deliveries d)) \<Longrightarrow> r \<in> set (deliveries d) \<Longrightarrow>
   get_delivery d (whd_id r) = Some r"
  by (simp add: get_delivery_def find_row_distinct)

section \<open>Runtime configuration\<close>

definition WEBHOOK_URL :: str where "WEBHOOK_URL = lit ''webhook_url''"
definition WEBHOOK_SECRET :: str where "WEBHOOK_SECRET = lit ''webhook_secret''"
definition RESTART_WORKER :: str where "RESTART_WORKER = lit ''restart_worker''"
definition OWN_NUMBER :: str where "OWN_NUMBER = lit ''own_number''"

lemma config_keys_distinct [simp]:
  "WEBHOOK_URL \<noteq> WEBHOOK_SECRET" "WEBHOOK_SECRET \<noteq> WEBHOOK_URL"
  "RESTART_WORKER \<noteq> WEBHOOK_URL" "RESTART_WORKER \<noteq> WEBHOOK_SECRET"
  "OWN_NUMBER \<noteq> WEBHOOK_URL" "OWN_NUMBER \<noteq> WEBHOOK_SECRET" "OWN_NUMBER \<noteq> RESTART_WORKER"
  by (simp_all add: WEBHOOK_URL_def WEBHOOK_SECRET_def RESTART_WORKER_def OWN_NUMBER_def)

definition get_config :: "database \<Rightarrow> str \<Rightarrow> str option" where
  "get_config d k = map_option kv_value (gateway_config d k)"

definition set_config :: "str \<Rightarrow> str option \<Rightarrow> 'd world \<Rightarrow> 'd world" where
  "set_config k v w =
     (case v of
        None \<Rightarrow> w\<lparr>db := (db w)\<lparr>gateway_config := (gateway_config (db w))(k := None)\<rparr>\<rparr>
      | Some x \<Rightarrow>
          (case utc_now_iso w of (now, w') \<Rightarrow>
             w'\<lparr>db := (db w')\<lparr>gateway_config := (gateway_config (db w'))
                   (k \<mapsto> \<lparr>kv_value = x, kv_updated_at = now\<rparr>)\<rparr>\<rparr>))"

text \<open>
  The interface the webhook settings, the webhook dispatcher and the restart flag share: a
  store of optional texts under names.
\<close>

locale config_store =
  fixes get :: "'s \<Rightarrow> str \<Rightarrow> str option"
    and put :: "str \<Rightarrow> str option \<Rightarrow> 's \<Rightarrow> 's"
  assumes get_put: "get (put k v s) j = (if j = k then v else get s j)"
begin

lemma get_put_same: "get (put k v s) k = v"
  by (simp add: get_put)

lemma get_put_other: "j \<noteq> k \<Longrightarrow> get (put k v s) j = get s j"
  by (simp add: get_put)

lemma get_put_commute: "k \<noteq> l \<Longrightarrow> get (put k v (put l u s)) = get (put l u (put k v s))"
  by (auto simp: get_put)

text \<open>A flag that is cleared when it is seen is seen once.\<close>

lemma flag_consumed: "\<not> truthy (get (put k None s) k)"
  by (simp add: get_put)

end

interpretation cfg: config_store "\<lambda>w. get_config (db w)" set_config
  by unfold_locales (auto simp: get_config_def set_config_def utc_now_iso_def split: option.splits)

lemma set_config_frame [simp]:
  "messages (db (set_config k v w)) = messages (db w)"
  "deliveries (db (set_config k v w)) = deliveries (db w)"
  "gateway_status (db (set_config k v w)) = gateway_status (db w)"
  "api_tokens (db (set_config k v w)) = api_tokens (db w)"
  "admin_users (db (set_config k v w)) = admin_users (db w)"
  "events (db (set_config k v w)) = events (db w)"
  "event_seq (db (set_config k v w)) = event_seq (db w)"
  "drv (set_config k v w) = drv w"
  by (simp_all add: set_config_def utc_now_iso_def split: option.splits)

section \<open>Event log\<close>

definition RETENTION_DAYS :: int where "RETENTION_DAYS = 7"

definition days :: "int \<Rightarrow> datetime" where "days n = n * 86400000000"

definition record_event :: "str \<Rightarrow> str \<Rightarrow> str \<Rightarrow> 'd world \<Rightarrow> 'd world" where
  "record_event source level content w =
     (case utc_now_iso w of (ts, w1) \<Rightarrow>
        case now_utc w1 of (now, w2) \<Rightarrow>
          let cutoff = iso (now - days RETENTION_DAYS);
              row = \<lparr>ev_id = Suc (event_seq (db w2)), ev_ts = ts, ev_source = source,
                     ev_level = level, ev_message = content\<rparr>
          in w2\<lparr>db := (db w2)\<lparr>
               events := filter (\<lambda>e. \<not> ev_ts e < cutoff) (events (db w2) @ [row]),
               event_seq := Suc (event_seq (db w2))\<rparr>\<rparr>)"

lemma record_event_frame [simp]:
  "messages (db (record_event s l t w)) = messages (db w)"
  "deliveries (db (record_event s l t w)) = deliveries (db w)"
  "gateway_status (db (record_event s l t w)) = gateway_status (db w)"
  "gateway_config (db (record_event s l t w)) = gateway_config (db w)"
  "api_tokens (db (record_event s l t w)) = api_tokens (db w)"
  "admin_users (db (record_event s l t w)) = admin_users (db w)"
  "drv (record_event s l t w) = drv w"
  by (simp_all add: record_event_def utc_now_iso_def now_utc_def Let_def)

definition event_ids_ok :: "database \<Rightarrow> bool" where
  "event_ids_ok d \<longleftrightarrow> sorted_wrt (<) (map ev_id (events d)) \<and> (\<forall>e \<in> set (events d). ev_id e \<le> event_seq d)"

lemma sorted_wrt_map_filter: "sorted_wrt R (map f xs) \<Longrightarrow> sorted_wrt R (map f (filter P xs))"
  by (induction xs) auto

lemma record_event_ids: "event_ids_ok (db w) \<Longrightarrow> event_ids_ok (db (record_event s l t w))"
  unfolding event_ids_ok_def record_event_def Let_def
  by (auto simp: utc_now_iso_def now_utc_def sorted_wrt_append le_SucI less_Suc_eq_le
      intro: sorted_wrt_map_filter)

section \<open>Properties\<close>

text \<open>
  The event log keeps seven days: recording an event appends it under a fresh, larger number,
  keeps every earlier event written within the last seven days and drops exactly the older ones.
\<close>

theorem event_log_retention:
  assumes ids: "event_ids_ok (db w)"
    and ts: "ts = wall (env w) (tick (env w))" and now: "now = wall (env w) (Suc (tick (env w)))"
    and steady: "seconds (now - days 7) \<le> seconds ts"
    and w': "w' = record_event source level content w"
  shows "event_ids_ok (db w') \<and>
    events (db w') \<noteq> [] \<and> ev_message (last (events (db w'))) = content \<and>
    ev_ts (last (events (db w'))) = iso ts \<and>
    (\<forall>e \<in> set (events (db w)). \<forall>t. ev_ts e = iso t \<longrightarrow>
       (e \<in> set (events (db w')) \<longleftrightarrow> seconds (now - days 7) \<le> seconds t))"
proof -
  let ?row = "\<lparr>ev_id = Suc (event_seq (db w)), ev_ts = iso ts, ev_source = source,
      ev_level = level, ev_message = content\<rparr>"
  have ev: "events (db w') =
      filter (\<lambda>e. \<not> ev_ts e < iso (now - days 7)) (events (db w)) @ [?row]"
    using ts now steady w'
    by (simp add: record_event_def utc_now_iso_def now_utc_def RETENTION_DAYS_def iso_less_iff)
  have "?row \<notin> set (events (db w))"
    using ids by (auto simp: event_ids_ok_def)
  moreover have "event_ids_ok (db w')"
    unfolding w' by (rule record_event_ids [OF ids])
  ultimately show ?thesis by (auto simp: ev iso_less_iff)
qed

definition sample_env :: env where
  "sample_env = \<lparr>wall = (\<lambda>i. 63921355200000000 + 1000000 * int i), monotime = (\<lambda>i. of_nat i),
     ulid = (\<lambda>i. nat_str i), random_byte = (\<lambda>i j. (i + j) mod 256), tick = 0\<rparr>"

definition sample_world :: "database \<Rightarrow> 'd \<Rightarrow> 'd world" where
  "sample_world d s = \<lparr>db = d, env = sample_env, drv = s\<rparr>"

theorem event_log_retention_witness:
  "ev_message (last (events (db (record_event (lit ''admin'') (lit ''info'') (lit ''hello'')
     (sample_world empty_db ()))))) = lit ''hello''"
proof -
  let ?w = "sample_world empty_db ()"
  have ids: "event_ids_ok (db ?w)" by (simp add: sample_world_def empty_db_def event_ids_ok_def)
  have "seconds (wall (env ?w) (Suc (tick (env ?w))) - days 7) \<le> seconds (wall (env ?w) (tick (env ?w)))"
    by (simp add: sample_world_def sample_env_def seconds_def days_def)
  from event_log_retention [OF ids refl refl this refl] show ?thesis by simp
qed

end
