(* ===== verification/Throttle.thy ===== *)
theory Throttle
  imports Store
begin

text \<open>
  The two throttles: the worker's \<open>TokenBucket\<close> (\<^verbatim>\<open>gateway/worker/main.py\<close>), which charges one
  token per SMS segment, and the API's \<open>RateLimiter\<close> (\<^verbatim>\<open>gateway/api/ratelimit.py\<close>), a sliding
  60 second window. Both read \<open>time.monotonic()\<close> once per call, here the argument \<open>now\<close>.
  Python floats are modelled as exact rationals.
\<close>

section \<open>Token bucket\<close>

record token_bucket =
  tb_rate :: rat
  tb_capacity :: rat
  tb_tokens :: rat
  tb_last_refill :: rat

definition new_bucket :: "nat \<Rightarrow> rat \<Rightarrow> token_bucket" where
  "new_bucket per_minute now =
     \<lparr>tb_rate = of_nat per_minute / 60, tb_capacity = of_nat per_minute,
      tb_tokens = of_nat per_minute, tb_last_refill = now\<rparr>"

definition try_take :: "rat \<Rightarrow> rat \<Rightarrow> token_bucket \<Rightarrow> bool \<times> token_bucket" where
  "try_take cost now b =
     (let tokens = min (tb_capacity b) (tb_tokens b + (now - tb_last_refill b) * tb_rate b);
          b' = b\<lparr>tb_tokens := tokens, tb_last_refill := now\<rparr>
      in if 1 \<le> tokens then (True, b'\<lparr>tb_tokens := tokens - cost\<rparr>) else (False, b'))"

text \<open>
  The interface the outbox relies on: a meter with a balance that fills at a rate up to a
  capacity. A grant needs a balance of at least one and lowers it by the cost; a refusal means
  the balance is below one.
\<close>

locale meter =
  fixes take_cost :: "rat \<Rightarrow> rat \<Rightarrow> 's \<Rightarrow> bool \<times> 's"
    and balance :: "'s \<Rightarrow> rat" and capacity :: "'s \<Rightarrow> rat" and rate :: "'s \<Rightarrow> rat"
    and stamp :: "'s \<Rightarrow> rat"
  assumes take_params: "capacity (snd (take_cost c t s)) = capacity s"
      "rate (snd (take_cost c t s)) = rate s" "stamp (snd (take_cost c t s)) = t"
    and granted: "fst (take_cost c t s) \<Longrightarrow>
      1 \<le> min (capacity s) (balance s + (t - stamp s) * rate s) \<and>
      balance (snd (take_cost c t s)) = min (capacity s) (balance s + (t - stamp s) * rate s) - c"
    and refused: "\<not> fst (take_cost c t s) \<Longrightarrow>
      min (capacity s) (balance s + (t - stamp s) * rate s) < 1 \<and>
      balance (snd (take_cost c t s)) = min (capacity s) (balance s + (t - stamp s) * rate s)"
begin

text \<open>A run of requests \<open>(cost, time)\<close>: the cost granted in total, and the final state.\<close>

fun run :: "'s \<Rightarrow> (rat \<times> rat) list \<Rightarrow> rat \<times> 's" where
  "run s [] = (0, s)"
| "run s ((c, t) # reqs) =
     (let (ok, s') = take_cost c t s; (spent, s'') = run s' reqs
      in ((if ok then c else 0) + spent, s''))"

lemma balance_step:
  "balance (snd (take_cost c t s)) \<le> balance s + (t - stamp s) * rate s - (if fst (take_cost c t s) then c else 0)"
  using granted [of c t s] refused [of c t s] by (cases "fst (take_cost c t s)") auto

lemma floor_step:
  assumes "1 - m \<le> balance s" and "c \<le> m" and "1 \<le> m" and "0 \<le> rate s" and "stamp s \<le> t"
    and "0 \<le> capacity s"
  shows "1 - m \<le> balance (snd (take_cost c t s))"
proof -
  have "0 \<le> (t - stamp s) * rate s" using assms by simp
  then have "1 - m \<le> balance s + (t - stamp s) * rate s" using assms(1) by linarith
  then have "1 - m \<le> min (capacity s) (balance s + (t - stamp s) * rate s)" using assms by auto
  then show ?thesis
    using assms granted [of c t s] refused [of c t s] by (cases "fst (take_cost c t s)") auto
qed

lemma run_bound:
  assumes "sorted (stamp s # map snd reqs)" and "\<forall>(c, t) \<in> set reqs. c \<le> m"
    and "1 \<le> m" "0 \<le> rate s" "1 - m \<le> balance s" "0 \<le> capacity s"
  shows "fst (run s reqs) + balance (snd (run s reqs))
      \<le> balance s + (stamp (snd (run s reqs)) - stamp s) * rate s \<and>
    1 - m \<le> balance (snd (run s reqs)) \<and>
    stamp (snd (run s reqs)) = last (stamp s # map snd reqs)"
  using assms
proof (induction reqs arbitrary: s)
  case (Cons req reqs)
  obtain c t where req: "req = (c, t)" by (cases req)
  define s' where "s' = snd (take_cost c t s)"
  have params: "stamp s' = t" "rate s' = rate s" "capacity s' = capacity s"
    by (simp_all add: s'_def take_params)
  have floor: "1 - m \<le> balance s'"
    unfolding s'_def using Cons.prems by (intro floor_step) (auto simp: req)
  have "fst (run s' reqs) + balance (snd (run s' reqs))
      \<le> balance s' + (stamp (snd (run s' reqs)) - stamp s') * rate s' \<and>
    1 - m \<le> balance (snd (run s' reqs)) \<and>
    stamp (snd (run s' reqs)) = last (stamp s' # map snd reqs)"
    using Cons.prems floor by (intro Cons.IH) (auto simp: req params)
  moreover have "balance s' \<le> balance s + (t - stamp s) * rate s - (if fst (take_cost c t s) then c else 0)"
    unfolding s'_def by (rule balance_step)
  moreover have "run s (req # reqs) =
      ((if fst (take_cost c t s) then c else 0) + fst (run s' reqs), snd (run s' reqs))"
    by (simp add: req s'_def split_beta Let_def)
  ultimately show ?case
    by (auto simp: params req algebra_simps)
qed simp

lemma spent_bound:
  assumes "sorted (stamp s # map snd reqs)" and "\<forall>(c, t) \<in> set reqs. c \<le> m"
    and "1 \<le> m" "0 \<le> rate s" "1 - m \<le> balance s" "0 \<le> capacity s"
  shows "fst (run s reqs) \<le> balance s + (last (stamp s # map snd reqs) - stamp s) * rate s + (m - 1)"
proof -
  from run_bound [OF assms]
  have "fst (run s reqs) + balance (snd (run s reqs))
      \<le> balance s + (last (stamp s # map snd reqs) - stamp s) * rate s"
    and "1 - m \<le> balance (snd (run s reqs))" by metis+
  then show ?thesis by linarith
qed

lemma granted_after_wait:
  assumes "1 \<le> capacity s" and "0 < rate s" and "stamp s + (1 - balance s) / rate s \<le> t"
  shows "fst (take_cost c t s)"
proof (rule ccontr)
  assume no: "\<not> fst (take_cost c t s)"
  have "1 - balance s \<le> (t - stamp s) * rate s"
    using assms by (simp add: field_simps)
  then show False using refused [OF no] assms(1) by auto
qed

end

interpretation bucket: meter try_take tb_tokens tb_capacity tb_rate tb_last_refill
  by unfold_locales (auto simp: try_take_def Let_def split: if_splits)

text \<open>The run of the worker's own bucket, to which the facts of the interface apply.\<close>

fun bucket_run :: "token_bucket \<Rightarrow> (rat \<times> rat) list \<Rightarrow> rat \<times> token_bucket" where
  "bucket_run b [] = (0, b)"
| "bucket_run b ((c, t) # reqs) =
     (let (ok, b') = try_take c t b; (spent, b'') = bucket_run b' reqs
      in ((if ok then c else 0) + spent, b''))"

lemma bucket_run_eq: "bucket_run b reqs = bucket.run b reqs"
  by (induction b reqs rule: bucket_run.induct) (auto simp: Let_def split: prod.splits)

section \<open>Sliding window\<close>

record rate_limiter =
  rl_per_minute :: int
  rl_hits :: "str \<Rightarrow> rat list"

definition new_limiter :: "int \<Rightarrow> rate_limiter" where
  "new_limiter per_minute = \<lparr>rl_per_minute = per_minute, rl_hits = (\<lambda>_. [])\<rparr>"

definition allow :: "str \<Rightarrow> rat \<Rightarrow> rate_limiter \<Rightarrow> bool \<times> rate_limiter" where
  "allow key now rl =
     (if rl_per_minute rl \<le> 0 then (True, rl)
      else let hits = dropWhile (\<lambda>h. h \<le> now - 60) (rl_hits rl key)
           in if rl_per_minute rl \<le> int (length hits)
              then (False, rl\<lparr>rl_hits := (rl_hits rl)(key := hits)\<rparr>)
              else (True, rl\<lparr>rl_hits := (rl_hits rl)(key := hits @ [now])\<rparr>))"

text \<open>A history of requests \<open>(key, time)\<close>: the limiter after it and the granted times per key.\<close>

definition limiter_step ::
  "str \<times> rat \<Rightarrow> rate_limiter \<times> (str \<Rightarrow> rat list) \<Rightarrow> rate_limiter \<times> (str \<Rightarrow> rat list)" where
  "limiter_step req st =
     (case req of (k, t) \<Rightarrow> case st of (rl, G) \<Rightarrow>
        case allow k t rl of (ok, rl') \<Rightarrow> (rl', if ok then G(k := G k @ [t]) else G))"

definition limiter_run ::
  "int \<Rightarrow> (str \<times> rat) list \<Rightarrow> rate_limiter \<times> (str \<Rightarrow> rat list)" where
  "limiter_run n reqs = fold limiter_step reqs (new_limiter n, \<lambda>_. [])"

definition in_window :: "rat \<Rightarrow> rat \<Rightarrow> bool" where
  "in_window t g \<longleftrightarrow> t - 60 < g \<and> g \<le> t"

definition window_count :: "rat \<Rightarrow> rat list \<Rightarrow> nat" where
  "window_count t G = length (filter (in_window t) G)"

lemma dropWhile_sorted:
  fixes b :: "'a::linorder"
  shows "sorted xs \<Longrightarrow> dropWhile (\<lambda>h. h \<le> b) xs = filter (\<lambda>h. b < h) xs"
  by (induction xs) (auto simp: not_le intro!: filter_True [symmetric] dest: less_le_trans)

text \<open>What the deque of a key holds: the grants since some moment not after the present.\<close>

definition limiter_inv :: "rat \<Rightarrow> rate_limiter \<times> (str \<Rightarrow> rat list) \<Rightarrow> bool" where
  "limiter_inv now st \<longleftrightarrow>
     (\<forall>k. sorted (snd st k) \<and> (\<forall>g \<in> set (snd st k). g \<le> now) \<and>
        (\<exists>s \<le> now. rl_hits (fst st) k = filter (\<lambda>g. s - 60 < g) (snd st k)) \<and>
        (\<forall>t. int (window_count t (snd st k)) \<le> rl_per_minute (fst st)))"

lemma limiter_inv_pair:
  "limiter_inv now (rl, G) \<longleftrightarrow>
     (\<forall>k. sorted (G k) \<and> (\<forall>g \<in> set (G k). g \<le> now) \<and>
        (\<exists>s. s \<le> now \<and> rl_hits rl k = filter (\<lambda>g. s - 60 < g) (G k)) \<and>
        (\<forall>t. int (window_count t (G k)) \<le> rl_per_minute rl))"
  unfolding limiter_inv_def fst_conv snd_conv by (rule refl)

lemma limiter_inv_later: "limiter_inv now st \<Longrightarrow> now \<le> t \<Longrightarrow> limiter_inv t st"
  unfolding limiter_inv_def by (meson order_trans)

lemma hits_are_window:
  assumes "limiter_inv now (rl, G)" and "now \<le> t"
  shows "dropWhile (\<lambda>h. h \<le> t - 60) (rl_hits rl k) = filter (in_window t) (G k)"
proof -
  obtain s where s: "s \<le> now" "rl_hits rl k = filter (\<lambda>g. s - 60 < g) (G k)"
    and le: "\<forall>g \<in> set (G k). g \<le> now" and srt: "sorted (G k)"
    using assms(1) unfolding limiter_inv_pair by blast
  have "dropWhile (\<lambda>h. h \<le> t - 60) (rl_hits rl k) = filter (\<lambda>g. t - 60 < g \<and> s - 60 < g) (G k)"
    unfolding s(2) using srt by (subst dropWhile_sorted) (auto intro!: filter_cong simp: sorted_filter [of id, simplified])
  also have "\<dots> = filter (in_window t) (G k)"
    using le s(1) assms(2) by (intro filter_cong) (auto simp: in_window_def)
  finally show ?thesis .
qed

lemma window_count_snoc: "window_count t (G @ [g]) = window_count t G + (if in_window t g then 1 else 0)"
  by (simp add: window_count_def)

lemma limiter_step_inv:
  assumes inv: "limiter_inv now (rl, G)" and pos: "0 < rl_per_minute rl" and le: "now \<le> t"
  shows "limiter_inv t (limiter_step (k, t) (rl, G))"
proof -
  define hits where "hits = dropWhile (\<lambda>h. h \<le> t - 60) (rl_hits rl k)"
  have hits: "hits = filter (in_window t) (G k)"
    unfolding hits_def by (rule hits_are_window [OF inv le])
  have old: "sorted (G j)" "\<forall>g \<in> set (G j). g \<le> t" "\<forall>u. int (window_count u (G j)) \<le> rl_per_minute rl"
    "\<exists>s. s \<le> t \<and> rl_hits rl j = filter (\<lambda>g. s - 60 < g) (G j)" for j
    using limiter_inv_later [OF inv le] unfolding limiter_inv_pair by blast+
  have now_hits: "hits = filter (\<lambda>g. t - 60 < g) (G k)"
    unfolding hits using old(2) by (intro filter_cong) (auto simp: in_window_def)
  have full: "window_count u (G k) \<le> length hits" if "in_window u t" for u
    unfolding window_count_def now_hits using that
    by (intro length_filter_imp) (auto simp: in_window_def)
  show ?thesis
  proof (cases "rl_per_minute rl \<le> int (length hits)")
    case True
    then have "limiter_step (k, t) (rl, G) = (rl\<lparr>rl_hits := (rl_hits rl)(k := hits)\<rparr>, G)"
      using pos by (simp add: limiter_step_def allow_def hits_def [symmetric] Let_def)
    then show ?thesis using old now_hits by (auto simp: limiter_inv_pair)
  next
    case False
    then have "limiter_step (k, t) (rl, G) =
        (rl\<lparr>rl_hits := (rl_hits rl)(k := hits @ [t])\<rparr>, G(k := G k @ [t]))"
      using pos by (simp add: limiter_step_def allow_def hits_def [symmetric] Let_def)
    moreover have "int (window_count u (G k @ [t])) \<le> rl_per_minute rl" for u
      using full [of u] False old(3) [of k] by (auto simp: window_count_snoc)
    moreover have "\<exists>s. s \<le> t \<and> hits @ [t] = filter (\<lambda>g. s - 60 < g) (G k @ [t])"
      using now_hits by auto
    ultimately show ?thesis using old by (auto simp: limiter_inv_pair sorted_append)
  qed
qed

lemma limiter_step_per_minute:
  "rl_per_minute (fst (limiter_step req st)) = rl_per_minute (fst st)"
  by (auto simp: limiter_step_def allow_def Let_def split: prod.splits)

lemma limiter_run_inv:
  assumes "0 < n" and "sorted (map snd reqs)" and "\<forall>(k, t) \<in> set reqs. t \<le> now"
  shows "limiter_inv now (limiter_run n reqs) \<and> rl_per_minute (fst (limiter_run n reqs)) = n"
  using assms(2,3)
proof (induction reqs arbitrary: now rule: rev_induct)
  case Nil
  then show ?case
    using assms(1) by (auto simp: limiter_run_def limiter_inv_def new_limiter_def window_count_def)
next
  case (snoc req reqs)
  obtain k t where req: "req = (k, t)" by (cases req)
  obtain rl G where st: "limiter_run n reqs = (rl, G)" by (cases "limiter_run n reqs")
  have "sorted (map snd reqs)" "\<forall>(k, u) \<in> set reqs. u \<le> t" and "t \<le> now"
    using snoc.prems by (auto simp: req sorted_append)
  then have inv: "limiter_inv t (rl, G)" and n: "rl_per_minute rl = n"
    using snoc.IH [of t] by (simp_all add: st)
  have "limiter_inv t (limiter_step (k, t) (rl, G))"
    using assms(1) n by (intro limiter_step_inv [OF inv]) auto
  then show ?case
    using n limiter_step_per_minute [of req "(rl, G)"] st limiter_inv_later \<open>t \<le> now\<close>
    by (auto simp: limiter_run_def req)
qed

section \<open>Properties\<close>



text \<open>
  An oversized message pauses the queue but never deadlocks it: with at least one message per
  minute allowed, a request is granted as soon as the time needed to refill the balance to one
  has passed, whatever the message costs.
\<close>

theorem token_bucket_never_deadlocks:
  assumes "1 \<le> tb_capacity b" and "0 < tb_rate b"
    and "tb_last_refill b + (1 - tb_tokens b) / tb_rate b \<le> now"
  shows "fst (try_take cost now b)"
  using bucket.granted_after_wait assms by blast

theorem token_bucket_never_deadlocks_witness:
  "fst (try_take 10 100 \<lparr>tb_rate = 1 / 10, tb_capacity = 6, tb_tokens = - 9, tb_last_refill = 0\<rparr>)"
  by (rule token_bucket_never_deadlocks) simp_all

text \<open>
  C36. The rate limit holds for every 60 second window: whatever the requests and keys, as long as
  the clock does not run backwards, no key is granted more than \<open>per_minute\<close> requests between
  \<open>t - 60\<close> and \<open>t\<close>, for any \<open>t\<close>.
\<close>

theorem rate_limit_every_window:
  assumes "0 < per_minute" and "sorted (map snd reqs)"
  shows "int (window_count t (snd (limiter_run per_minute reqs) k)) \<le> per_minute"
proof -
  have "\<forall>(k, u) \<in> set reqs. u \<le> Max (insert 0 (snd ` set reqs))"
    by (auto intro!: Max_ge simp: rev_image_eqI)
  from limiter_run_inv [OF assms this] show ?thesis by (auto simp: limiter_inv_def)
qed

theorem rate_limit_every_window_witness:
  "snd (limiter_run 2 [([], 0), ([], 10), ([], 20), ([], 61)]) [] = [0, 10, 61] \<and>
   int (window_count 61 (snd (limiter_run 2 [([], 0), ([], 10), ([], 20), ([], 61)]) [])) \<le> 2"
  using rate_limit_every_window [of 2 "[([], 0), ([], 10), ([], 20), ([], 61)]" 61 "[]"]
  by (simp add: limiter_run_def limiter_step_def new_limiter_def allow_def Let_def)

text \<open>
  Nobody is refused without cause: after any history the next request of a key is granted
  exactly when the limit is off or fewer than \<open>per_minute\<close> requests of that key were granted in
  the last 60 seconds. The deque the code keeps is equivalent to remembering every grant.
\<close>

theorem rate_limit_exact:
  assumes "0 < per_minute" and "sorted (map snd reqs @ [now])"
    and "limiter_run per_minute reqs = (rl, G)"
  shows "fst (allow k now rl) \<longleftrightarrow> int (window_count now (G k)) < per_minute"
proof -
  have "sorted (map snd reqs)" "\<forall>(k, t) \<in> set reqs. t \<le> now"
    using assms(2) by (auto simp: sorted_append)
  from limiter_run_inv [OF assms(1) this] assms(3)
  have inv: "limiter_inv now (rl, G)" and n: "rl_per_minute rl = per_minute" by auto
  show ?thesis
    using hits_are_window [OF inv order_refl, of k] assms(1) n
    by (simp add: allow_def Let_def window_count_def)
qed

theorem rate_limit_exact_witness:
  "\<not> fst (allow [] 59 (fst (limiter_run 1 [([], 0)]))) \<and> fst (allow [] 60 (fst (limiter_run 1 [([], 0)])))"
proof -
  obtain rl G where run: "limiter_run 1 [([], 0)] = (rl, G)" by (cases "limiter_run 1 [([], 0)]")
  have G: "G = (\<lambda>_. [])([] := [0])"
    using run by (simp add: limiter_run_def limiter_step_def new_limiter_def allow_def Let_def)
  show ?thesis
    using rate_limit_exact [OF _ _ run, of 59 "[]"] rate_limit_exact [OF _ _ run, of 60 "[]"]
    by (simp add: run G window_count_def in_window_def)
qed

end
