(* ===== verification/Modem.thy ===== *)
theory Modem
  imports Store Sms
begin

text \<open>
  \<^verbatim>\<open>gateway/worker/modem.py\<close>: the driver protocol, the contract of its \<open>send_sms\<close>, and the file-backed
  \<open>FakeDriver\<close>. The real driver is in \<^verbatim>\<open>Gammu\<close> and \<^verbatim>\<open>GammuInbox\<close>.
\<close>

section \<open>The driver protocol\<close>

datatype inbound_event =
    InboundSMS (in_msisdn: str) (in_body: str) (in_received_at: str) (in_segments: int)
  | DeliveryReport (dr_msisdn: str) (dr_reference: "int option") (dr_delivered: bool)
      (dr_timestamp: str)

record send_result =
  sr_segments :: int
  sr_reference :: "int option"

record modem_status =
  ms_connected :: bool
  ms_signal_percent :: "int option"
  ms_operator :: "str option"
  ms_registration :: "str option"
  ms_own_number :: "str option"

text \<open>
  A method of a driver takes the driver's state and the environment; it returns a value or an
  exception, the new state and how many readings of the environment it took.
\<close>

type_synonym ('d, 'a) driver_op = "'d \<Rightarrow> env \<Rightarrow> (exn + 'a) \<times> 'd \<times> nat"

record 'd modem_driver =
  dv_connect :: "('d, unit) driver_op"
  dv_send_sms :: "str \<Rightarrow> str \<Rightarrow> ('d, send_result) driver_op"
  dv_fetch_inbound :: "('d, inbound_event list) driver_op"
  dv_status :: "('d, modem_status) driver_op"

definition call :: "('d, 'a) driver_op \<Rightarrow> 'd world \<Rightarrow> (exn + 'a) \<times> 'd world" where
  "call m w = (case m (drv w) (env w) of (r, d, n) \<Rightarrow> (r, advance n (w\<lparr>drv := d\<rparr>)))"

lemma call_db [simp]: "db (snd (call m w)) = db w"
  by (simp add: call_def split: prod.split)

lemma call_tapes [simp]:
  "wall (env (snd (call m w))) = wall (env w)" "ulid (env (snd (call m w))) = ulid (env w)"
  "monotime (env (snd (call m w))) = monotime (env w)" "tick (env w) \<le> tick (env (snd (call m w)))"
  by (simp_all add: call_def split: prod.split)

text \<open>
  The contract between a driver's \<open>send_sms\<close> and the worker's retry loop, over the log \<open>air\<close> of
  what the modem accepted: the log only grows, and a \<open>ModemError\<close> that is not a
  \<open>PartialSendError\<close> means that nothing was added to it, so sending again repeats nothing.
\<close>

locale sms_sender =
  fixes send :: "str \<Rightarrow> str \<Rightarrow> ('d, send_result) driver_op"
    and air :: "'d \<Rightarrow> 'p list"
  assumes air_grows: "send to body d e = (r, d', n) \<Longrightarrow> \<exists>new. air d' = air d @ new"
    and retry_safe: "\<lbrakk>send to body d e = (Inl x, d', n); is_modem_error x; \<And>m. x \<noteq> PartialSendError m\<rbrakk>
      \<Longrightarrow> air d' = air d"
begin

lemma failed_attempt_silent:
  assumes "send to body d e = (Inl (ModemError m), d', n)"
  shows "air d' = air d"
  using retry_safe [OF assms] by simp

lemma lost_connection_silent:
  assumes "send to body d e = (Inl (ModemConnectionError m), d', n)"
  shows "air d' = air d"
  using retry_safe [OF assms] by simp

end

section \<open>FakeDriver\<close>

text \<open>
  A line of \<^verbatim>\<open>fake_inbound.jsonl\<close>, as \<open>json.loads\<close> gives it to the driver: the two kinds of
  object the class documents with the keys they may lack, a blank line, or a line that is not
  JSON.
\<close>

datatype fake_line =
    FBlank
  | FMalformed
  | FText (ft_from: "str option") (ft_body: "str option") (ft_received_at: "str option")
      (ft_segments: "int option")
  | FReport (fr_for: "str option") (fr_reference: "int option") (fr_delivered: "bool option")
      (fr_timestamp: "str option")

record fake_sent =
  fs_to :: str
  fs_body :: str
  fs_segments :: nat
  fs_reference :: int
  fs_sent_at :: str

record fake_driver =
  fd_inbound :: "fake_line list option"
  fd_sent :: "fake_sent list"
  fd_next_reference :: int

definition fake_connect :: "(fake_driver, unit) driver_op" where
  "fake_connect d e = (Inr (), d, 0)"

definition fake_send_sms :: "str \<Rightarrow> str \<Rightarrow> (fake_driver, send_result) driver_op" where
  "fake_send_sms to body d e =
     (case count_segments body of
        Inl x \<Rightarrow> (Inl x, d, 0)
      | Inr segments \<Rightarrow>
          let reference = fd_next_reference d + 1;
              entry = \<lparr>fs_to = to, fs_body = body, fs_segments = segments,
                fs_reference = reference, fs_sent_at = iso (wall e (tick e))\<rparr>
          in (Inr \<lparr>sr_segments = int segments, sr_reference = Some reference\<rparr>,
              d\<lparr>fd_next_reference := reference, fd_sent := fd_sent d @ [entry]\<rparr>, 1))"

definition KeyError :: "str \<Rightarrow> exn" where
  "KeyError k = OtherError (lit ''KeyError'') k"

text \<open>\<open>x or utc_now_iso()\<close> after \<open>n\<close> readings of the environment.\<close>

definition or_now :: "env \<Rightarrow> nat \<Rightarrow> str option \<Rightarrow> str \<times> nat" where
  "or_now e n v = (if truthy v then (the v, n) else (iso (wall e (tick e + n)), Suc n))"

fun fake_event :: "env \<Rightarrow> nat \<Rightarrow> fake_line \<Rightarrow> exn + (inbound_event option \<times> nat)" where
  "fake_event e n FBlank = Inr (None, n)"
| "fake_event e n FMalformed = Inl (OtherError (lit ''JSONDecodeError'') [])"
| "fake_event e n (FReport None _ _ _) = Inl (KeyError (lit ''for''))"
| "fake_event e n (FReport (Some number) reference delivered stamp) =
     (case or_now e n stamp of (ts, n') \<Rightarrow>
        Inr (Some (DeliveryReport number reference (delivered \<noteq> Some False) ts), n'))"
| "fake_event e n (FText None _ _ _) = Inl (KeyError (lit ''from''))"
| "fake_event e n (FText (Some _) None _ _) = Inl (KeyError (lit ''body''))"
| "fake_event e n (FText (Some number) (Some body) received segments) =
     (case or_now e n received of (ts, n') \<Rightarrow>
        Inr (Some (InboundSMS number body ts (case segments of None \<Rightarrow> 1 | Some k \<Rightarrow> k)), n'))"

fun fake_events :: "env \<Rightarrow> nat \<Rightarrow> fake_line list \<Rightarrow> (exn + inbound_event list) \<times> nat" where
  "fake_events e n [] = (Inr [], n)"
| "fake_events e n (l # ls) =
     (case fake_event e n l of
        Inl x \<Rightarrow> (Inl x, n)
      | Inr (ev, n') \<Rightarrow>
          (case fake_events e n' ls of
             (Inl x, n'') \<Rightarrow> (Inl x, n'')
           | (Inr evs, n'') \<Rightarrow> (Inr (case ev of None \<Rightarrow> evs | Some v \<Rightarrow> v # evs), n'')))"

text \<open>The file is removed before its lines are decoded.\<close>

definition fake_fetch_inbound :: "(fake_driver, inbound_event list) driver_op" where
  "fake_fetch_inbound d e =
     (case fd_inbound d of
        None \<Rightarrow> (Inr [], d, 0)
      | Some raw \<Rightarrow> (case fake_events e 0 raw of (r, n) \<Rightarrow> (r, d\<lparr>fd_inbound := None\<rparr>, n)))"

definition fake_status :: "(fake_driver, modem_status) driver_op" where
  "fake_status d e =
     (Inr \<lparr>ms_connected = True, ms_signal_percent = Some 100, ms_operator = Some (lit ''FAKE''),
        ms_registration = Some (lit ''home''), ms_own_number = None\<rparr>, d, 0)"

definition FakeDriver :: "fake_driver modem_driver" where
  "FakeDriver = \<lparr>dv_connect = fake_connect, dv_send_sms = fake_send_sms,
     dv_fetch_inbound = fake_fetch_inbound, dv_status = fake_status\<rparr>"

definition new_fake_driver :: "fake_line list option \<Rightarrow> fake_driver" where
  "new_fake_driver inbound = \<lparr>fd_inbound = inbound, fd_sent = [], fd_next_reference = 0\<rparr>"

interpretation fake: sms_sender fake_send_sms fd_sent
  by unfold_locales (auto simp: fake_send_sms_def Let_def split: sum.splits)

end
