(* ===== verification/Gammu.thy ===== *)
theory Gammu
  imports Modem
begin

text \<open>
  The \<open>GammuDriver\<close> of \<^verbatim>\<open>gateway/worker/modem.py\<close>. The library is the parameter \<open>g\<close>; a call of
  it returns a value or an exception, the incoming notifications it delivers to the callback
  while it runs, and the modem's new state. \<open>gd_air\<close> is a log the model keeps beside the code's
  fields: the parts whose \<open>SendSMS\<close> returned, with the number they went to.
\<close>

section \<open>python-gammu as a parameter\<close>

text \<open>A \<open>gammu.GSMError\<close> with its class name and text, or another Python exception.\<close>

datatype gammu_exn = GSMError str str | GOther str str

record part =
  pt_content :: "nat list"
  pt_smsc :: "nat option"
  pt_number :: "str option"
  pt_type :: "str option"

text \<open>The keys of gammu's SMS dictionaries that the driver reads; a missing key is \<open>None\<close>.\<close>

record sms_dict =
  sd_type :: "str option"
  sd_number :: "str option"
  sd_text :: "str option"
  sd_reference :: "int option"
  sd_delivery_status :: "int option"
  sd_smsc_datetime :: "datetime option"
  sd_datetime :: "datetime option"
  sd_location :: int

text \<open>The arguments of the incoming callback; data that is not a dictionary is \<open>None\<close>.\<close>

datatype notification = Notification (nt_callback: str) (nt_data: "sms_dict option")

type_synonym ('g, 'a) gammu_call = "'g \<Rightarrow> (gammu_exn + 'a) \<times> notification list \<times> 'g"

record network_info =
  ni_name :: "str option"
  ni_code :: "str option"
  ni_state :: "str option"

record 'g gammu =
  gm_import_error :: "str option"
  gm_init :: "('g, unit) gammu_call"
  gm_get_memory :: "('g, str option list) gammu_call"
  gm_set_callback :: "('g, unit) gammu_call"
  gm_set_incoming :: "('g, unit) gammu_call"
  gm_encode_sms :: "bool \<Rightarrow> str \<Rightarrow> gammu_exn + part list"
  gm_send_sms :: "part \<Rightarrow> ('g, int option) gammu_call"
  gm_get_next_sms :: "int option \<Rightarrow> ('g, sms_dict list) gammu_call"
  gm_delete_sms :: "int \<Rightarrow> ('g, unit) gammu_call"
  gm_link_sms :: "sms_dict list list \<Rightarrow> gammu_exn + sms_dict list list"
  gm_decode_sms :: "sms_dict list \<Rightarrow> gammu_exn + str option list option"
  gm_signal_percent :: "('g, int option) gammu_call"
  gm_network_info :: "('g, network_info) gammu_call"
  gm_networks :: "str \<rightharpoonup> str"
  gm_local_to_utc :: "datetime \<Rightarrow> datetime"

record 'g gammu_driver =
  gd_loaded :: bool
  gd_sm :: bool
  gd_own_number :: "str option"
  gd_pending :: "inbound_event list"
  gd_modem :: 'g
  gd_air :: "(str \<times> part) list"

definition new_gammu_driver :: "'g \<Rightarrow> 'g gammu_driver" where
  "new_gammu_driver m = \<lparr>gd_loaded = False, gd_sm = False, gd_own_number = None, gd_pending = [],
     gd_modem = m, gd_air = []\<rparr>"

section \<open>Notifications\<close>

definition stamp_to_iso ::
  "'g gammu \<Rightarrow> env \<Rightarrow> nat \<Rightarrow> datetime option \<Rightarrow> str \<times> nat" where
  "stamp_to_iso g e n stamp =
     (case stamp of
        Some s \<Rightarrow> (iso (gm_local_to_utc g s), n)
      | None \<Rightarrow> (iso (wall e (tick e + n)), Suc n))"

definition delivered_status :: "int option \<Rightarrow> bool" where
  "delivered_status st = (case st of None \<Rightarrow> False | Some s \<Rightarrow> s < 32)"

definition or_else :: "'a option \<Rightarrow> 'a option \<Rightarrow> 'a option" where
  "or_else a b = (case a of Some x \<Rightarrow> Some x | None \<Rightarrow> b)"

definition on_incoming ::
  "'g gammu \<Rightarrow> env \<Rightarrow> notification \<Rightarrow> 'g gammu_driver \<times> nat \<Rightarrow> 'g gammu_driver \<times> nat" where
  "on_incoming g e note st =
     (case st of (d, n) \<Rightarrow>
        if nt_callback note \<noteq> lit ''SMS'' then (d, n)
        else (case nt_data note of
            None \<Rightarrow> (d, n)
          | Some data \<Rightarrow>
              if sd_type data = Some (lit ''Status_Report'') then
                (case stamp_to_iso g e n (or_else (sd_smsc_datetime data) (sd_datetime data)) of
                   (ts, n') \<Rightarrow>
                     (d\<lparr>gd_pending := gd_pending d @
                        [DeliveryReport (case sd_number data of None \<Rightarrow> [] | Some x \<Rightarrow> x)
                           (sd_reference data) (delivered_status (sd_delivery_status data)) ts]\<rparr>,
                      n'))
              else if truthy (sd_number data) \<and> truthy (sd_text data) then
                (case stamp_to_iso g e n (sd_datetime data) of
                   (ts, n') \<Rightarrow>
                     (d\<lparr>gd_pending := gd_pending d @
                        [InboundSMS (the (sd_number data)) (the (sd_text data)) ts 1]\<rparr>, n'))
              else (d, n)))"

text \<open>One call of the library: the notifications reach the callback before the call returns.\<close>

definition gcall ::
  "'g gammu \<Rightarrow> env \<Rightarrow> ('g, 'a) gammu_call \<Rightarrow> 'g gammu_driver \<times> nat \<Rightarrow>
   (gammu_exn + 'a) \<times> 'g gammu_driver \<times> nat" where
  "gcall g e f st =
     (case st of (d, n) \<Rightarrow> case f (gd_modem d) of (r, notes, m) \<Rightarrow>
        (r, fold (on_incoming g e) notes (d\<lparr>gd_modem := m\<rparr>, n)))"

section \<open>Errors\<close>

definition GAMMU_CONNECTION_ERRORS :: "str list" where
  "GAMMU_CONNECTION_ERRORS =
     [lit ''ERR_DEVICENOTEXIST'', lit ''ERR_DEVICEOPENERROR'', lit ''ERR_DEVICEREADERROR'',
      lit ''ERR_DEVICEWRITEERROR'', lit ''ERR_NOTCONNECTED'', lit ''ERR_TIMEOUT'']"

definition wrap_error :: "str \<Rightarrow> str \<Rightarrow> 'g gammu_driver \<Rightarrow> exn \<times> 'g gammu_driver" where
  "wrap_error cls msg d =
     (if cls \<in> set GAMMU_CONNECTION_ERRORS then (ModemConnectionError msg, d\<lparr>gd_sm := False\<rparr>)
      else (ModemError msg, d))"

text \<open>\<open>except self._gammu.GSMError as exc: raise self._wrap_error(exc)\<close>.\<close>

fun wrapped ::
  "(gammu_exn + 'a) \<times> 'g gammu_driver \<times> nat \<Rightarrow> (exn + 'a) \<times> 'g gammu_driver \<times> nat" where
  "wrapped (Inr v, d, n) = (Inr v, d, n)"
| "wrapped (Inl (GOther c m), d, n) = (Inl (OtherError c m), d, n)"
| "wrapped (Inl (GSMError cls msg), d, n) = (case wrap_error cls msg d of (x, d') \<Rightarrow> (Inl x, d', n))"

definition not_connected :: exn where
  "not_connected =
     ModemConnectionError (lit ''modem not connected '' @ [8212] @ lit '' call connect() first'')"

text \<open>\<open>except (ValueError, TypeError)\<close>, with the built-in subclasses of the former.\<close>

fun value_or_type_error :: "exn \<Rightarrow> bool" where
  "value_or_type_error (OtherError c _) \<longleftrightarrow>
     c \<in> {lit ''ValueError'', lit ''TypeError'', lit ''UnicodeError'', lit ''UnicodeEncodeError'',
       lit ''UnicodeDecodeError'', lit ''UnicodeTranslateError''}"
| "value_or_type_error _ \<longleftrightarrow> False"

section \<open>Connecting\<close>

fun first_number :: "str option list \<Rightarrow> str option" where
  "first_number [] = None"
| "first_number (v # vs) =
     (case v of
        Some s \<Rightarrow> if starts_with (lit ''+'') s then Some s else first_number vs
      | None \<Rightarrow> first_number vs)"

definition read_own_number ::
  "'g gammu \<Rightarrow> env \<Rightarrow> 'g gammu_driver \<times> nat \<Rightarrow> str option \<times> 'g gammu_driver \<times> nat" where
  "read_own_number g e st =
     (case gcall g e (gm_get_memory g) st of
        (Inl _, st') \<Rightarrow> (None, st')
      | (Inr entries, st') \<Rightarrow> (first_number entries, st'))"

definition gammu_connect :: "'g gammu \<Rightarrow> ('g gammu_driver, unit) driver_op" where
  "gammu_connect g d e =
     (case gm_import_error g of
        Some msg \<Rightarrow>
          (Inl (ModemConnectionError (lit ''python-gammu is not installed: '' @ msg)), d, 0)
      | None \<Rightarrow>
          (case gcall g e (gm_init g) (d\<lparr>gd_loaded := True, gd_sm := False\<rparr>, 0) of
             (Inl (GSMError _ msg), d1, n1) \<Rightarrow> (Inl (ModemConnectionError msg), d1, n1)
           | (Inl (GOther c m), d1, n1) \<Rightarrow> (Inl (OtherError c m), d1, n1)
           | (Inr _, d1, n1) \<Rightarrow>
               (case read_own_number g e (d1\<lparr>gd_sm := True\<rparr>, n1) of (own, d2, n2) \<Rightarrow>
                 (case gcall g e (gm_set_callback g) (d2\<lparr>gd_own_number := own\<rparr>, n2) of
                    (Inl _, d3, n3) \<Rightarrow> (Inr (), d3, n3)
                  | (Inr _, d3, n3) \<Rightarrow>
                      (case gcall g e (gm_set_incoming g) (d3, n3) of
                         (_, d4, n4) \<Rightarrow> (Inr (), d4, n4))))))"

section \<open>Sending\<close>

definition send_part ::
  "'g gammu \<Rightarrow> env \<Rightarrow> str \<Rightarrow> part \<Rightarrow> 'g gammu_driver \<times> nat \<Rightarrow>
   (exn + int option) \<times> 'g gammu_driver \<times> nat" where
  "send_part g e to p st =
     (if \<not> gd_sm (fst st) then (Inl not_connected, st)
      else (case wrapped (gcall g e (gm_send_sms g p) st) of
              (Inr v, d, n) \<Rightarrow> (Inr v, d\<lparr>gd_air := gd_air d @ [(to, p)]\<rparr>, n)
            | (Inl x, st') \<Rightarrow> (Inl x, st')))"

definition send_one ::
  "'g gammu \<Rightarrow> env \<Rightarrow> str \<Rightarrow> part \<Rightarrow> bool \<Rightarrow> 'g gammu_driver \<times> nat \<Rightarrow>
   (exn + (int option \<times> bool)) \<times> 'g gammu_driver \<times> nat" where
  "send_one g e to p with_report st =
     (let p1 = (if with_report then p\<lparr>pt_type := Some (lit ''Status_Report'')\<rparr> else p)
      in case send_part g e to p1 st of
           (Inr v, st') \<Rightarrow> (Inr (v, with_report), st')
         | (Inl x, st') \<Rightarrow>
             if value_or_type_error x
             then (case send_part g e to (p1\<lparr>pt_type := None\<rparr>) st' of
                     (Inr v, st'') \<Rightarrow> (Inr (v, False), st'')
                   | (Inl y, st'') \<Rightarrow> (Inl y, st''))
             else (Inl x, st'))"

definition partial_send :: "nat \<Rightarrow> nat \<Rightarrow> exn \<Rightarrow> exn" where
  "partial_send index count x =
     PartialSendError (lit ''multipart send failed at part '' @ nat_str (index + 1) @ lit ''/'' @
       nat_str count @ lit '': '' @ exn_str x)"

fun send_parts ::
  "'g gammu \<Rightarrow> env \<Rightarrow> str \<Rightarrow> nat \<Rightarrow> nat \<Rightarrow> part list \<Rightarrow> bool \<Rightarrow> int option \<Rightarrow>
   'g gammu_driver \<times> nat \<Rightarrow> (exn + int option) \<times> 'g gammu_driver \<times> nat" where
  "send_parts g e to count index [] report reference st = (Inr reference, st)"
| "send_parts g e to count index (p # ps) report reference st =
     (case send_one g e to (p\<lparr>pt_smsc := Some 1, pt_number := Some to\<rparr>) report st of
        (Inl x, st') \<Rightarrow>
          (if is_modem_error x \<and> index \<noteq> 0 then (Inl (partial_send index count x), st')
           else (Inl x, st'))
      | (Inr (result, report'), st') \<Rightarrow>
          send_parts g e to count (Suc index) ps report'
            (case result of Some r \<Rightarrow> Some r | None \<Rightarrow> reference) st')"

definition gammu_send_sms :: "'g gammu \<Rightarrow> str \<Rightarrow> str \<Rightarrow> ('g gammu_driver, send_result) driver_op" where
  "gammu_send_sms g to body d e =
     (if \<not> gd_loaded d then (Inl (OtherError (lit ''AttributeError'') []), d, 0)
      else (case gm_encode_sms g (list_ex (\<lambda>ch. \<not> gsm7_char ch) body) body of
              Inl x \<Rightarrow> wrapped (Inl x, d, 0)
            | Inr parts \<Rightarrow>
                (case send_parts g e to (length parts) 0 parts True None (d, 0) of
                   (Inl x, st) \<Rightarrow> (Inl x, st)
                 | (Inr reference, st) \<Rightarrow>
                     (Inr \<lparr>sr_segments = int (length parts), sr_reference = reference\<rparr>, st))))"

section \<open>Status\<close>

definition gammu_status :: "'g gammu \<Rightarrow> ('g gammu_driver, modem_status) driver_op" where
  "gammu_status g d e =
     (if \<not> gd_sm d then (Inl not_connected, d, 0)
      else (case wrapped (gcall g e (gm_signal_percent g) (d, 0)) of
              (Inl x, st) \<Rightarrow> (Inl x, st)
            | (Inr signal, st) \<Rightarrow>
                (case wrapped (gcall g e (gm_network_info g) st) of
                   (Inl x, st') \<Rightarrow> (Inl x, st')
                 | (Inr info, d', n') \<Rightarrow>
                     let operator =
                       (if truthy (ni_name info) then ni_name info
                        else if truthy (ni_code info)
                        then Some (let code = the (ni_code info) in
                               case gm_networks g code of
                                 Some name \<Rightarrow> if name \<noteq> [] then name else code
                               | None \<Rightarrow> code)
                        else None)
                     in (Inr \<lparr>ms_connected = True,
                           ms_signal_percent = (case signal of
                              Some s \<Rightarrow> if 0 \<le> s then Some s else None | None \<Rightarrow> None),
                           ms_operator = operator,
                           ms_registration = (if truthy (ni_state info) then ni_state info else None),
                           ms_own_number = gd_own_number d'\<rparr>, d', n'))))"

section \<open>What a send leaves on the air\<close>

definition sent_texts :: "'g gammu_driver \<Rightarrow> (str \<times> nat list) list" where
  "sent_texts d = map (\<lambda>(to, p). (to, pt_content p)) (gd_air d)"

lemma on_incoming_frame:
  "gd_air (fst (on_incoming g e note st)) = gd_air (fst st)"
  "gd_sm (fst (on_incoming g e note st)) = gd_sm (fst st)"
  "gd_loaded (fst (on_incoming g e note st)) = gd_loaded (fst st)"
  by (auto simp: on_incoming_def split: prod.splits option.splits)

lemma fold_on_incoming_frame:
  "gd_air (fst (fold (on_incoming g e) ns st)) = gd_air (fst st)"
  "gd_sm (fst (fold (on_incoming g e) ns st)) = gd_sm (fst st)"
  "gd_loaded (fst (fold (on_incoming g e) ns st)) = gd_loaded (fst st)"
  by (induction ns arbitrary: st) (simp_all add: on_incoming_frame)

lemma fold_on_incoming_pending:
  "\<exists>new. gd_pending (fst (fold (on_incoming g e) ns st)) = gd_pending (fst st) @ new"
proof (induction ns arbitrary: st)
  case (Cons v ns)
  have "\<exists>new. gd_pending (fst (on_incoming g e v st)) = gd_pending (fst st) @ new"
    by (auto simp: on_incoming_def split: prod.splits option.splits)
  with Cons.IH [of "on_incoming g e v st"] show ?case by auto
qed simp

lemma gcall_pending:
  assumes "gcall g e f st = (r, st')"
  shows "\<exists>new. gd_pending (fst st') = gd_pending (fst st) @ new"
proof -
  obtain q ns m where q: "f (gd_modem (fst st)) = (q, ns, m)" by (metis prod.exhaust)
  then show ?thesis
    using assms fold_on_incoming_pending [of g e ns "((fst st)\<lparr>gd_modem := m\<rparr>, snd st)"]
    by (cases st) (auto simp: gcall_def)
qed

lemma gcall_frame:
  assumes "gcall g e f st = (r, st')"
  shows "gd_air (fst st') = gd_air (fst st)" "gd_sm (fst st') = gd_sm (fst st)"
    "gd_loaded (fst st') = gd_loaded (fst st)"
  using assms by (auto simp: gcall_def fold_on_incoming_frame split: prod.splits)

lemma wrapped_Inr: "wrapped q = (Inr v, st) \<longleftrightarrow> q = (Inr v, st)"
  by (cases q rule: wrapped.cases) (auto simp: wrap_error_def)

lemma wrapped_air: "wrapped q = (r, d', n') \<Longrightarrow> gd_air d' = gd_air (fst (snd q))"
  by (cases q rule: wrapped.cases) (auto simp: wrap_error_def split: if_splits)

lemma wrapped_not_partial: "wrapped q = (Inl x, st) \<Longrightarrow> x \<noteq> PartialSendError m"
  by (cases q rule: wrapped.cases) (auto simp: wrap_error_def split: if_splits)

lemma send_part_air:
  assumes "send_part g e to p st = (r, d', n')"
  shows "gd_air d' = gd_air (fst st) @ (case r of Inr _ \<Rightarrow> [(to, p)] | Inl _ \<Rightarrow> [])"
proof (cases "gd_sm (fst st)")
  case True
  obtain q st1 where q: "gcall g e (gm_send_sms g p) st = (q, st1)"
    by (cases "gcall g e (gm_send_sms g p) st") auto
  have "gd_air (fst st1) = gd_air (fst st)" by (rule gcall_frame(1) [OF q])
  then show ?thesis
    using assms True q wrapped_air [of "(q, st1)"]
    by (cases st1) (auto simp: send_part_def wrapped_Inr split: sum.splits prod.splits)
qed (use assms in \<open>auto simp: send_part_def\<close>)

lemma send_part_not_partial: "send_part g e to p st = (Inl x, st') \<Longrightarrow> x \<noteq> PartialSendError m"
  by (auto simp: send_part_def not_connected_def dest: wrapped_not_partial split: if_splits sum.splits prod.splits)

lemma send_one_air:
  assumes "send_one g e to p report st = (r, d', n')"
  shows "map (\<lambda>(to, p). (to, pt_content p)) (gd_air d') =
    map (\<lambda>(to, p). (to, pt_content p)) (gd_air (fst st)) @
    (case r of Inr _ \<Rightarrow> [(to, pt_content p)] | Inl _ \<Rightarrow> [])"
  using assms
  by (auto simp: send_one_def Let_def dest!: send_part_air split: sum.splits prod.splits if_splits)

lemma send_one_not_partial: "send_one g e to p report st = (Inl x, st') \<Longrightarrow> x \<noteq> PartialSendError m"
  by (auto simp: send_one_def Let_def dest: send_part_not_partial split: sum.splits prod.splits if_splits)

text \<open>
  A run over the parts from number \<open>index\<close> puts a prefix of them on the air, in order and each
  once; the error it ends with tells how long that prefix is.
\<close>

lemma send_parts_air:
  assumes "send_parts g e to count index ps report reference st = (r, d', n')"
  shows "\<exists>k \<le> length ps. sent_texts d' = sent_texts (fst st) @ map (\<lambda>p. (to, pt_content p)) (take k ps) \<and>
    (case r of
       Inr _ \<Rightarrow> k = length ps
     | Inl x \<Rightarrow> k < length ps \<and>
         (is_modem_error x \<longrightarrow> (if \<exists>m. x = PartialSendError m then 0 < index + k else index + k = 0)))"
  using assms
proof (induction ps arbitrary: index report reference st)
  case (Cons p ps)
  let ?p = "p\<lparr>pt_smsc := Some 1, pt_number := Some to\<rparr>"
  obtain q d1 n1 where q: "send_one g e to ?p report st = (q, d1, n1)" by (metis prod.exhaust)
  note air = send_one_air [OF q, simplified]
  show ?case
  proof (cases q)
    case (Inl x)
    have "x \<noteq> PartialSendError m" for m using send_one_not_partial q Inl by blast
    then show ?thesis
      using Cons.prems q Inl air
      by (intro exI [of _ 0]) (auto simp: sent_texts_def partial_send_def split: if_splits)
  next
    case (Inr v)
    obtain result report' where v: "v = (result, report')" by (cases v)
    have "send_parts g e to count (Suc index) ps report'
        (case result of Some r \<Rightarrow> Some r | None \<Rightarrow> reference) (d1, n1) = (r, d', n')"
      using Cons.prems q Inr v by simp
    from Cons.IH [OF this] obtain k where k: "k \<le> length ps"
      "sent_texts d' = sent_texts d1 @ map (\<lambda>p. (to, pt_content p)) (take k ps)"
      "case r of Inr _ \<Rightarrow> k = length ps
        | Inl x \<Rightarrow> k < length ps \<and> (is_modem_error x \<longrightarrow>
            (if \<exists>m. x = PartialSendError m then 0 < Suc index + k else Suc index + k = 0))"
      by auto
    then show ?thesis
      using air Inr by (intro exI [of _ "Suc k"]) (auto simp: sent_texts_def split: sum.splits)
  qed
qed (auto simp: sent_texts_def)

definition encoded :: "'g gammu \<Rightarrow> str \<Rightarrow> gammu_exn + part list" where
  "encoded g body = gm_encode_sms g (list_ex (\<lambda>ch. \<not> gsm7_char ch) body) body"

lemma gammu_send_loaded:
  assumes "gd_loaded d" and "encoded g body = Inr ps"
  shows "gammu_send_sms g to body d e =
    (case send_parts g e to (length ps) 0 ps True None (d, 0) of
       (Inl x, st) \<Rightarrow> (Inl x, st)
     | (Inr reference, st) \<Rightarrow>
         (Inr \<lparr>sr_segments = int (length ps), sr_reference = reference\<rparr>, st))"
  using assms by (simp add: gammu_send_sms_def encoded_def)

lemma gammu_send_air:
  assumes "gd_loaded d" and "encoded g body = Inr ps"
    and "gammu_send_sms g to body d e = (r, d', n)"
  shows "\<exists>k \<le> length ps. sent_texts d' = sent_texts d @ map (\<lambda>p. (to, pt_content p)) (take k ps) \<and>
    (case r of
       Inr res \<Rightarrow> k = length ps \<and> sr_segments res = int (length ps)
     | Inl x \<Rightarrow> k < length ps \<and>
         (is_modem_error x \<longrightarrow> (if \<exists>m. x = PartialSendError m then 0 < k else k = 0)))"
proof -
  obtain q d1 n1 where q: "send_parts g e to (length ps) 0 ps True None (d, 0) = (q, d1, n1)"
    by (metis prod.exhaust)
  from send_parts_air [OF q] obtain k where k: "k \<le> length ps"
    "sent_texts d1 = sent_texts d @ map (\<lambda>p. (to, pt_content p)) (take k ps)"
    "case q of Inr _ \<Rightarrow> k = length ps | Inl x \<Rightarrow> k < length ps \<and> (is_modem_error x \<longrightarrow>
       (if \<exists>m. x = PartialSendError m then 0 < 0 + k else 0 + k = 0))"
    by auto
  have "d' = d1" and "case q of Inl x \<Rightarrow> r = Inl x | Inr _ \<Rightarrow> \<exists>res. r = Inr res \<and> sr_segments res = int (length ps)"
    using assms(3) unfolding gammu_send_loaded [OF assms(1,2)] q by (auto split: sum.splits)
  with k show ?thesis by (intro exI [of _ k]) (cases q; cases r; auto split: if_splits)
qed

lemma gammu_send_unencoded:
  assumes "\<not> (gd_loaded d \<and> (\<exists>ps. encoded g body = Inr ps))"
    and "gammu_send_sms g to body d e = (r, d', n)"
  shows "sent_texts d' = sent_texts d" "r \<noteq> Inl (PartialSendError m)"
proof -
  have "gd_air d' = gd_air d \<and> r \<noteq> Inl (PartialSendError m)"
  proof (cases "gd_loaded d")
    case True
    then obtain x where "encoded g body = Inl x"
      using assms(1) by (cases "encoded g body") auto
    then have "wrapped (Inl x, d, 0) = (r, d', n)"
      using True assms by (simp add: gammu_send_sms_def encoded_def)
    then show ?thesis
      by (cases x) (auto simp: wrap_error_def split: if_splits)
  qed (use assms in \<open>auto simp: gammu_send_sms_def\<close>)
  then show "sent_texts d' = sent_texts d" "r \<noteq> Inl (PartialSendError m)"
    by (simp_all add: sent_texts_def)
qed

text \<open>The contract of the protocol, for every behaviour of the library.\<close>

lemma gammu_send_grows:
  assumes "gammu_send_sms g to body d e = (r, d', n)"
  shows "\<exists>new. sent_texts d' = sent_texts d @ new"
  using gammu_send_air [OF _ _ assms] gammu_send_unencoded(1) [OF _ assms]
  by (metis append_Nil2)

lemma gammu_retry_safe:
  assumes "gammu_send_sms g to body d e = (Inl x, d', n)" and "is_modem_error x"
    and "\<And>m. x \<noteq> PartialSendError m"
  shows "sent_texts d' = sent_texts d"
proof (cases "gd_loaded d \<and> (\<exists>ps. encoded g body = Inr ps)")
  case True
  then obtain ps where "gd_loaded d" "encoded g body = Inr ps" by blast
  from gammu_send_air [OF this assms(1)] show ?thesis using assms(2,3) by auto
next
  case False
  then show ?thesis by (rule gammu_send_unencoded(1) [OF _ assms(1)])
qed

interpretation gammu: sms_sender "gammu_send_sms g" sent_texts for g
  by unfold_locales (blast dest: gammu_send_grows, blast intro: gammu_retry_safe)

section \<open>Delivery reports are only requested, never required\<close>

lemma send_part_ok:
  assumes "gd_sm (fst st)" and "\<exists>v ns m'. gm_send_sms g p (gd_modem (fst st)) = (Inr v, ns, m')"
  shows "\<exists>v st'. send_part g e to p st = (Inr v, st') \<and> gd_sm (fst st')"
proof -
  obtain v ns m' where "gm_send_sms g p (gd_modem (fst st)) = (Inr v, ns, m')" using assms(2) by blast
  then obtain st1 where st1: "gcall g e (gm_send_sms g p) st = (Inr v, st1)"
    by (cases st) (simp add: gcall_def)
  then have "gd_sm (fst st1)" using gcall_frame(2) assms(1) by metis
  then show ?thesis using st1 assms(1) by (cases st1) (simp add: send_part_def)
qed

lemma send_part_rejected:
  assumes "gd_sm (fst st)" and "gm_send_sms g p (gd_modem (fst st)) = (Inl (GOther c s), ns, m')"
  shows "\<exists>st'. send_part g e to p st = (Inl (OtherError c s), st') \<and> gd_sm (fst st')"
proof -
  obtain st1 where st1: "gcall g e (gm_send_sms g p) st = (Inl (GOther c s), st1)"
    using assms(2) by (cases st) (simp add: gcall_def)
  then have "gd_sm (fst st1)" using gcall_frame(2) assms(1) by metis
  then show ?thesis using st1 assms(1) by (cases st1) (simp add: send_part_def)
qed

text \<open>A library that sends every part without a report request, and may reject the request field.\<close>

definition rejects_reports_only :: "'g gammu \<Rightarrow> bool" where
  "rejects_reports_only g \<longleftrightarrow>
     (\<forall>p m. (\<exists>v ns m'. gm_send_sms g p m = (Inr v, ns, m')) \<or>
        (pt_type p \<noteq> None \<and> (\<exists>c s ns m'. gm_send_sms g p m = (Inl (GOther c s), ns, m') \<and>
           value_or_type_error (OtherError c s))))"

lemma send_one_ok:
  assumes g: "rejects_reports_only g" and sm: "gd_sm (fst st)"
  shows "\<exists>v st'. send_one g e to p report st = (Inr v, st') \<and> gd_sm (fst st')"
proof -
  define p1 where "p1 = (if report then p\<lparr>pt_type := Some (lit ''Status_Report'')\<rparr> else p)"
  consider (ok) "\<exists>v ns m'. gm_send_sms g p1 (gd_modem (fst st)) = (Inr v, ns, m')"
    | (rejected) c s ns m' where "gm_send_sms g p1 (gd_modem (fst st)) = (Inl (GOther c s), ns, m')"
        "value_or_type_error (OtherError c s)"
    using g unfolding rejects_reports_only_def by blast
  then show ?thesis
  proof cases
    case ok
    from send_part_ok [OF sm this] obtain v st1 where
      "send_part g e to p1 st = (Inr v, st1)" "gd_sm (fst st1)" by blast
    then show ?thesis unfolding send_one_def Let_def p1_def [symmetric] by simp
  next
    case rejected
    from send_part_rejected [OF sm this(1)] obtain st1 where
      st1: "send_part g e to p1 st = (Inl (OtherError c s), st1)" "gd_sm (fst st1)" by blast
    have "\<exists>v ns m'. gm_send_sms g (p1\<lparr>pt_type := None\<rparr>) (gd_modem (fst st1)) = (Inr v, ns, m')"
      using g unfolding rejects_reports_only_def by fastforce
    from send_part_ok [OF st1(2) this] obtain v st2 where
      "send_part g e to (p1\<lparr>pt_type := None\<rparr>) st1 = (Inr v, st2)" "gd_sm (fst st2)" by blast
    then show ?thesis
      unfolding send_one_def Let_def p1_def [symmetric] using st1(1) rejected(2) by auto
  qed
qed

lemma send_parts_ok:
  assumes "rejects_reports_only g" and "gd_sm (fst st)"
  shows "\<exists>ref st'. send_parts g e to count index ps report reference st = (Inr ref, st')"
  using assms(2)
proof (induction ps arbitrary: index report reference st)
  case (Cons p ps)
  obtain v st1 where "send_one g e to (p\<lparr>pt_smsc := Some 1, pt_number := Some to\<rparr>) report st = (Inr v, st1)"
    "gd_sm (fst st1)"
    using send_one_ok [OF assms(1) Cons.prems] by blast
  with Cons.IH [of st1] show ?case by (cases v) simp
qed simp

section \<open>Properties\<close>

text \<open>
  Libraries for the examples: every body is encoded into the given parts, the storage is empty and
  \<open>SendSMS\<close> behaves as told; in particular it answers from a script.
\<close>

definition plain_gammu :: "part list \<Rightarrow> (part \<Rightarrow> ('g, int option) gammu_call) \<Rightarrow> 'g gammu" where
  "plain_gammu parts send =
     \<lparr>gm_import_error = None, gm_init = (\<lambda>m. (Inr (), [], m)), gm_get_memory = (\<lambda>m. (Inr [], [], m)),
      gm_set_callback = (\<lambda>m. (Inr (), [], m)), gm_set_incoming = (\<lambda>m. (Inr (), [], m)),
      gm_encode_sms = (\<lambda>_ _. Inr parts), gm_send_sms = send,
      gm_get_next_sms = (\<lambda>_ m. (Inl (GSMError (lit ''ERR_EMPTY'') []), [], m)),
      gm_delete_sms = (\<lambda>_ m. (Inr (), [], m)), gm_link_sms = Inr, gm_decode_sms = (\<lambda>_. Inr None),
      gm_signal_percent = (\<lambda>m. (Inr None, [], m)),
      gm_network_info = (\<lambda>m. (Inr \<lparr>ni_name = None, ni_code = None, ni_state = None\<rparr>, [], m)),
      gm_networks = Map.empty, gm_local_to_utc = id\<rparr>"

definition scripted_gammu :: "part list \<Rightarrow> (gammu_exn + int option) list gammu" where
  "scripted_gammu parts =
     plain_gammu parts (\<lambda>_ m. (case m of [] \<Rightarrow> Inr None | x # _ \<Rightarrow> x, [], tl m))"

definition sample_part :: "nat list \<Rightarrow> part" where
  "sample_part c = \<lparr>pt_content = c, pt_smsc = None, pt_number = None, pt_type = None\<rparr>"

text \<open>
  C31. The outcome of a multipart send tells exactly what went out, whatever the modem does: a
  result means every part went out once and in order, a \<open>PartialSendError\<close> means a proper,
  non-empty prefix did, and any other \<open>ModemError\<close> means nothing did.
\<close>

theorem gammu_send_outcome:
  assumes "gd_loaded d" and "encoded g body = Inr ps"
    and "gammu_send_sms g to body d e = (r, d', n)"
  shows "\<exists>k \<le> length ps.
    sent_texts d' = sent_texts d @ map (\<lambda>p. (to, pt_content p)) (take k ps) \<and>
    (\<forall>res. r = Inr res \<longrightarrow> k = length ps \<and> sr_segments res = int (length ps)) \<and>
    (\<forall>m. r = Inl (PartialSendError m) \<longrightarrow> 0 < k \<and> k < length ps) \<and>
    (\<forall>m. r = Inl (ModemError m) \<or> r = Inl (ModemConnectionError m) \<longrightarrow> k = 0)"
proof -
  from gammu_send_air [OF assms] obtain k where k: "k \<le> length ps"
    "sent_texts d' = sent_texts d @ map (\<lambda>p. (to, pt_content p)) (take k ps)"
    "case r of Inr res \<Rightarrow> k = length ps \<and> sr_segments res = int (length ps)
      | Inl x \<Rightarrow> k < length ps \<and> (is_modem_error x \<longrightarrow>
          (if \<exists>m. x = PartialSendError m then 0 < k else k = 0))" by blast
  then show ?thesis by (intro exI [of _ k]) (cases r; auto)
qed

theorem gammu_send_outcome_witness:
  "let g = scripted_gammu [sample_part [1], sample_part [2]];
       d = (new_gammu_driver [Inr (Some 7), Inl (GSMError (lit ''ERR_TIMEOUT'') [])])
             \<lparr>gd_loaded := True, gd_sm := True\<rparr>;
       out = gammu_send_sms g [43] [65] d sample_env
   in (\<exists>m. fst out = Inl (PartialSendError m)) \<and> sent_texts (fst (snd out)) = [([43], [1])]"
proof -
  let ?g = "scripted_gammu [sample_part [1], sample_part [2]]"
  let ?d = "(new_gammu_driver [Inr (Some 7), Inl (GSMError (lit ''ERR_TIMEOUT'') [])])
             \<lparr>gd_loaded := True, gd_sm := True\<rparr>"
  obtain r d' n where out: "gammu_send_sms ?g [43] [65] ?d sample_env = (r, d', n)"
    by (metis prod.exhaust)
  have enc: "encoded ?g [65] = Inr [sample_part [1], sample_part [2]]"
    by (simp add: encoded_def scripted_gammu_def plain_gammu_def)
  have "\<exists>m. r = Inl (PartialSendError m)"
    using out by (auto simp: gammu_send_sms_def scripted_gammu_def plain_gammu_def new_gammu_driver_def sample_part_def
        send_one_def send_part_def gcall_def wrap_error_def GAMMU_CONNECTION_ERRORS_def partial_send_def Let_def)
  moreover have "sent_texts d' = [([43], [1])]"
    using gammu_send_outcome [OF _ enc out] calculation
    by (auto simp: sent_texts_def new_gammu_driver_def sample_part_def le_Suc_eq numeral_2_eq_2)
  ultimately show ?thesis unfolding Let_def out fst_conv snd_conv by blast
qed

text \<open>
  A message never fails because a delivery report was asked for: with a library build that
  accepts every part as such but may reject the report field with \<open>ValueError\<close> or \<open>TypeError\<close>,
  a connected driver sends the whole message.
\<close>

theorem gammu_report_fallback:
  assumes "rejects_reports_only g" and "gd_loaded d" "gd_sm d" and "encoded g body = Inr ps"
  shows "\<exists>res d' n. gammu_send_sms g to body d e = (Inr res, d', n) \<and> sr_segments res = int (length ps)"
proof -
  obtain ref st' where "send_parts g e to (length ps) 0 ps True None (d, 0) = (Inr ref, st')"
    using send_parts_ok [OF assms(1), of "(d, 0)" e to "length ps" 0 ps True None] assms(3) by auto
  then show ?thesis
    unfolding gammu_send_loaded [OF assms(2,4)] by (cases st') simp
qed

definition picky_gammu :: "part list \<Rightarrow> unit gammu" where
  "picky_gammu parts = plain_gammu parts (\<lambda>p m.
     (if pt_type p = None then Inr (Some 1) else Inl (GOther (lit ''ValueError'') []), [], m))"

theorem gammu_report_fallback_witness:
  "\<exists>res d' n. gammu_send_sms (picky_gammu [sample_part [1]]) [43] [65]
     ((new_gammu_driver ())\<lparr>gd_loaded := True, gd_sm := True\<rparr>) sample_env = (Inr res, d', n) \<and>
     sr_segments res = int (length [sample_part [1]])"
  by (rule gammu_report_fallback)
    (simp_all add: rejects_reports_only_def picky_gammu_def plain_gammu_def new_gammu_driver_def encoded_def)

end
