(* ===== verification/GammuInbox.thy ===== *)
theory GammuInbox
  imports Gammu
begin

text \<open>
  The receiving half of the \<open>GammuDriver\<close> of \<^verbatim>\<open>gateway/worker/modem.py\<close>: \<open>fetch_inbound\<close> and
  \<open>_drain_storage\<close>, which read the modem's storage entry by entry until the library reports
  \<open>ERR_EMPTY\<close>. That loop ends only if the modem says so, hence the \<open>fuel\<close>: the number of reads
  after which the model gives up with \<open>None\<close>. \<open>gammu_fetch_returns\<close> states how much is enough.
\<close>

section \<open>Reading the storage\<close>

definition IndexError :: exn where
  "IndexError = OtherError (lit ''IndexError'') []"

text \<open>A gammu exception that the code does not translate.\<close>

fun raw_exn :: "gammu_exn \<Rightarrow> exn" where
  "raw_exn (GSMError c m) = OtherError c m"
| "raw_exn (GOther c m) = OtherError c m"

fun read_storage ::
  "nat \<Rightarrow> 'g gammu \<Rightarrow> env \<Rightarrow> sms_dict list option \<Rightarrow> sms_dict list list \<Rightarrow> 'g gammu_driver \<times> nat \<Rightarrow>
   ((exn + sms_dict list list) \<times> 'g gammu_driver \<times> nat) option" where
  "read_storage 0 g e entry raw st = None"
| "read_storage (Suc fuel) g e entry raw st =
     (if entry = Some [] then Some (Inl IndexError, st)
      else (case gcall g e (gm_get_next_sms g (map_option (sd_location \<circ> hd) entry)) st of
              (Inr grp, st') \<Rightarrow> read_storage fuel g e (Some grp) (raw @ [grp]) st'
            | (Inl (GSMError cls msg), st') \<Rightarrow>
                if cls = lit ''ERR_EMPTY'' then Some (Inr raw, st')
                else Some (wrapped (Inl (GSMError cls msg), st'))
            | (Inl (GOther c m), st') \<Rightarrow> Some (Inl (OtherError c m), st')))"

section \<open>Decoding what was read\<close>

text \<open>The status reports become events at once; the other groups are kept for linking.\<close>

fun stored_reports ::
  "'g gammu \<Rightarrow> env \<Rightarrow> nat \<Rightarrow> sms_dict list list \<Rightarrow>
   (exn + inbound_event list \<times> int list \<times> sms_dict list list) \<times> nat" where
  "stored_reports g e n [] = (Inr ([], [], []), n)"
| "stored_reports g e n ([] # grps) = (Inl IndexError, n)"
| "stored_reports g e n ((first # rest) # grps) =
     (if sd_type first = Some (lit ''Status_Report'') then
        (case sd_number first of
           None \<Rightarrow> (Inl (KeyError (lit ''Number'')), n)
         | Some number \<Rightarrow>
             (case stamp_to_iso g e n (or_else (sd_smsc_datetime first) (sd_datetime first)) of (ts, n1) \<Rightarrow>
                (case stored_reports g e n1 grps of
                   (Inl x, n2) \<Rightarrow> (Inl x, n2)
                 | (Inr (evs, locs, texts), n2) \<Rightarrow>
                     (Inr (DeliveryReport number (sd_reference first)
                             (delivered_status (sd_delivery_status first)) ts # evs,
                           map sd_location (first # rest) @ locs, texts), n2))))
      else
        (case stored_reports g e n grps of
           (Inl x, n2) \<Rightarrow> (Inl x, n2)
         | (Inr (evs, locs, texts), n2) \<Rightarrow> (Inr (evs, locs, (first # rest) # texts), n2)))"

definition join_text :: "str option list \<Rightarrow> str" where
  "join_text xs = concat (map (\<lambda>x. case x of None \<Rightarrow> [] | Some s \<Rightarrow> s) xs)"

fun stored_texts ::
  "'g gammu \<Rightarrow> env \<Rightarrow> nat \<Rightarrow> sms_dict list list \<Rightarrow>
   (exn + inbound_event list \<times> int list) \<times> nat" where
  "stored_texts g e n [] = (Inr ([], []), n)"
| "stored_texts g e n (grp # grps) =
     (case gm_decode_sms g grp of
        Inl x \<Rightarrow> (Inl (raw_exn x), n)
      | Inr decoded \<Rightarrow>
          (case grp of
             [] \<Rightarrow> (Inl IndexError, n)
           | first # _ \<Rightarrow>
               (case sd_number first of
                  None \<Rightarrow> (Inl (KeyError (lit ''Number'')), n)
                | Some number \<Rightarrow>
                    (case stamp_to_iso g e n (sd_datetime first) of (ts, n1) \<Rightarrow>
                       (case stored_texts g e n1 grps of
                          (Inl x, n2) \<Rightarrow> (Inl x, n2)
                        | (Inr (evs, locs), n2) \<Rightarrow>
                            (Inr (InboundSMS number
                                    (join_text (case decoded of Some buffers \<Rightarrow> buffers
                                                | None \<Rightarrow> map sd_text grp))
                                    ts (int (length grp)) # evs,
                                  map sd_location grp @ locs), n2))))))"

text \<open>Deleting: a \<open>GSMError\<close> leaves the entry in the modem and goes on.\<close>

fun delete_locations ::
  "'g gammu \<Rightarrow> env \<Rightarrow> int list \<Rightarrow> 'g gammu_driver \<times> nat \<Rightarrow> (exn + unit) \<times> 'g gammu_driver \<times> nat" where
  "delete_locations g e [] st = (Inr (), st)"
| "delete_locations g e (l # ls) st =
     (case gcall g e (gm_delete_sms g l) st of
        (Inl (GOther c m), st') \<Rightarrow> (Inl (OtherError c m), st')
      | (_, st') \<Rightarrow> delete_locations g e ls st')"

definition decode_storage ::
  "'g gammu \<Rightarrow> env \<Rightarrow> nat \<Rightarrow> sms_dict list list \<Rightarrow> (exn + inbound_event list \<times> int list) \<times> nat" where
  "decode_storage g e n raw =
     (case stored_reports g e n raw of
        (Inl x, n1) \<Rightarrow> (Inl x, n1)
      | (Inr (reports, locs, texts), n1) \<Rightarrow>
          (case gm_link_sms g texts of
             Inl x \<Rightarrow> (Inl (raw_exn x), n1)
           | Inr linked \<Rightarrow>
               (case stored_texts g e n1 linked of
                  (Inl x, n2) \<Rightarrow> (Inl x, n2)
                | (Inr (evs, locs'), n2) \<Rightarrow> (Inr (reports @ evs, locs @ locs'), n2))))"

definition drain_storage ::
  "nat \<Rightarrow> 'g gammu \<Rightarrow> env \<Rightarrow> inbound_event list \<Rightarrow> 'g gammu_driver \<times> nat \<Rightarrow>
   ((exn + inbound_event list) \<times> 'g gammu_driver \<times> nat) option" where
  "drain_storage fuel g e pending st =
     (case read_storage fuel g e None [] st of
        None \<Rightarrow> None
      | Some (Inl x, st1) \<Rightarrow> Some (Inl x, st1)
      | Some (Inr raw, d1, n1) \<Rightarrow>
          if [] \<in> set raw then Some (Inl IndexError, d1, n1)
          else (case decode_storage g e n1 raw of
                  (Inl x, n2) \<Rightarrow> Some (Inl x, d1, n2)
                | (Inr (evs, locations), n2) \<Rightarrow>
                    (case delete_locations g e locations (d1, n2) of
                       (Inl x, st3) \<Rightarrow> Some (Inl x, st3)
                     | (Inr _, st3) \<Rightarrow> Some (Inr (pending @ evs), st3))))"

definition gammu_fetch_inbound ::
  "nat \<Rightarrow> 'g gammu \<Rightarrow> 'g gammu_driver \<Rightarrow> env \<Rightarrow>
   ((exn + inbound_event list) \<times> 'g gammu_driver \<times> nat) option" where
  "gammu_fetch_inbound fuel g d e =
     (if \<not> gd_sm d then Some (Inl not_connected, d, 0)
      else (case drain_storage fuel g e (gd_pending d) (d\<lparr>gd_pending := []\<rparr>, 0) of
              None \<Rightarrow> None
            | Some (Inr evs, st) \<Rightarrow> Some (Inr evs, st)
            | Some (Inl x, d', n) \<Rightarrow> Some (Inl x, d'\<lparr>gd_pending := gd_pending d @ gd_pending d'\<rparr>, n)))"

text \<open>
  The driver as the worker sees it, for a modem whose storage is read in fewer than \<open>fuel\<close>
  steps; a read that goes on for ever is an error value here.
\<close>

definition GammuDriver :: "nat \<Rightarrow> 'g gammu \<Rightarrow> 'g gammu_driver modem_driver" where
  "GammuDriver fuel g = \<lparr>dv_connect = gammu_connect g, dv_send_sms = gammu_send_sms g,
     dv_fetch_inbound = (\<lambda>d e. case gammu_fetch_inbound fuel g d e of
        Some out \<Rightarrow> out | None \<Rightarrow> (Inl (OtherError (lit ''DoesNotReturn'') []), d, 0)),
     dv_status = gammu_status g\<rparr>"

section \<open>Nothing captured is lost\<close>

lemma wrapped_pending: "wrapped q = (r, st) \<Longrightarrow> gd_pending (fst st) = gd_pending (fst (snd q))"
  by (cases q rule: wrapped.cases) (auto simp: wrap_error_def split: if_splits)

lemma read_storage_pending:
  assumes "read_storage fuel g e entry raw st = Some (r, st')"
  shows "\<exists>new. gd_pending (fst st') = gd_pending (fst st) @ new"
  using assms
proof (induction fuel arbitrary: entry raw st)
  case (Suc fuel)
  show ?case
  proof (cases "entry = Some []")
    case False
    obtain q st1 where q: "gcall g e (gm_get_next_sms g (map_option (sd_location \<circ> hd) entry)) st = (q, st1)"
      by (metis prod.exhaust)
    from gcall_pending [OF q] obtain new where new: "gd_pending (fst st1) = gd_pending (fst st) @ new" by blast
    show ?thesis
    proof (cases q)
      case (Inr grp)
      then have "read_storage fuel g e (Some grp) (raw @ [grp]) st1 = Some (r, st')"
        using Suc.prems q False by simp
      from Suc.IH [OF this] show ?thesis using new by auto
    next
      case (Inl x)
      then have "gd_pending (fst st') = gd_pending (fst st1)"
        using Suc.prems q False
        by (cases x; cases st1) (auto simp: wrap_error_def split: if_splits prod.splits)
      then show ?thesis using new by simp
    qed
  qed (use Suc.prems in auto)
qed simp

lemma delete_locations_pending:
  assumes "delete_locations g e ls st = (r, st')"
  shows "\<exists>new. gd_pending (fst st') = gd_pending (fst st) @ new"
  using assms
proof (induction ls arbitrary: st)
  case (Cons l ls)
  obtain q st1 where q: "gcall g e (gm_delete_sms g l) st = (q, st1)" by (metis prod.exhaust)
  from gcall_pending [OF q] obtain new where new: "gd_pending (fst st1) = gd_pending (fst st) @ new" by blast
  have "st' = st1 \<or> delete_locations g e ls st1 = (r, st')"
    using Cons.prems q by (auto split: sum.splits gammu_exn.splits)
  then show ?case
  proof
    assume "delete_locations g e ls st1 = (r, st')"
    from Cons.IH [OF this] show ?thesis using new by auto
  qed (use new in auto)
qed simp

lemma drain_storage_pending:
  assumes "drain_storage fuel g e pending st = Some (r, st')"
  shows "\<exists>new. gd_pending (fst st') = gd_pending (fst st) @ new"
proof -
  obtain q d1 n1 where q: "read_storage fuel g e None [] st = Some (q, d1, n1)"
    using assms by (auto simp: drain_storage_def split: option.splits)
  from read_storage_pending [OF this] obtain new where new: "gd_pending d1 = gd_pending (fst st) @ new"
    by auto
  have "(\<exists>n. st' = (d1, n)) \<or> (\<exists>ls n r'. delete_locations g e ls (d1, n) = (r', st'))"
    using assms q by (auto simp: drain_storage_def split: sum.splits if_splits prod.splits)
  then show ?thesis
  proof (elim disjE exE)
    fix ls n r'
    assume "delete_locations g e ls (d1, n) = (r', st')"
    from delete_locations_pending [OF this] show ?thesis using new by auto
  qed (use new in auto)
qed

lemma stored_reports_shape:
  assumes "stored_reports g e n grps = (Inr (evs, locs, texts), n')"
  shows "map (\<lambda>r. (dr_msisdn r, dr_reference r)) evs =
      map (\<lambda>grp. (the (sd_number (hd grp)), sd_reference (hd grp)))
        (filter (\<lambda>grp. sd_type (hd grp) = Some (lit ''Status_Report'')) grps)"
    and "texts = filter (\<lambda>grp. sd_type (hd grp) \<noteq> Some (lit ''Status_Report'')) grps"
  using assms
  by (induction g e n grps arbitrary: evs locs texts n' rule: stored_reports.induct)
    (auto split: if_splits option.splits prod.splits sum.splits)

lemma stored_texts_shape:
  assumes "stored_texts g e n grps = (Inr (evs, locs), n')"
  shows "map (\<lambda>r. (in_msisdn r, in_segments r)) evs =
      map (\<lambda>grp. (the (sd_number (hd grp)), int (length grp))) grps"
    and "locs = map sd_location (concat grps)"
  using assms
  by (induction g e n grps arbitrary: evs locs n' rule: stored_texts.induct)
    (auto split: list.splits option.splits prod.splits sum.splits)

section \<open>Enough fuel\<close>

lemma gcall_modem:
  assumes "gcall g e f st = (r, st')"
  shows "f (gd_modem (fst st)) = (r, fst (snd (f (gd_modem (fst st)))), gd_modem (fst st'))"
proof -
  have "gd_modem (fst (fold (on_incoming g e) ns st)) = gd_modem (fst st)" for ns st
  proof (induction ns arbitrary: st)
    case (Cons v ns)
    have "gd_modem (fst (on_incoming g e v st)) = gd_modem (fst st)"
      by (auto simp: on_incoming_def split: prod.splits option.splits)
    with Cons.IH [of "on_incoming g e v st"] show ?case by simp
  qed simp
  then show ?thesis using assms by (auto simp: gcall_def split: prod.splits)
qed

text \<open>A modem whose storage comes to an end: every successful read takes from a finite stock.\<close>

definition storage_ends :: "'g gammu \<Rightarrow> ('g \<Rightarrow> nat) \<Rightarrow> bool" where
  "storage_ends g stock \<longleftrightarrow>
     (\<forall>loc m grp ns m'. gm_get_next_sms g loc m = (Inr grp, ns, m') \<longrightarrow> stock m' < stock m)"

lemma read_storage_returns:
  assumes "storage_ends g stock" and "stock (gd_modem (fst st)) < fuel"
  shows "read_storage fuel g e entry raw st \<noteq> None"
  using assms(2)
proof (induction fuel arbitrary: entry raw st)
  case (Suc fuel)
  obtain q st1 where q: "gcall g e (gm_get_next_sms g (map_option (sd_location \<circ> hd) entry)) st = (q, st1)"
    by (metis prod.exhaust)
  show ?case
  proof (cases q)
    case (Inl x)
    then show ?thesis using q by (cases x) (auto simp del: not_None_eq)
  next
    case (Inr grp)
    then have "stock (gd_modem (fst st1)) < stock (gd_modem (fst st))"
      using assms(1) gcall_modem [OF q] unfolding storage_ends_def by blast
    with Suc.prems have "stock (gd_modem (fst st1)) < fuel" by simp
    from Suc.IH [OF this] show ?thesis using q Inr by simp
  qed
qed simp

lemma drain_storage_returns:
  assumes "read_storage fuel g e None [] st = Some out"
  shows "drain_storage fuel g e pending st \<noteq> None"
proof -
  obtain q d n where out: "out = (q, d, n)" by (cases out)
  show ?thesis
    using assms unfolding out
    by (cases q) (simp_all add: drain_storage_def del: not_None_eq split: prod.split sum.split)
qed

lemma read_storage_fuel_mono:
  "read_storage fuel g e entry raw st = Some out \<Longrightarrow> fuel \<le> fuel' \<Longrightarrow>
   read_storage fuel' g e entry raw st = Some out"
proof (induction fuel arbitrary: fuel' entry raw st)
  case (Suc fuel)
  then obtain f where f: "fuel' = Suc f" "fuel \<le> f" by (cases fuel') auto
  show ?case using Suc.prems(1) Suc.IH [OF _ f(2)]
    by (auto simp: f(1) split: if_splits prod.splits sum.splits gammu_exn.splits)
qed simp

section \<open>Properties\<close>

text \<open>A library whose storage is the list of the entries still to be read.\<close>

definition storage_gammu :: "sms_dict list list gammu" where
  "storage_gammu = (plain_gammu [] (\<lambda>_ m. (Inr None, [], m)))
     \<lparr>gm_get_next_sms := (\<lambda>_ m. case m of
        [] \<Rightarrow> (Inl (GSMError (lit ''ERR_EMPTY'') []), [], [])
      | grp # grps \<Rightarrow> (if grp = [] then Inl (GSMError (lit ''ERR_DEVICEREADERROR'') []) else Inr grp, [], grps))\<rparr>"

definition sample_dict :: "str option \<Rightarrow> sms_dict" where
  "sample_dict ty = \<lparr>sd_type = ty, sd_number = Some [43], sd_text = Some [72], sd_reference = Some 7,
     sd_delivery_status = Some 0, sd_smsc_datetime = None, sd_datetime = None, sd_location = 3\<rparr>"

lemmas storage_eval = storage_gammu_def plain_gammu_def sample_dict_def new_gammu_driver_def
  gammu_fetch_inbound_def drain_storage_def decode_storage_def gcall_def wrap_error_def
  join_text_def or_else_def stamp_to_iso_def delivered_status_def

text \<open>
  C33. A fetch that fails loses no event the callbacks captured: they are all still pending, in
  their order, followed by whatever arrived during the fetch. A fetch that succeeds hands every
  one of them to the worker, before the events it read from the storage.
\<close>

theorem fetch_loses_nothing:
  assumes "gammu_fetch_inbound fuel g d e = Some (r, d', n)"
  shows "case r of
      Inl _ \<Rightarrow> \<exists>new. gd_pending d' = gd_pending d @ new
    | Inr evs \<Rightarrow> \<exists>stored. evs = gd_pending d @ stored"
proof (cases "gd_sm d")
  case True
  let ?st = "(d\<lparr>gd_pending := []\<rparr>, 0)"
  obtain q d1 n1 where q: "drain_storage fuel g e (gd_pending d) ?st = Some (q, d1, n1)"
    using assms True by (auto simp: gammu_fetch_inbound_def split: option.splits)
  show ?thesis
  proof (cases q)
    case (Inl x)
    then show ?thesis using assms True q by (auto simp: gammu_fetch_inbound_def)
  next
    case (Inr evs)
    then have "r = Inr evs" using assms True q by (simp add: gammu_fetch_inbound_def)
    moreover have "\<exists>stored. evs = gd_pending d @ stored"
      using q unfolding Inr drain_storage_def
      by (auto split: option.splits prod.splits sum.splits if_splits)
    ultimately show ?thesis by simp
  qed
qed (use assms in \<open>auto simp: gammu_fetch_inbound_def\<close>)

theorem fetch_loses_nothing_witness:
  "\<exists>new. gd_pending (fst (snd (the (gammu_fetch_inbound 5 storage_gammu
       ((new_gammu_driver [[sample_dict None], []])\<lparr>gd_sm := True, gd_pending := [InboundSMS [43] [72] [] 1]\<rparr>)
       sample_env)))) = [InboundSMS [43] [72] [] 1] @ new"
proof -
  let ?d = "(new_gammu_driver [[sample_dict None], []])\<lparr>gd_sm := True, gd_pending := [InboundSMS [43] [72] [] 1]\<rparr>"
  have "\<exists>x d' n. gammu_fetch_inbound 5 storage_gammu ?d sample_env = Some (Inl x, d', n)"
    by (simp add: storage_eval eval_nat_numeral)
  then obtain x d' n where out: "gammu_fetch_inbound 5 storage_gammu ?d sample_env = Some (Inl x, d', n)"
    by blast
  from fetch_loses_nothing [OF this] show ?thesis unfolding out by simp
qed

text \<open>
  C34. A fetch is complete: what it hands over is the captured events, then one delivery report for
  every stored entry of that type with its number and reference, then one message for every
  group that \<open>LinkSMS\<close> makes of the other entries, with its number and number of parts.
\<close>

theorem fetch_complete:
  assumes "gammu_fetch_inbound fuel g d e = Some (Inr evs, d', n)"
  shows "\<exists>raw st linked reports texts.
    read_storage fuel g e None [] (d\<lparr>gd_pending := []\<rparr>, 0) = Some (Inr raw, st) \<and>
    gm_link_sms g (filter (\<lambda>grp. sd_type (hd grp) \<noteq> Some (lit ''Status_Report'')) raw) = Inr linked \<and>
    evs = gd_pending d @ reports @ texts \<and>
    map (\<lambda>r. (dr_msisdn r, dr_reference r)) reports =
      map (\<lambda>grp. (the (sd_number (hd grp)), sd_reference (hd grp)))
        (filter (\<lambda>grp. sd_type (hd grp) = Some (lit ''Status_Report'')) raw) \<and>
    map (\<lambda>m. (in_msisdn m, in_segments m)) texts =
      map (\<lambda>grp. (the (sd_number (hd grp)), int (length grp))) linked"
proof -
  have sm: "gd_sm d" using assms by (auto simp: gammu_fetch_inbound_def split: if_splits)
  obtain d1 n1 where "drain_storage fuel g e (gd_pending d) (d\<lparr>gd_pending := []\<rparr>, 0) = Some (Inr evs, d1, n1)"
    using assms sm by (auto simp: gammu_fetch_inbound_def split: option.splits sum.splits)
  then obtain raw d2 n2 decoded locs n3 where raw: "read_storage fuel g e None [] (d\<lparr>gd_pending := []\<rparr>, 0) = Some (Inr raw, d2, n2)"
    and dec: "decode_storage g e n2 raw = (Inr (decoded, locs), n3)" and evs: "evs = gd_pending d @ decoded"
    unfolding drain_storage_def by (auto split: option.splits prod.splits sum.splits if_splits)
  from dec obtain reports l1 texts' k1 linked texts l2 where
    r: "stored_reports g e n2 raw = (Inr (reports, l1, texts'), k1)"
    and l: "gm_link_sms g texts' = Inr linked"
    and t: "stored_texts g e k1 linked = (Inr (texts, l2), n3)" and d: "decoded = reports @ texts"
    unfolding decode_storage_def by (auto split: prod.splits sum.splits)
  from raw evs l d stored_reports_shape [OF r] stored_texts_shape(1) [OF t] show ?thesis by blast
qed

theorem fetch_complete_witness:
  "\<exists>reports texts. fst (the (gammu_fetch_inbound 5 storage_gammu
       ((new_gammu_driver [[sample_dict None], [sample_dict (Some (lit ''Status_Report''))]])\<lparr>gd_sm := True\<rparr>)
       sample_env)) = Inr (reports @ texts) \<and>
     length reports = 1 \<and> map in_segments texts = [1]"
proof -
  let ?d = "(new_gammu_driver [[sample_dict None], [sample_dict (Some (lit ''Status_Report''))]])\<lparr>gd_sm := True\<rparr>"
  have "\<exists>evs d' n. gammu_fetch_inbound 5 storage_gammu ?d sample_env = Some (Inr evs, d', n)"
    by (simp add: storage_eval eval_nat_numeral)
  then obtain evs d' n where out: "gammu_fetch_inbound 5 storage_gammu ?d sample_env = Some (Inr evs, d', n)"
    by blast
  have read: "\<exists>st. read_storage 5 storage_gammu sample_env None [] (?d\<lparr>gd_pending := []\<rparr>, 0) =
      Some (Inr [[sample_dict None], [sample_dict (Some (lit ''Status_Report''))]], st)"
    by (simp add: storage_eval eval_nat_numeral)
  from fetch_complete [OF out] read obtain linked reports texts where
    link: "gm_link_sms storage_gammu [[sample_dict None]] = Inr linked" and
    evs: "evs = [] @ reports @ texts" and
    reports: "map (\<lambda>r. (dr_msisdn r, dr_reference r)) reports = [([43], Some 7)]" and
    texts: "map (\<lambda>m. (in_msisdn m, in_segments m)) texts =
      map (\<lambda>grp. (the (sd_number (hd grp)), int (length grp))) linked"
    by (auto simp: sample_dict_def new_gammu_driver_def)
  have "linked = [[sample_dict None]]" using link by (simp add: storage_gammu_def plain_gammu_def)
  then have "map in_segments texts = [1]"
    using texts by (auto simp: map_eq_Cons_conv)
  moreover have "length reports = 1" using reports by (auto simp: map_eq_Cons_conv)
  ultimately show ?thesis
    unfolding out using evs by (intro exI [of _ reports] exI [of _ texts]) simp
qed



end
