(* ===== verification/Outbox.thy ===== *)
theory Outbox
  imports GammuInbox Throttle
begin

text \<open>
  The sending half of \<^verbatim>\<open>gateway/worker/main.py\<close>: the reconnect delay, the retry loop around one
  send, and \<open>process_outbox\<close>, which drains the queue first in, first out under the throttle. Each
  \<open>session.commit()\<close> is one transaction on the database; where the row has vanished it raises. What the
  API process commits meanwhile is the parameter \<open>other\<close>, a change of the database for each moment between two
  statements.
\<close>

definition MAX_SEND_ATTEMPTS :: nat where "MAX_SEND_ATTEMPTS = 3"
definition BACKOFF_INITIAL_SECONDS :: rat where "BACKOFF_INITIAL_SECONDS = 5"
definition BACKOFF_CAP_SECONDS :: rat where "BACKOFF_CAP_SECONDS = 60"

definition next_backoff :: "rat option \<Rightarrow> rat" where
  "next_backoff current =
     (case current of
        None \<Rightarrow> BACKOFF_INITIAL_SECONDS
      | Some c \<Rightarrow> min (c * 2) BACKOFF_CAP_SECONDS)"

section \<open>One message\<close>

fun aborts_retries :: "exn \<Rightarrow> bool" where
  "aborts_retries (ModemConnectionError _) = True"
| "aborts_retries (PartialSendError _) = True"
| "aborts_retries _ = False"

fun send_with_retries ::
  "'d modem_driver \<Rightarrow> str \<Rightarrow> str \<Rightarrow> nat \<Rightarrow> exn option \<Rightarrow> 'd world \<Rightarrow>
   (exn + send_result) \<times> 'd world" where
  "send_with_retries D to body 0 last_error w =
     (case last_error of
        Some x \<Rightarrow> (Inl x, w)
      | None \<Rightarrow> (Inl (OtherError (lit ''AssertionError'') []), w))"
| "send_with_retries D to body (Suc k) last_error w =
     (case call (dv_send_sms D to body) w of
        (Inr r, w') \<Rightarrow> (Inr r, w')
      | (Inl x, w') \<Rightarrow>
          if aborts_retries x then (Inl x, w')
          else send_with_retries D to body k (Some x) w')"

definition commit_update :: "str \<Rightarrow> (message \<Rightarrow> message) \<Rightarrow> 'd world \<Rightarrow> (exn + unit) \<times> 'd world" where
  "commit_update k f w =
     (case update_message k f (db w) of
        Inl x \<Rightarrow> (Inl x, w)
      | Inr d \<Rightarrow> (Inr (), w\<lparr>db := d\<rparr>))"

definition error_text :: "exn \<Rightarrow> str" where
  "error_text x = (if exn_str x \<noteq> [] then exn_str x else exn_class x)"

definition ObjectDeletedError :: exn where
  "ObjectDeletedError = OtherError (lit ''ObjectDeletedError'') []"

definition attempt_send ::
  "'d modem_driver \<Rightarrow> nat \<Rightarrow> str \<Rightarrow> 'd world \<Rightarrow> (exn + send_result) \<times> 'd world" where
  "attempt_send D max_attempts k w =
     (case get_message (db w) k of
        None \<Rightarrow> (Inl ObjectDeletedError, w)
      | Some m \<Rightarrow> send_with_retries D (msg_msisdn m) (msg_body m) max_attempts None w)"

definition mark_sent :: "str \<Rightarrow> send_result \<Rightarrow> message \<Rightarrow> message" where
  "mark_sent now r m = m\<lparr>msg_status := Sent, msg_sent_at := Some now,
     msg_segments := sr_segments r, msg_modem_ref := sr_reference r\<rparr>"

definition mark_failed :: "exn \<Rightarrow> message \<Rightarrow> message" where
  "mark_failed x m = m\<lparr>msg_status := Failed, msg_error := Some (error_text x)\<rparr>"

definition settle ::
  "str \<Rightarrow> (exn + send_result) \<times> 'd world \<Rightarrow> (exn + unit) \<times> 'd world" where
  "settle k out =
     (case out of
        (Inl (ModemConnectionError msg), w) \<Rightarrow>
          (case commit_update k (\<lambda>m. m\<lparr>msg_status := Queued\<rparr>) w of
             (Inl x, w') \<Rightarrow> (Inl x, w')
           | (Inr _, w') \<Rightarrow> (Inl (ModemConnectionError msg), w'))
      | (Inl x, w) \<Rightarrow> commit_update k (mark_failed x) w
      | (Inr r, w) \<Rightarrow> (case utc_now_iso w of (now, w') \<Rightarrow> commit_update k (mark_sent now r) w'))"

text \<open>
  The moments of a round of the worker's loop at which the API process may commit: before the query of the queue; for the
  message with a key, before the commit that marks it, before its columns are read again, while the modem is sending, and
  before the next message; before the fetch of what has been received, between the reading of the webhook settings and the
  insert of the texts, before the first query of a delivery report, and between the query that finds a message and
  the \<open>UPDATE\<close>.
\<close>

datatype moment =
  Querying | Marking str | Reading str | Transmitting str | Following str | Receiving | Storing | Matching | Reporting

type_synonym interference = "moment \<Rightarrow> database \<Rightarrow> database"

definition undisturbed :: interference where
  "undisturbed = (\<lambda>_. id)"

definition meanwhile :: "(database \<Rightarrow> database) \<Rightarrow> 'd world \<Rightarrow> 'd world" where
  "meanwhile f w = w\<lparr>db := f (db w)\<rparr>"

definition process_message ::
  "interference \<Rightarrow> 'd modem_driver \<Rightarrow> nat \<Rightarrow> str \<Rightarrow> 'd world \<Rightarrow> (exn + unit) \<times> 'd world" where
  "process_message other D max_attempts k w =
     (case commit_update k (\<lambda>m. m\<lparr>msg_status := Sending\<rparr>) (meanwhile (other (Marking k)) w) of
        (Inl x, w1) \<Rightarrow> (Inl x, w1)
      | (Inr _, w1) \<Rightarrow>
          (case attempt_send D max_attempts k (meanwhile (other (Reading k)) w1) of
             (r, w2) \<Rightarrow> settle k (r, meanwhile (other (Transmitting k)) w2)))"

section \<open>The queue\<close>

definition queue_key :: "message \<Rightarrow> str \<times> str" where
  "queue_key m = (msg_created_at m, msg_id m)"

definition queued :: "message \<Rightarrow> bool" where
  "queued m \<longleftrightarrow> msg_direction m = Outbound \<and> msg_status m = Queued"

definition outbox :: "database \<Rightarrow> message list" where
  "outbox d = sort_key queue_key (filter queued (messages d))"

definition send_cost :: "message \<Rightarrow> rat" where
  "send_cost m = (if msg_segments m = 0 then 1 else of_int (msg_segments m))"

text \<open>
  The first message still has the columns that the query loaded; a commit expires them, so that every later one is
  loaded again, which fails where the row is gone.
\<close>

fun outbox_loop ::
  "interference \<Rightarrow> 'd modem_driver \<Rightarrow> nat \<Rightarrow> str list \<Rightarrow> token_bucket \<Rightarrow> 'd world \<Rightarrow>
   (exn + unit) \<times> token_bucket \<times> 'd world" where
  "outbox_loop other D max_attempts [] b w = (Inr (), b, w)"
| "outbox_loop other D max_attempts (k # ks) b w =
     (case get_message (db w) k of
        None \<Rightarrow> (Inl ObjectDeletedError, b, w)
      | Some m \<Rightarrow>
          (case read_monotonic w of (now, w1) \<Rightarrow>
             (case try_take (send_cost m) now b of
                (False, b') \<Rightarrow> (Inr (), b', w1)
              | (True, b') \<Rightarrow>
                  (case process_message other D max_attempts k w1 of
                     (Inl x, w2) \<Rightarrow> (Inl x, b', w2)
                   | (Inr _, w2) \<Rightarrow> outbox_loop other D max_attempts ks b' (meanwhile (other (Following k)) w2)))))"

definition process_outbox ::
  "interference \<Rightarrow> 'd modem_driver \<Rightarrow> nat \<Rightarrow> token_bucket \<Rightarrow> 'd world \<Rightarrow>
   (exn + unit) \<times> token_bucket \<times> 'd world" where
  "process_outbox other D max_attempts b w = outbox_loop other D max_attempts (map msg_id (outbox (db w))) b w"

section \<open>What one message's turn does to the database\<close>

lemma meanwhile_frame [simp]:
  "db (meanwhile f w) = f (db w)" "env (meanwhile f w) = env w" "drv (meanwhile f w) = drv w"
  by (simp_all add: meanwhile_def)

lemma undisturbed_apply: "undisturbed mo d = d"
  by (simp add: undisturbed_def)

lemma meanwhile_undisturbed [simp]: "meanwhile (undisturbed mo) w = w"
  by (simp add: meanwhile_def undisturbed_apply)

lemma send_with_retries_db [simp]: "db (snd (send_with_retries D to body k l w)) = db w"
  by (induction D to body k l w rule: send_with_retries.induct)
    (auto split: option.splits prod.splits sum.splits dest: arg_cong [where f = "\<lambda>x. db (snd x)"])

lemma attempt_send_db [simp]: "db (snd (attempt_send D n k w)) = db w"
  by (simp add: attempt_send_def split: option.split)

definition with_message :: "str \<Rightarrow> (message \<Rightarrow> message) \<Rightarrow> database \<Rightarrow> database" where
  "with_message k f d = d\<lparr>messages := map (\<lambda>r. if msg_id r = k then f r else r) (messages d)\<rparr>"

lemma commit_update_eq:
  "commit_update k f w =
     (if get_message (db w) k = None then (Inl StaleDataError, w) else (Inr (), w\<lparr>db := with_message k f (db w)\<rparr>))"
  by (auto simp: commit_update_def with_message_def update_message_def update_row_def get_message_def)

lemma commit_update_present:
  "get_message (db w) k \<noteq> None \<Longrightarrow> commit_update k f w = (Inr (), w\<lparr>db := with_message k f (db w)\<rparr>)"
  by (simp add: commit_update_eq)

lemma get_with_message:
  "(\<And>r. msg_id (f r) = msg_id r) \<Longrightarrow>
   get_message (with_message k f d) j = (if j = k then map_option f (get_message d k) else get_message d j)"
  by (auto simp: get_message_def with_message_def find_row_map)

lemma messages_with_message:
  "messages (with_message k f d) = map (\<lambda>r. if msg_id r = k then f r else r) (messages d)"
  by (simp add: with_message_def)

lemma in_with_message:
  "m \<in> set (messages (with_message k f d)) \<longleftrightarrow>
     (\<exists>r \<in> set (messages d). m = (if msg_id r = k then f r else r))"
  by (simp only: messages_with_message set_map image_iff)

definition ids_distinct :: "database \<Rightarrow> bool" where
  "ids_distinct d \<longleftrightarrow> distinct (map msg_id (messages d))"

lemma with_message_distinct [simp]:
  "(\<And>r. msg_id (f r) = msg_id r) \<Longrightarrow> ids_distinct (with_message k f d) = ids_distinct d"
  by (simp add: ids_distinct_def with_message_def o_def if_distrib cong: if_cong)

lemma same_row: "ids_distinct d \<Longrightarrow> m \<in> set (messages d) \<Longrightarrow> m' \<in> set (messages d) \<Longrightarrow> msg_id m' = msg_id m \<Longrightarrow> m' = m"
  by (auto simp: ids_distinct_def distinct_map inj_on_def)

text \<open>The three ways a turn can end, and what each does to the message.\<close>

datatype turn = Requeued | Settled_failed exn | Settled_sent str send_result

fun turn_update :: "turn \<Rightarrow> message \<Rightarrow> message" where
  "turn_update Requeued m = m\<lparr>msg_status := Queued\<rparr>"
| "turn_update (Settled_failed x) m = mark_failed x m"
| "turn_update (Settled_sent now r) m = mark_sent now r m"

fun settled_turn :: "turn \<Rightarrow> bool" where
  "settled_turn Requeued \<longleftrightarrow> False"
| "settled_turn (Settled_failed x) \<longleftrightarrow> (\<forall>m. x \<noteq> ModemConnectionError m)"
| "settled_turn (Settled_sent _ _) \<longleftrightarrow> True"

lemma turn_update_id [simp]: "msg_id (turn_update t m) = msg_id m"
  by (cases t) (simp_all add: mark_failed_def mark_sent_def)

lemma turn_update_absorbs_sending [simp]:
  "turn_update t (m\<lparr>msg_status := Sending\<rparr>) = turn_update t m"
  by (cases t) (simp_all add: mark_failed_def mark_sent_def)

lemma turn_update_eq:
  "(\<lambda>m. m\<lparr>msg_status := Queued\<rparr>) = turn_update Requeued"
  "mark_failed x = turn_update (Settled_failed x)"
  "mark_sent now r = turn_update (Settled_sent now r)"
  by (simp_all add: fun_eq_iff)

lemma settle_cases:
  assumes "settle k (r, w) = (q, w')"
  obtains (stale) "get_message (db w) k = None" and "q = Inl StaleDataError" and "db w' = db w"
    | (lost) msg where "get_message (db w) k \<noteq> None" and "r = Inl (ModemConnectionError msg)"
        and "q = Inl (ModemConnectionError msg)" and "db w' = with_message k (turn_update Requeued) (db w)"
    | (settled) t where "get_message (db w) k \<noteq> None" and "settled_turn t" and "q = Inr ()"
        and "db w' = with_message k (turn_update t) (db w)"
proof (cases "get_message (db w) k = None")
  case True
  have "q = Inl StaleDataError \<and> db w' = db w"
  proof (cases r)
    case (Inl x)
    then show ?thesis using assms True by (cases x) (auto simp: settle_def commit_update_eq)
  qed (use assms True in \<open>auto simp: settle_def commit_update_eq utc_now_iso_def\<close>)
  with True show thesis by (intro stale) simp_all
next
  case False
  consider (lost) msg where "r = Inl (ModemConnectionError msg)"
    | (failed) x where "r = Inl x" "\<forall>msg. x \<noteq> ModemConnectionError msg" | (sent) res where "r = Inr res"
    by (cases r) auto
  then show thesis
  proof cases
    case lost
    then show thesis
      using that(2) [OF False lost] assms False
      by (auto simp: settle_def commit_update_present turn_update_eq simp del: turn_update.simps)
  next
    case failed
    then have "settle k (r, w) = commit_update k (mark_failed x) w" by (cases x) (auto simp: settle_def)
    then show thesis
      using settled [OF False, of "Settled_failed x"] assms False failed(2)
      by (auto simp: commit_update_present turn_update_eq simp del: turn_update.simps)
  next
    case sent
    then show thesis
      using settled [OF False, of "Settled_sent (fst (utc_now_iso w)) res"] assms False
      by (auto simp: settle_def commit_update_present utc_now_iso_def turn_update_eq simp del: turn_update.simps)
  qed
qed

text \<open>
  One turn, with whatever is committed meanwhile: the row is gone before it is marked, or the modem is at work and then the
  row is gone, or the connection is lost, or the message is settled.
\<close>

definition in_flight :: "interference \<Rightarrow> str \<Rightarrow> database \<Rightarrow> database" where
  "in_flight other k d =
     other (Transmitting k) (other (Reading k) (with_message k (\<lambda>m. m\<lparr>msg_status := Sending\<rparr>) (other (Marking k) d)))"

lemma process_message_cases:
  assumes "process_message other D n k w = (q, w')"
  obtains (unmarked) "get_message (other (Marking k) (db w)) k = None" and "q = Inl StaleDataError"
        and "db w' = other (Marking k) (db w)"
    | (vanished) "get_message (other (Marking k) (db w)) k \<noteq> None" and "get_message (in_flight other k (db w)) k = None"
        and "q = Inl StaleDataError" and "db w' = in_flight other k (db w)"
    | (lost) msg v where "get_message (other (Marking k) (db w)) k \<noteq> None"
        and "fst (attempt_send D n k v) = Inl (ModemConnectionError msg)" and "q = Inl (ModemConnectionError msg)"
        and "db w' = with_message k (turn_update Requeued) (in_flight other k (db w))"
    | (settled) t where "get_message (other (Marking k) (db w)) k \<noteq> None"
        and "settled_turn t" and "q = Inr ()" and "db w' = with_message k (turn_update t) (in_flight other k (db w))"
proof (cases "get_message (other (Marking k) (db w)) k = None")
  case True
  with assms have "q = Inl StaleDataError" "db w' = other (Marking k) (db w)"
    by (auto simp: process_message_def commit_update_eq)
  with True show thesis by (rule unmarked)
next
  case False
  define w1 where "w1 = (meanwhile (other (Marking k)) w)
    \<lparr>db := with_message k (\<lambda>m. m\<lparr>msg_status := Sending\<rparr>) (other (Marking k) (db w))\<rparr>"
  obtain r w2 where r: "attempt_send D n k (meanwhile (other (Reading k)) w1) = (r, w2)" by (metis prod.exhaust)
  have db2: "db (meanwhile (other (Transmitting k)) w2) = in_flight other k (db w)"
    using attempt_send_db [of D n k "meanwhile (other (Reading k)) w1", unfolded r]
    by (simp add: in_flight_def w1_def)
  have "settle k (r, meanwhile (other (Transmitting k)) w2) = (q, w')"
    using assms False r by (simp add: process_message_def commit_update_eq w1_def)
  then show thesis
  proof (cases rule: settle_cases)
    case stale
    then show thesis using vanished [OF False] db2 by simp
  next
    case (lost msg)
    then show thesis using that(3) [OF False, of "meanwhile (other (Reading k)) w1" msg] db2 r by simp
  next
    case (settled t)
    then show thesis using that(4) [OF False] db2 by simp
  qed
qed

section \<open>What may be committed meanwhile\<close>

text \<open>
  The requests of the API process delete messages (the purge) and queue new ones. \<open>brings_queued\<close> says that; \<open>settles S\<close>
  is a change that deletes no row, settles those under the identifiers \<open>S\<close>, and leaves all others as they are.
\<close>

definition brings_queued :: "database \<Rightarrow> database \<Rightarrow> bool" where
  "brings_queued d d' \<longleftrightarrow> (\<forall>m' \<in> set (messages d'). m' \<in> set (messages d) \<or> queued m')"

lemma brings_queued_refl [simp]: "brings_queued d d"
  by (simp add: brings_queued_def)

lemma brings_queued_trans: "brings_queued a b \<Longrightarrow> brings_queued b c \<Longrightarrow> brings_queued a c"
  by (auto simp: brings_queued_def)

text \<open>What a settled turn makes of the row.\<close>

definition settled_row :: "message \<Rightarrow> message \<Rightarrow> bool" where
  "settled_row m m' \<longleftrightarrow> (\<exists>t. settled_turn t \<and> m' = turn_update t m)"

lemma settled_row_status: "settled_row m m' \<Longrightarrow> msg_status m' \<in> {Sent, Failed}"
  by (auto simp: settled_row_def mark_sent_def mark_failed_def elim!: settled_turn.elims)

lemma settled_row_id: "settled_row m m' \<Longrightarrow> msg_id m' = msg_id m"
  by (auto simp: settled_row_def)

definition settles :: "str set \<Rightarrow> database \<Rightarrow> database \<Rightarrow> bool" where
  "settles S d d' \<longleftrightarrow> (ids_distinct d \<longrightarrow> ids_distinct d' \<and>
     (\<forall>m \<in> set (messages d). if msg_id m \<in> S then \<exists>m' \<in> set (messages d'). settled_row m m' else m \<in> set (messages d')))"

abbreviation keeps_rows :: "database \<Rightarrow> database \<Rightarrow> bool" where
  "keeps_rows \<equiv> settles {}"

lemma settles_refl [simp]: "keeps_rows d d"
  by (simp add: settles_def)

lemma settles_settled:
  "settles S d d' \<Longrightarrow> ids_distinct d \<Longrightarrow> m \<in> set (messages d) \<Longrightarrow> msg_id m \<in> S \<Longrightarrow>
   \<exists>m' \<in> set (messages d'). settled_row m m'"
  unfolding settles_def by metis

lemma settles_trans:
  assumes "settles S a b" and "settles T b c" and "S \<inter> T = {}"
  shows "settles (S \<union> T) a c"
  unfolding settles_def
proof (intro impI conjI ballI)
  assume dist: "ids_distinct a"
  then have "ids_distinct b" using assms(1) by (simp add: settles_def)
  with assms(2) show "ids_distinct c" by (simp add: settles_def)
  fix m assume m: "m \<in> set (messages a)"
  show "if msg_id m \<in> S \<union> T then \<exists>m' \<in> set (messages c). settled_row m m' else m \<in> set (messages c)"
  proof (cases "msg_id m \<in> S")
    case True
    then obtain m1 where "m1 \<in> set (messages b)" "settled_row m m1"
      using settles_settled [OF assms(1) dist m] by blast
    moreover from this have "msg_id m1 \<notin> T" using settled_row_id True assms(3) by fastforce
    ultimately have "m1 \<in> set (messages c)" using assms(2) \<open>ids_distinct b\<close> by (auto simp: settles_def)
    with \<open>settled_row m m1\<close> True show ?thesis by auto
  next
    case False
    then have "m \<in> set (messages b)" using assms(1) dist m by (auto simp: settles_def)
    then show ?thesis using assms(2) False \<open>ids_distinct b\<close> by (auto simp: settles_def)
  qed
qed

lemma keeps_rows_trans: "keeps_rows a b \<Longrightarrow> keeps_rows b c \<Longrightarrow> keeps_rows a c"
  using settles_trans [of "{}" a b "{}" c] by simp

lemma keeps_rows_in: "keeps_rows d d' \<Longrightarrow> ids_distinct d \<Longrightarrow> m \<in> set (messages d) \<Longrightarrow> m \<in> set (messages d')"
  by (simp add: settles_def)

definition row_queued :: "database \<Rightarrow> str \<Rightarrow> bool" where
  "row_queued d k \<longleftrightarrow> (\<exists>m \<in> set (messages d). msg_id m = k \<and> queued m)"

lemma row_queued_settles:
  "settles S d d' \<Longrightarrow> ids_distinct d \<Longrightarrow> row_queued d k \<Longrightarrow> k \<notin> S \<Longrightarrow> row_queued d' k"
  by (auto simp: settles_def row_queued_def)

lemma row_queued_get: "row_queued d k \<Longrightarrow> \<exists>m. get_message d k = Some m"
  by (metis get_message_None_iff image_eqI not_Some_eq row_queued_def)

section \<open>The whole queue\<close>

text \<open>Where nothing is deleted: a turn settles its message, or loses the connection and leaves it queued.\<close>

lemma in_flight_distinct:
  "\<forall>mo d. keeps_rows d (other mo d) \<Longrightarrow> ids_distinct d \<Longrightarrow> ids_distinct (in_flight other k d)"
  by (simp add: in_flight_def settles_def)

lemma in_flight_keeps:
  assumes other: "\<forall>mo d. keeps_rows d (other mo d)" and dist: "ids_distinct d"
    and m: "m \<in> set (messages d)"
  shows "(if msg_id m = k then m\<lparr>msg_status := Sending\<rparr> else m) \<in> set (messages (in_flight other k d))"
proof -
  let ?mark = "with_message k (\<lambda>m. m\<lparr>msg_status := Sending\<rparr>) (other (Marking k) d)"
  have "ids_distinct ?mark" using other dist by (simp add: settles_def)
  moreover have "m \<in> set (messages (other (Marking k) d))" using other dist m keeps_rows_in by blast
  then have "(if msg_id m = k then m\<lparr>msg_status := Sending\<rparr> else m) \<in> set (messages ?mark)"
    unfolding in_with_message by blast
  moreover have "keeps_rows ?mark (in_flight other k d)"
    unfolding in_flight_def using other keeps_rows_trans by blast
  ultimately show ?thesis using keeps_rows_in by blast
qed

lemma settles_turn:
  assumes other: "\<forall>mo d. keeps_rows d (other mo d)"
  shows "settled_turn t \<Longrightarrow> settles {k} d (with_message k (turn_update t) (in_flight other k d))"
    and "row_queued d k \<Longrightarrow> keeps_rows d (with_message k (turn_update Requeued) (in_flight other k d))"
proof -
  have row: "(if msg_id m = k then turn_update t m else m) \<in> set (messages (with_message k (turn_update t) (in_flight other k d)))"
    if "ids_distinct d" "m \<in> set (messages d)" for t m
  proof -
    define r where "r = (if msg_id m = k then m\<lparr>msg_status := Sending\<rparr> else m)"
    have "r \<in> set (messages (in_flight other k d))" unfolding r_def by (rule in_flight_keeps [OF other that])
    moreover have "(if msg_id r = k then turn_update t r else r) = (if msg_id m = k then turn_update t m else m)"
      by (simp add: r_def)
    ultimately show ?thesis unfolding in_with_message by metis
  qed
  note ids = in_flight_distinct [OF other]
  show "settled_turn t \<Longrightarrow> settles {k} d (with_message k (turn_update t) (in_flight other k d))"
    unfolding settles_def settled_row_def using row [of _ t] ids by (fastforce split: if_splits)
  show "keeps_rows d (with_message k (turn_update Requeued) (in_flight other k d))" if "row_queued d k"
    unfolding settles_def
  proof (intro impI conjI ballI)
    assume dist: "ids_distinct d"
    then show "ids_distinct (with_message k (turn_update Requeued) (in_flight other k d))"
      using ids by simp
    fix m assume m: "m \<in> set (messages d)"
    have "(if msg_id m = k then turn_update Requeued m else m) = m"
      using that same_row [OF dist _ m] by (auto simp: row_queued_def queued_def)
    with row [OF dist m, of Requeued] show "if msg_id m \<in> {} then \<exists>m' \<in> set (messages
      (with_message k (turn_update Requeued) (in_flight other k d))). settled_row m m'
      else m \<in> set (messages (with_message k (turn_update Requeued) (in_flight other k d)))" by simp
  qed
qed

lemma process_message_settles:
  assumes other: "\<forall>mo d. keeps_rows d (other mo d)" and dist: "ids_distinct (db w)" and row: "row_queued (db w) k"
    and run: "process_message other D n k w = (q, w')"
  obtains (lost) msg v where "fst (attempt_send D n k v) = Inl (ModemConnectionError msg)"
        and "q = Inl (ModemConnectionError msg)" and "keeps_rows (db w) (db w')"
    | (settled) "q = Inr ()" and "settles {k} (db w) (db w')"
proof -
  have "row_queued (other (Marking k) (db w)) k"
    using row_queued_settles [OF _ dist row, of "{}"] other by blast
  then have present: "get_message (other (Marking k) (db w)) k \<noteq> None" using row_queued_get by blast
  have flying: "get_message (in_flight other k (db w)) k \<noteq> None"
  proof -
    obtain m where m: "m \<in> set (messages (db w))" "msg_id m = k" using row by (auto simp: row_queued_def)
    from in_flight_keeps [OF other dist m(1), of k] m(2)
    have "m\<lparr>msg_status := Sending\<rparr> \<in> set (messages (in_flight other k (db w)))" by simp
    from imageI [OF this, of msg_id] show ?thesis using m(2) by (simp add: get_message_None_iff)
  qed
  from run show thesis
  proof (cases rule: process_message_cases)
    case (lost msg v)
    then show thesis using that(1) settles_turn(2) [OF other row] by metis
  next
    case (settled t)
    then show thesis using that(2) settles_turn(1) [OF other] by metis
  qed (use present flying in simp_all)
qed

lemma outbox_loop_settles:
  assumes other: "\<forall>mo d. keeps_rows d (other mo d)" and "ids_distinct (db w)" and "distinct ks"
    and "\<forall>k \<in> set ks. row_queued (db w) k" and "outbox_loop other D n ks b w = (r, b', w')"
  shows "\<exists>j. j \<le> length ks \<and> settles (set (take j ks)) (db w) (db w') \<and>
    (r = Inr () \<or> j < length ks \<and> (\<exists>msg. r = Inl (ModemConnectionError msg)))"
  using assms(2-)
proof (induction ks arbitrary: b w)
  case (Cons k ks)
  have row: "row_queued (db w) k" using Cons.prems(3) by simp
  then obtain m where m: "get_message (db w) k = Some m" using row_queued_get by blast
  obtain ok b1 where b1: "try_take (send_cost m) (monotime (env w) (tick (env w))) b = (ok, b1)" by (metis prod.exhaust)
  obtain q w2 where pm: "process_message other D n k (advance 1 w) = (q, w2)" by (metis prod.exhaust)
  have step: "(if ok then case q of Inl x \<Rightarrow> (Inl x, b1, w2)
        | Inr _ \<Rightarrow> outbox_loop other D n ks b1 (meanwhile (other (Following k)) w2)
      else (Inr (), b1, advance 1 w)) = (r, b', w')"
    using Cons.prems(4) m b1 pm by (cases ok) (simp_all add: read_monotonic_def)
  show ?case
  proof (cases ok)
    case False
    then have "r = Inr ()" "db w' = db w" using step by auto
    then show ?thesis by (intro exI [of _ 0]) simp
  next
    case True
    have "ids_distinct (db (advance 1 w))" "row_queued (db (advance 1 w)) k" using Cons.prems(1) row by simp_all
    from other this pm show ?thesis
    proof (cases rule: process_message_settles)
      case (lost msg v)
      then show ?thesis using step True by (intro exI [of _ 0]) auto
    next
      case settled
      let ?w3 = "meanwhile (other (Following k)) w2"
      have s: "settles {k} (db w) (db ?w3)"
        using settles_trans [OF settled(2), of "{}" "db ?w3"] other by simp
      have dist: "ids_distinct (db ?w3)" using s Cons.prems(1) by (simp add: settles_def)
      have rows: "\<forall>j \<in> set ks. row_queued (db ?w3) j"
        using row_queued_settles [OF s Cons.prems(1)] Cons.prems(2,3) by auto
      have "outbox_loop other D n ks b1 ?w3 = (r, b', w')" using step True settled(1) by simp
      from Cons.IH [OF dist _ rows this] Cons.prems(2) obtain j where j: "j \<le> length ks"
        "settles (set (take j ks)) (db ?w3) (db w')"
        "r = Inr () \<or> j < length ks \<and> (\<exists>msg. r = Inl (ModemConnectionError msg))" by auto
      have "k \<notin> set (take j ks)" using Cons.prems(2) by (auto dest: in_set_takeD)
      with settles_trans [OF s j(2)] have "settles (set (take (Suc j) (k # ks))) (db w) (db w')" by simp
      with j show ?thesis by (intro exI [of _ "Suc j"]) auto
    qed
  qed
qed (auto intro: exI [of _ 0])

lemma outbox_queued:
  assumes "ids_distinct d"
  shows "distinct (map msg_id (outbox d))"
    and "\<forall>k \<in> set (map msg_id (outbox d)). row_queued d k"
    and "m \<in> set (outbox d) \<longleftrightarrow> m \<in> set (messages d) \<and> queued m"
  using assms by (auto simp: ids_distinct_def outbox_def distinct_map inj_on_def row_queued_def)

lemma process_outbox_settles:
  assumes "\<forall>mo d. keeps_rows d (other mo d)" and "ids_distinct (db w)" and "process_outbox other D n b w = (r, b', w')"
  shows "\<exists>j \<le> length (outbox (db w)). settles (msg_id ` set (take j (outbox (db w)))) (db w) (db w') \<and>
    (r = Inr () \<or> j < length (outbox (db w)) \<and> (\<exists>msg. r = Inl (ModemConnectionError msg)))"
  using outbox_loop_settles [OF assms(1,2) outbox_queued(1,2) [OF assms(2)] assms(3) [unfolded process_outbox_def]]
  by (auto simp: take_map)

text \<open>
  Where the purge may run too: a message that is on its turn is queued or marked, a row that appears meanwhile is queued,
  and no message is left marked.
\<close>

definition in_transit :: "message \<Rightarrow> bool" where
  "in_transit m \<longleftrightarrow> msg_direction m = Outbound \<and> msg_status m \<in> {Queued, Sending}"

definition awaiting :: "str list \<Rightarrow> database \<Rightarrow> bool" where
  "awaiting ks d \<longleftrightarrow> (\<forall>m \<in> set (messages d). msg_id m \<in> set ks \<longrightarrow> queued m)"

lemma awaiting_brought: "awaiting ks d \<Longrightarrow> brings_queued d d' \<Longrightarrow> awaiting ks d'"
  by (auto simp: awaiting_def brings_queued_def)

lemma awaiting_outbox: "ids_distinct d \<Longrightarrow> awaiting (map msg_id (outbox d)) d"
  using outbox_queued(3) same_row by (fastforce simp: awaiting_def)

definition turned_row :: "message \<Rightarrow> bool" where
  "turned_row m' \<longleftrightarrow> queued m' \<or> (\<exists>m. queued m \<and> settled_row m m')"

lemma turned_row_update: "in_transit m \<Longrightarrow> t = Requeued \<or> settled_turn t \<Longrightarrow> turned_row (turn_update t m)"
proof (elim disjE)
  assume m: "in_transit m" and t: "settled_turn t"
  have "turn_update t m = turn_update t (m\<lparr>msg_status := Queued\<rparr>)"
    by (cases t) (simp_all add: mark_failed_def mark_sent_def)
  with t have "settled_row (m\<lparr>msg_status := Queued\<rparr>) (turn_update t m)" unfolding settled_row_def by metis
  moreover have "queued (m\<lparr>msg_status := Queued\<rparr>)" using m by (simp add: in_transit_def queued_def)
  ultimately show "turned_row (turn_update t m)" unfolding turned_row_def by blast
qed (simp add: turned_row_def queued_def in_transit_def)

lemma in_flight_rows:
  assumes "\<forall>mo d. brings_queued d (other mo d)" and "awaiting [k] d" and "m \<in> set (messages (in_flight other k d))"
  shows "if msg_id m = k then in_transit m else m \<in> set (messages d) \<or> queued m"
proof -
  let ?mark = "with_message k (\<lambda>m. m\<lparr>msg_status := Sending\<rparr>) (other (Marking k) d)"
  have "brings_queued ?mark (in_flight other k d)"
    unfolding in_flight_def using assms(1) brings_queued_trans by blast
  then consider "queued m" | "m \<in> set (messages ?mark)" using assms(3) by (auto simp: brings_queued_def)
  then show ?thesis
  proof cases
    case 2
    then obtain r where r: "r \<in> set (messages (other (Marking k) d))"
      "m = (if msg_id r = k then r\<lparr>msg_status := Sending\<rparr> else r)" by (auto simp: in_with_message)
    have "awaiting [k] (other (Marking k) d)" using awaiting_brought assms(1,2) by blast
    then show ?thesis
      using r assms(1) by (auto simp: awaiting_def queued_def in_transit_def brings_queued_def)
  qed (simp add: queued_def in_transit_def)
qed

lemma process_message_rows:
  assumes brings: "\<forall>mo d. brings_queued d (other mo d)" and awaiting: "awaiting [k] (db w)"
    and run: "process_message other D n k w = (q, w')" and m': "m' \<in> set (messages (db w'))"
  shows "if msg_id m' = k then turned_row m' else m' \<in> set (messages (db w)) \<or> queued m'"
proof -
  have turned: ?thesis
    if db': "db w' = with_message k (turn_update t) (in_flight other k (db w))" and t: "t = Requeued \<or> settled_turn t" for t
  proof -
    obtain r where r: "r \<in> set (messages (in_flight other k (db w)))" "m' = (if msg_id r = k then turn_update t r else r)"
      using m' by (auto simp: db' in_with_message)
    from in_flight_rows [OF brings awaiting r(1)] show ?thesis
      using r(2) turned_row_update [OF _ t, of r] by (auto split: if_splits)
  qed
  from run show ?thesis
  proof (cases rule: process_message_cases)
    case unmarked
    then have "msg_id m' \<noteq> k" using m' by (metis get_message_None_iff image_eqI)
    then show ?thesis using m' brings by (auto simp: unmarked(3) brings_queued_def)
  next
    case vanished
    then have "msg_id m' \<noteq> k" using m' by (metis get_message_None_iff image_eqI)
    then show ?thesis using in_flight_rows [OF brings awaiting] m' by (auto simp: vanished(4))
  qed (use turned in blast)+
qed

lemma process_message_awaiting:
  assumes "\<forall>mo d. brings_queued d (other mo d)" and "awaiting (k # ks) (db w)" and "k \<notin> set ks"
    and "process_message other D n k w = (q, w')"
  shows "awaiting ks (db w')"
proof -
  have "awaiting [k] (db w)" using assms(2) by (simp add: awaiting_def)
  from process_message_rows [OF assms(1) this assms(4)] show ?thesis
    using assms(2,3) by (fastforce simp: awaiting_def split: if_splits)
qed

text \<open>
  A rule for what a round of the queue establishes, step by step: a statement about the rows (\<open>process_message_rows\<close>) and
  properties of the database that marking and settling keep.
\<close>

lemma outbox_loop_induct:
  assumes "outbox_loop other D n ks b w = (r, b', w')" and "awaiting ks (db w)" and "distinct ks"
    and brings: "\<forall>mo d. brings_queued d (other mo d)" and start: "Q (db w)"
    and turn: "\<And>k w q w'. k \<in> set ks \<Longrightarrow> Q (db w) \<Longrightarrow> awaiting [k] (db w) \<Longrightarrow>
      process_message other D n k w = (q, w') \<Longrightarrow> Q (db w')"
    and between: "\<And>mo d. Q d \<Longrightarrow> Q (other mo d)"
  shows "Q (db w')"
  using assms(1-3) start turn
proof (induction ks arbitrary: b w)
  case (Cons k ks)
  show ?case
  proof (cases "get_message (db w) k")
    case (Some m)
    obtain ok b1 where b1: "try_take (send_cost m) (monotime (env w) (tick (env w))) b = (ok, b1)" by (metis prod.exhaust)
    obtain q w2 where pm: "process_message other D n k (advance 1 w) = (q, w2)" by (metis prod.exhaust)
    have now: "awaiting (k # ks) (db (advance 1 w))" "k \<notin> set ks" using Cons.prems(2,3) by simp_all
    then have "awaiting [k] (db (advance 1 w))" by (simp add: awaiting_def)
    from Cons.prems(5) [OF _ _ this pm] have 2: "Q (db w2)" using Cons.prems(4) by simp
    have "awaiting ks (db (meanwhile (other (Following k)) w2))"
      using awaiting_brought process_message_awaiting [OF brings now pm] brings by simp
    moreover have "Q (db v')" if "j \<in> set ks" "Q (db v)" "awaiting [j] (db v)" "process_message other D n j v = (p, v')"
      for j v p v' using Cons.prems(5) [OF _ that(2-4)] that(1) by simp
    ultimately have "outbox_loop other D n ks b1 (meanwhile (other (Following k)) w2) = (r, b', w') \<Longrightarrow> Q (db w')"
      using Cons.IH Cons.prems(3) between [OF 2] by simp
    then show ?thesis
      using Cons.prems(1,4) Some b1 pm 2 by (cases ok; cases q) (auto simp: read_monotonic_def)
  qed (use Cons.prems in simp)
qed simp

locale outbox_contract =
  fixes P :: "database \<Rightarrow> bool"
  assumes mark: "P d \<Longrightarrow> awaiting [k] d \<Longrightarrow> P (with_message k (\<lambda>m. m\<lparr>msg_status := Sending\<rparr>) d)"
    and turn: "P d \<Longrightarrow> \<forall>m \<in> set (messages d). msg_id m = k \<longrightarrow> in_transit m \<Longrightarrow> P (with_message k (turn_update t) d)"
begin

lemma in_flight:
  assumes "\<forall>mo d. brings_queued d (other mo d)" and "\<And>mo d. P d \<Longrightarrow> P (other mo d)" and "awaiting [k] d" and "P d"
  shows "P (in_flight other k d)"
proof -
  have "awaiting [k] (other (Marking k) d)" using awaiting_brought assms(1,3) by blast
  then show ?thesis using assms(2,4) mark by (simp add: in_flight_def)
qed

lemma process_message:
  assumes brings: "\<forall>mo d. brings_queued d (other mo d)" and between: "\<And>mo d. P d \<Longrightarrow> P (other mo d)"
    and "awaiting [k] (db w)" and "P (db w)" and "process_message other D n k w = (q, w')"
  shows "P (db w')"
proof -
  note flying = in_flight [OF brings between assms(3,4)]
  have turned: "P (with_message k (turn_update t) (in_flight other k (db w)))" for t
    using in_flight_rows [OF brings assms(3)] by (intro turn [OF flying]) auto
  from assms(5) show ?thesis
    by (cases rule: process_message_cases) (use between assms(4) flying turned in simp_all)
qed

lemma outbox_loop:
  assumes brings: "\<forall>mo d. brings_queued d (other mo d)" and between: "\<And>mo d. P d \<Longrightarrow> P (other mo d)"
    and "outbox_loop other D n ks b w = (r, b', w')" and "awaiting ks (db w)" and "distinct ks" and "P (db w)"
  shows "P (db w')"
  using outbox_loop_induct [OF assms(3-5) brings, of P] process_message [OF brings between] between assms(6) by blast

lemma process_outbox:
  assumes "\<forall>mo d. brings_queued d (other mo d)" and "\<And>mo d. P d \<Longrightarrow> P (other mo d)"
    and "ids_distinct (db w)" and "P (db w)" and "process_outbox other D n b w = (r, b', w')"
  shows "P (db w')"
  using outbox_loop [OF assms(1,2) assms(5) [unfolded process_outbox_def] awaiting_outbox [OF assms(3)]
      outbox_queued(1) [OF assms(3)]] assms(4) by blast

text \<open>The worker is killed while the modem is sending the message with the key \<open>k\<close>.\<close>

lemma killed:
  assumes brings: "\<forall>mo d. brings_queued d (other mo d)" and between: "\<And>mo d. P d \<Longrightarrow> P (other mo d)"
    and loop: "outbox_loop other D n ks b w = (r, b', w1)" and "awaiting (ks @ [k]) (db w)" and "distinct (ks @ [k])"
    and "P (db w)"
  shows "P (with_message k (\<lambda>m. m\<lparr>msg_status := Sending\<rparr>) (other (Marking k) (db w1)))"
proof -
  have start: "awaiting ks (db w)" "distinct ks" "awaiting [k] (db w)" using assms(4,5) by (auto simp: awaiting_def)
  have "awaiting [k] (db w1)"
  proof (rule outbox_loop_induct [where Q = "awaiting [k]", OF loop start(1,2) brings start(3)])
    fix j v q v'
    assume j: "j \<in> set ks" and v: "awaiting [k] (db v)" "awaiting [j] (db v)" "process_message other D n j v = (q, v')"
    from j assms(5) have "k \<noteq> j" by auto
    with process_message_rows [OF brings v(2,3)] v(1) show "awaiting [k] (db v')"
      by (fastforce simp: awaiting_def split: if_splits)
  qed (use awaiting_brought brings in blast)
  then have "awaiting [k] (other (Marking k) (db w1))" using awaiting_brought brings by blast
  moreover have "P (db w1)" by (rule outbox_loop [OF brings between loop start(1,2) assms(6)])
  ultimately show ?thesis using mark between by blast
qed

end

text \<open>Alone, a round changes the messages only, and no key.\<close>

interpretation frame: outbox_contract "\<lambda>d. d\<lparr>messages := []\<rparr> = others \<and> map msg_id (messages d) = keys"
  for others :: database and keys
  by unfold_locales (auto simp: with_message_def o_def if_distrib cong: if_cong)

text \<open>The exceptions that can leave a round.\<close>

lemma outbox_loop_error:
  "outbox_loop other D n ks b w = (Inl x, b', w') \<Longrightarrow>
   (\<exists>msg. x = ModemConnectionError msg) \<or> x \<in> {StaleDataError, ObjectDeletedError}"
proof (induction ks arbitrary: b w)
  case (Cons k ks)
  have message: "(\<exists>msg. y = ModemConnectionError msg) \<or> y = StaleDataError"
    if "process_message other D n k v = (Inl y, v')" for v v' y
    using that by (cases rule: process_message_cases) auto
  from Cons show ?case
    by (auto simp: read_monotonic_def split: option.splits prod.splits sum.splits bool.splits dest: message)
qed simp

text \<open>The row-wise statement for a whole round.\<close>

lemma process_outbox_rows:
  assumes brings: "\<forall>mo d. brings_queued d (other mo d)" and "ids_distinct (db w)"
    and "process_outbox other D n b w = (r, b', w')" and "m' \<in> set (messages (db w'))"
  shows "m' \<in> set (messages (db w)) \<or> turned_row m'"
proof -
  let ?Q = "\<lambda>d. \<forall>m' \<in> set (messages d). m' \<in> set (messages (db w)) \<or> turned_row m'"
  have "?Q (db w')"
  proof (rule outbox_loop_induct [OF assms(3) [unfolded process_outbox_def] awaiting_outbox [OF assms(2)]
        outbox_queued(1) [OF assms(2)] brings])
    fix k v q v'
    assume "?Q (db v)" "awaiting [k] (db v)" "process_message other D n k v = (q, v')"
    with process_message_rows [OF brings] show "?Q (db v')" by (fastforce simp: turned_row_def split: if_splits)
  next
    fix mo and d :: database assume "?Q d" then show "?Q (other mo d)" using brings by (auto simp: brings_queued_def turned_row_def)
  qed simp
  with assms(4) show ?thesis by blast
qed

section \<open>At most one copy on the air\<close>

text \<open>
  A sender that fails with something other than a \<open>ModemError\<close> only before anything went out. The
  retry loop over it then puts on the air what a single attempt did.
\<close>

locale strict_sender = sms_sender +
  assumes other_errors_silent: "\<lbrakk>send to body d e = (Inl x, d', n); \<not> is_modem_error x\<rbrakk> \<Longrightarrow> air d' = air d"
begin

lemma retried_attempt_silent:
  assumes "send to body d e = (Inl x, d', n)" and "\<not> aborts_retries x"
  shows "air d' = air d"
proof (cases "is_modem_error x")
  case True
  with assms(2) have "x \<noteq> PartialSendError m" for m by auto
  with retry_safe [OF assms(1) True] show ?thesis .
qed (rule other_errors_silent [OF assms(1)])

text \<open>Either every attempt was silent, or one attempt from an unchanged log decided the result.\<close>

lemma send_with_retries_once:
  assumes "dv_send_sms D = send" and "send_with_retries D to body k l w = (r, w')"
  shows "(air (drv w') = air (drv w) \<and> (\<exists>x. r = Inl x \<and> \<not> aborts_retries x \<or> Some x = l \<and> r = Inl x)) \<or>
    (\<exists>d e n. air d = air (drv w) \<and> send to body d e = (r, drv w', n))"
  using assms(2)
proof (induction k arbitrary: l w)
  case 0
  then show ?case by (cases l) auto
next
  case (Suc k)
  obtain q d n where q: "send to body (drv w) (env w) = (q, d, n)" by (metis prod.exhaust)
  then obtain w1 where w1: "call (send to body) w = (q, w1)" "drv w1 = d" by (simp add: call_def)
  show ?case
  proof (cases "\<exists>x. q = Inl x \<and> \<not> aborts_retries x")
    case True
    then obtain x where x: "q = Inl x" "\<not> aborts_retries x" by blast
    have same: "air (drv w1) = air (drv w)"
      using retried_attempt_silent q x w1 by blast
    have "send_with_retries D to body k (Some x) w1 = (r, w')"
      using Suc.prems assms(1) w1 x by simp
    from Suc.IH [OF this] show ?thesis using same x(2) by auto
  next
    case False
    then have "r = q" "w' = w1"
      using Suc.prems assms(1) w1 by (cases q; auto)+
    then show ?thesis using q w1 by blast
  qed
qed

end

interpretation fake_strict: strict_sender fake_send_sms fd_sent
  by unfold_locales (auto simp: fake_send_sms_def Let_def split: sum.splits)

text \<open>
  A library whose \<open>SendSMS\<close> raises something other than \<open>GSMError\<close> only to reject the report
  field. Under this hypothesis the \<open>GammuDriver\<close> is a strict sender.
\<close>

definition gsm_errors_only :: "'g gammu \<Rightarrow> bool" where
  "gsm_errors_only g \<longleftrightarrow>
     (\<forall>p m c s. fst (gm_send_sms g p m) = Inl (GOther c s) \<longrightarrow>
        pt_type p \<noteq> None \<and> value_or_type_error (OtherError c s))"

lemma send_part_error:
  assumes "send_part g e to p st = (Inl x, st')"
  shows "is_modem_error x \<or> (\<exists>c s m. x = OtherError c s \<and> fst (gm_send_sms g p m) = Inl (GOther c s))"
proof (cases "gd_sm (fst st)")
  case True
  obtain q d n where q: "gcall g e (gm_send_sms g p) st = (q, d, n)" by (metis prod.exhaust)
  then have fst: "fst (gm_send_sms g p (gd_modem (fst st))) = q"
    by (cases st) (auto simp: gcall_def split: prod.splits)
  have wr: "wrapped (q, d, n) = (Inl x, st')"
    using True q assms by (auto simp: send_part_def split: sum.splits prod.splits)
  show ?thesis
  proof (cases "\<exists>c s. q = Inl (GOther c s)")
    case other: True
    then show ?thesis using wr fst by auto
  next
    case False
    then show ?thesis using wr
      by (cases "(q, d, n)" rule: wrapped.cases) (auto simp: wrap_error_def split: if_splits)
  qed
qed (use assms in \<open>auto simp: send_part_def not_connected_def\<close>)

lemma send_one_error:
  assumes g: "gsm_errors_only g" and "send_one g e to p report st = (Inl x, st')"
  shows "is_modem_error x"
proof -
  define p1 where "p1 = (if report then p\<lparr>pt_type := Some (lit ''Status_Report'')\<rparr> else p)"
  obtain q st1 where q: "send_part g e to p1 st = (q, st1)" by (metis prod.exhaust)
  from assms(2) q obtain y where y: "q = Inl y"
    unfolding send_one_def Let_def p1_def [symmetric] by (auto split: sum.splits)
  show ?thesis
  proof (cases "value_or_type_error y")
    case True
    then have "send_part g e to (p1\<lparr>pt_type := None\<rparr>) st1 = (Inl x, st')"
      using assms(2) q y unfolding send_one_def Let_def p1_def [symmetric]
      by (auto split: prod.splits sum.splits)
    from send_part_error [OF this] show ?thesis
      using g unfolding gsm_errors_only_def by fastforce
  next
    case False
    then have "x = y"
      using assms(2) q y unfolding send_one_def Let_def p1_def [symmetric] by simp
    with send_part_error [OF q [unfolded y]] False show ?thesis
      using g unfolding gsm_errors_only_def by blast
  qed
qed

lemma send_parts_error:
  assumes "gsm_errors_only g" and "send_parts g e to count index ps report reference st = (Inl x, st')"
  shows "is_modem_error x"
  using assms(2)
proof (induction ps arbitrary: index report reference st)
  case (Cons p ps)
  let ?p = "p\<lparr>pt_smsc := Some 1, pt_number := Some to\<rparr>"
  obtain q st1 where q: "send_one g e to ?p report st = (q, st1)" by (metis prod.exhaust)
  show ?case
  proof (cases q)
    case (Inl y)
    then show ?thesis
      using Cons.prems q send_one_error [OF assms(1)] by (auto simp: partial_send_def split: if_splits)
  next
    case (Inr v)
    then show ?thesis using Cons.prems q Cons.IH by (cases v) auto
  qed
qed simp

lemma gammu_strict:
  assumes "gsm_errors_only g"
  shows "strict_sender (gammu_send_sms g) sent_texts"
proof
  fix to body d e x d' n
  assume send: "gammu_send_sms g to body d e = (Inl x, d', n)" and x: "\<not> is_modem_error x"
  show "sent_texts d' = sent_texts d"
  proof (cases "gd_loaded d \<and> (\<exists>ps. encoded g body = Inr ps)")
    case True
    then obtain ps where ps: "gd_loaded d" "encoded g body = Inr ps" by blast
    obtain q st where q: "send_parts g e to (length ps) 0 ps True None (d, 0) = (q, st)"
      by (metis prod.exhaust)
    with send x have "q = Inl x" unfolding gammu_send_loaded [OF ps] by (auto split: sum.splits)
    with send_parts_error [OF assms] q x show ?thesis by blast
  next
    case False
    then show ?thesis by (rule gammu_send_unencoded(1) [OF _ send])
  qed
qed

section \<open>Properties\<close>

text \<open>
  C28. The queue is drained first in, first out and nothing is lost: whatever the driver does, and whatever the API process
  commits at any moment of the round without deleting a message, a round settles a prefix of the queue, each message as
  \<open>Sent\<close> or \<open>Failed\<close>; every other row, the message whose connection was lost included, is exactly as it was
  before the round. The only exception that leaves the round is the lost connection, and then the queue is not
  empty. Where nothing else is committed, the round changes the messages only and neither adds nor removes one.
\<close>

theorem process_outbox_fifo:
  assumes "distinct (map msg_id (messages (db w)))"
    and "process_outbox other D n b w = (r, b', w')"
    and "\<forall>mo d. keeps_rows d (other mo d)"
  shows "\<exists>k \<le> length (outbox (db w)).
    (\<forall>m \<in> set (take k (outbox (db w))).
       \<exists>m'. get_message (db w') (msg_id m) = Some m' \<and> settled_row m m' \<and> msg_status m' \<in> {Sent, Failed}) \<and>
    (\<forall>m \<in> set (messages (db w)) - set (take k (outbox (db w))). get_message (db w') (msg_id m) = Some m) \<and>
    (other = undisturbed \<longrightarrow> db w' = (db w)\<lparr>messages := messages (db w')\<rparr> \<and>
       map msg_id (messages (db w')) = map msg_id (messages (db w))) \<and>
    (r = Inr () \<or> k < length (outbox (db w)) \<and> (\<exists>msg. r = Inl (ModemConnectionError msg)))"
proof -
  have dist: "ids_distinct (db w)" using assms(1) by (simp add: ids_distinct_def)
  from process_outbox_settles [OF assms(3) dist assms(2)] obtain k where k: "k \<le> length (outbox (db w))"
    "settles (msg_id ` set (take k (outbox (db w)))) (db w) (db w')"
    "r = Inr () \<or> k < length (outbox (db w)) \<and> (\<exists>msg. r = Inl (ModemConnectionError msg))" by blast
  have dist': "ids_distinct (db w')" using k(2) dist by (simp add: settles_def)
  let ?done = "take k (outbox (db w))"
  have sub: "m \<in> set (messages (db w))" if "m \<in> set ?done" for m
    using that outbox_queued(3) [OF dist] by (auto dest: in_set_takeD)
  have "\<exists>m'. get_message (db w') (msg_id m) = Some m' \<and> settled_row m m' \<and> msg_status m' \<in> {Sent, Failed}"
    if "m \<in> set ?done" for m
    using settles_settled [OF k(2) dist sub [OF that]] that get_message_in [OF dist' [unfolded ids_distinct_def]]
      settled_row_id settled_row_status by (metis imageI)
  moreover have "get_message (db w') (msg_id m) = Some m"
    if m: "m \<in> set (messages (db w)) - set ?done" for m
  proof -
    have "msg_id m \<notin> msg_id ` set ?done" using m sub same_row [OF dist] by fastforce
    then have "m \<in> set (messages (db w'))" using k(2) dist m by (simp add: settles_def)
    then show ?thesis using get_message_in dist' by (simp add: ids_distinct_def)
  qed
  moreover have "db w' = (db w)\<lparr>messages := messages (db w')\<rparr> \<and> map msg_id (messages (db w')) = map msg_id (messages (db w))"
    if "other = undisturbed"
    using frame.process_outbox [OF _ _ dist _ assms(2), of "(db w)\<lparr>messages := []\<rparr>" "map msg_id (messages (db w))"] that
    by (cases "db w", cases "db w'") (simp add: undisturbed_apply)
  ultimately show ?thesis using k(1,3) by blast
qed

definition sample_message :: "str \<Rightarrow> direction \<Rightarrow> msg_status \<Rightarrow> message" where
  "sample_message k dir st = \<lparr>msg_id = k, msg_direction = dir, msg_msisdn = lit ''+4366012345678'',
     msg_body = lit ''Hi'', msg_status = st, msg_segments = 1, msg_error = None,
     msg_modem_ref = None, msg_created_at = lit ''2026-01-01T00:00:00Z'', msg_sent_at = None,
     msg_delivered_at = None, msg_received_at = None\<rparr>"

definition sample_db :: database where
  "sample_db = empty_db\<lparr>messages := [sample_message (lit ''b'') Outbound Queued,
     sample_message (lit ''a'') Outbound Queued, sample_message (lit ''c'') Inbound Received]\<rparr>"

theorem process_outbox_fifo_witness:
  "length (outbox sample_db) = 2 \<and>
   (\<exists>k \<le> 2. \<forall>r b w. process_outbox undisturbed FakeDriver 3 (new_bucket 10 0)
        (sample_world sample_db (new_fake_driver None)) = (r, b, w) \<longrightarrow>
      map msg_id (messages (db w)) = [lit ''b'', lit ''a'', lit ''c''] \<and> (r = Inr () \<or> k < (2::nat)))"
proof -
  let ?w = "sample_world sample_db (new_fake_driver None)"
  have two: "length (outbox sample_db) = 2" and ids: "map msg_id (messages sample_db) = [lit ''b'', lit ''a'', lit ''c'']"
    by (simp_all add: outbox_def sample_db_def sample_message_def queued_def empty_db_def)
  obtain r b w where out: "process_outbox undisturbed FakeDriver 3 (new_bucket 10 0) ?w = (r, b, w)"
    by (metis prod.exhaust)
  have db: "db ?w = sample_db" by (simp add: sample_world_def)
  have "distinct (map msg_id (messages (db ?w)))" unfolding db ids by simp
  from process_outbox_fifo [OF this out] obtain k :: nat where
    "k \<le> 2" "map msg_id (messages (db w)) = map msg_id (messages sample_db)" "r = Inr () \<or> k < 2"
    unfolding db two by (auto simp: undisturbed_apply)
  then show ?thesis using out two ids by auto
qed

text \<open>
  C29. A purge in the middle of a send does no harm: the API process may delete messages at any moment of a
  round, also the very message that the modem is sending, and queue new ones. A row that is there after the round is one
  that was there before it, a queued one or one that the round settled; none is left in the sending state. The round ends
  without an exception, with the lost connection, or, only where something is deleted, with one of the two exceptions
  of SQLAlchemy for a row that has vanished.
\<close>

theorem purge_during_send_harmless:
  assumes "process_outbox other D n b w = (r, b', w')" and "distinct (map msg_id (messages (db w)))"
    and "\<forall>mo d. brings_queued d (other mo d)"
  shows "(\<forall>m' \<in> set (messages (db w')).
      m' \<in> set (messages (db w)) \<or> queued m' \<or> (\<exists>m. queued m \<and> settled_row m m')) \<and>
    (\<forall>m' \<in> set (messages (db w')). msg_status m' = Sending \<longrightarrow> m' \<in> set (messages (db w))) \<and>
    (case r of Inr _ \<Rightarrow> True
     | Inl x \<Rightarrow> (\<exists>msg. x = ModemConnectionError msg) \<or>
         x \<in> {StaleDataError, ObjectDeletedError} \<and> (\<exists>mo d. \<not> keeps_rows d (other mo d)))"
proof -
  have dist: "ids_distinct (db w)" using assms(2) by (simp add: ids_distinct_def)
  note rows = process_outbox_rows [OF assms(3) dist assms(1)]
  have "m' \<in> set (messages (db w))" if "m' \<in> set (messages (db w'))" "msg_status m' = Sending" for m'
    using rows [OF that(1)] that(2) settled_row_status by (fastforce simp: turned_row_def queued_def)
  moreover have "case r of Inr _ \<Rightarrow> True | Inl x \<Rightarrow> (\<exists>msg. x = ModemConnectionError msg) \<or>
         x \<in> {StaleDataError, ObjectDeletedError} \<and> (\<exists>mo d. \<not> keeps_rows d (other mo d))"
  proof (cases "\<forall>mo d. keeps_rows d (other mo d)")
    case True
    with process_outbox_settles [OF True dist assms(1)] show ?thesis by (auto split: sum.split)
  next
    case False
    then show ?thesis
      using outbox_loop_error [of other D n "map msg_id (outbox (db w))" b w _ b' w'] assms(1)
      by (auto simp: process_outbox_def split: sum.split)
  qed
  ultimately show ?thesis using rows by (auto simp: turned_row_def)
qed

text \<open>A purge while the modem is sending.\<close>

definition purging :: interference where
  "purging mo d = (case mo of Transmitting k \<Rightarrow> d\<lparr>messages := []\<rparr> | _ \<Rightarrow> d)"

theorem purge_during_send_harmless_witness:
  "\<exists>r b w. process_outbox purging FakeDriver 3 (new_bucket 10 0) (sample_world sample_db (new_fake_driver None)) = (r, b, w) \<and>
     (\<forall>m \<in> set (messages (db w)). msg_status m \<noteq> Sending)"
proof -
  let ?w = "sample_world sample_db (new_fake_driver None)"
  obtain r b w where out: "process_outbox purging FakeDriver 3 (new_bucket 10 0) ?w = (r, b, w)" by (metis prod.exhaust)
  have ids: "distinct (map msg_id (messages (db ?w)))"
    by (simp add: sample_world_def sample_db_def sample_message_def empty_db_def)
  have "\<forall>mo d. brings_queued d (purging mo d)" by (simp add: purging_def brings_queued_def split: moment.split)
  from purge_during_send_harmless [OF out ids this] have
    "\<forall>m \<in> set (messages (db w)). msg_status m = Sending \<longrightarrow> m \<in> set (messages (db ?w))" by blast
  moreover have "\<forall>m \<in> set (messages (db ?w)). msg_status m \<noteq> Sending"
    by (simp add: sample_world_def sample_db_def sample_message_def)
  ultimately show ?thesis using out by blast
qed


text \<open>A modem that answers \<open>ERR_UNKNOWN\<close> where its script says so.\<close>

definition flaky_gammu :: "part list \<Rightarrow> bool list gammu" where
  "flaky_gammu parts = plain_gammu parts (\<lambda>p m.
     (if m \<noteq> [] \<and> hd m then Inl (GSMError (lit ''ERR_UNKNOWN'') []) else Inr (Some 1), [], tl m))"


text \<open>
  The one way a retry still repeats parts: an error that is not a \<open>GSMError\<close>, here a
  \<open>ValueError\<close> for the second part with and without the report field, is neither translated nor
  turned into \<open>PartialSendError\<close>, so the loop sends the whole message again and the recipient
  gets the first part twice.
\<close>

theorem untranslated_error_duplicates:
  "let bad = Inl (GOther (lit ''ValueError'') []);
       out = send_with_retries (GammuDriver 1 (scripted_gammu [sample_part [1], sample_part [2]])) [43] [65] 3 None
         (sample_world empty_db ((new_gammu_driver [Inr (Some 7), bad, bad, Inr (Some 8), Inr (Some 9)])
            \<lparr>gd_loaded := True, gd_sm := True\<rparr>))
   in fst out = Inr \<lparr>sr_segments = 2, sr_reference = Some 9\<rparr> \<and>
      sent_texts (drv (snd out)) = [([43], [1]), ([43], [1]), ([43], [2])]"
  by (simp add: numeral_3_eq_3 call_def GammuDriver_def gammu_send_sms_def scripted_gammu_def
      plain_gammu_def new_gammu_driver_def sample_part_def send_one_def send_part_def gcall_def
      wrap_error_def GAMMU_CONNECTION_ERRORS_def partial_send_def Let_def sample_world_def sent_texts_def)

end
