(* ===== verification/Inbox.thy ===== *)
theory Inbox
  imports Outbox
begin

text \<open>
  The receiving half of \<^verbatim>\<open>gateway/worker/main.py\<close>: \<open>process_inbound\<close> stores the texts of one
  fetch in a transaction of their own, with a webhook delivery for each where a webhook is
  configured, and then applies the delivery reports in a second transaction. \<open>other\<close> is what the
  API process commits meanwhile; in the second transaction that is possible up to the \<open>UPDATE\<close> of the first report
  that finds its message, from then on SQLite's write lock keeps other writers out.
\<close>

section \<open>Delivery reports\<close>

text \<open>\<open>ORDER BY sent_at DESC LIMIT 1\<close>, the first row in insertion order on a tie.\<close>

definition latest_sent :: "message list \<Rightarrow> message option" where
  "latest_sent ms = find (\<lambda>m. list_all (\<lambda>m'. msg_sent_at m' \<le> msg_sent_at m) ms) ms"

definition awaiting_report :: "str \<Rightarrow> message \<Rightarrow> bool" where
  "awaiting_report number m \<longleftrightarrow>
     msg_direction m = Outbound \<and> msg_msisdn m = number \<and> msg_status m = Sent \<and>
     msg_delivered_at m = None"

definition report_target :: "str \<Rightarrow> int option \<Rightarrow> database \<Rightarrow> message option" where
  "report_target number reference d =
     (let ms = filter (awaiting_report number) (messages d)
      in case reference of
           Some ref \<Rightarrow> latest_sent (filter (\<lambda>m. msg_modem_ref m = Some ref) ms)
         | None \<Rightarrow> latest_sent ms)"

definition mark_delivered :: "str \<Rightarrow> message \<Rightarrow> message" where
  "mark_delivered ts m = m\<lparr>msg_status := Delivered, msg_delivered_at := Some ts\<rparr>"

text \<open>The value tells whether a row was written.\<close>

fun apply_delivery_report ::
  "(database \<Rightarrow> database) \<Rightarrow> inbound_event \<Rightarrow> 'd world \<Rightarrow> (exn + bool) \<times> 'd world" where
  "apply_delivery_report other (InboundSMS _ _ _ _) w = (Inr False, w)"
| "apply_delivery_report other (DeliveryReport number reference delivered stamp) w =
     (if \<not> delivered then (Inr False, w)
      else (case report_target number reference (db w) of
              None \<Rightarrow> (Inr False, w)
            | Some m \<Rightarrow>
                (case (if stamp \<noteq> [] then (stamp, w) else utc_now_iso w) of (ts, w1) \<Rightarrow>
                   (case commit_update (msg_id m) (mark_delivered ts) (w1\<lparr>db := other (db w1)\<rparr>) of
                      (Inl x, w2) \<Rightarrow> (Inl x, w2)
                    | (Inr _, w2) \<Rightarrow> (Inr True, w2)))))"

fun apply_reports ::
  "(database \<Rightarrow> database) \<Rightarrow> inbound_event list \<Rightarrow> 'd world \<Rightarrow> (exn + unit) \<times> 'd world" where
  "apply_reports other [] w = (Inr (), w)"
| "apply_reports other (r # rs) w =
     (case apply_delivery_report other r w of
        (Inl x, w') \<Rightarrow> (Inl x, w')
      | (Inr touched, w') \<Rightarrow> apply_reports (if touched then id else other) rs w')"

section \<open>Texts\<close>

definition webhook_configured :: "database \<Rightarrow> bool" where
  "webhook_configured d \<longleftrightarrow> truthy (get_config d WEBHOOK_URL) \<and> truthy (get_config d WEBHOOK_SECRET)"

definition new_delivery :: "str \<Rightarrow> str \<Rightarrow> str \<Rightarrow> delivery" where
  "new_delivery did mid now =
     \<lparr>whd_id = did, whd_message_id = mid, whd_attempt = 0, whd_status = WPending,
      whd_response_code = None, whd_next_retry_at = Some now, whd_delivered_at = None,
      whd_created_at = now\<rparr>"

definition add_pending_delivery :: "str \<Rightarrow> 'd world \<Rightarrow> (exn + unit) \<times> 'd world" where
  "add_pending_delivery mid w =
     (case utc_now_iso w of (now, w1) \<Rightarrow>
        case delivery_id w1 of (did, w2) \<Rightarrow>
          (case add_delivery (new_delivery did mid now) (db w2) of
             Inl x \<Rightarrow> (Inl x, w2)
           | Inr d \<Rightarrow> (Inr (), w2\<lparr>db := d\<rparr>)))"

definition received_message :: "str \<Rightarrow> str \<Rightarrow> str \<Rightarrow> str \<Rightarrow> int \<Rightarrow> str \<Rightarrow> message" where
  "received_message mid number body received segments now =
     \<lparr>msg_id = mid, msg_direction = Inbound, msg_msisdn = number, msg_body = body,
      msg_status = Received, msg_segments = segments, msg_error = None, msg_modem_ref = None,
      msg_created_at = now, msg_sent_at = None, msg_delivered_at = None,
      msg_received_at = Some received\<rparr>"

fun store_text :: "bool \<Rightarrow> inbound_event \<Rightarrow> 'd world \<Rightarrow> (exn + unit) \<times> 'd world" where
  "store_text configured (DeliveryReport _ _ _ _) w = (Inr (), w)"
| "store_text configured (InboundSMS number body received segments) w =
     (case message_id w of (mid, w1) \<Rightarrow>
        case utc_now_iso w1 of (now, w2) \<Rightarrow>
          (case add_message (received_message mid number body received segments now) (db w2) of
             Inl x \<Rightarrow> (Inl x, w2)
           | Inr d \<Rightarrow>
               if configured then add_pending_delivery mid (w2\<lparr>db := d\<rparr>)
               else (Inr (), w2\<lparr>db := d\<rparr>)))"

fun store_texts :: "bool \<Rightarrow> inbound_event list \<Rightarrow> 'd world \<Rightarrow> (exn + unit) \<times> 'd world" where
  "store_texts configured [] w = (Inr (), w)"
| "store_texts configured (t # ts) w =
     (case store_text configured t w of
        (Inl x, w') \<Rightarrow> (Inl x, w')
      | (Inr _, w') \<Rightarrow> store_texts configured ts w')"

fun is_text :: "inbound_event \<Rightarrow> bool" where
  "is_text (InboundSMS _ _ _ _) = True"
| "is_text (DeliveryReport _ _ _ _) = False"

section \<open>One round\<close>

definition process_inbound ::
  "interference \<Rightarrow> 'd modem_driver \<Rightarrow> 'd world \<Rightarrow> (exn + unit) \<times> 'd world" where
  "process_inbound other D w =
     (case call (dv_fetch_inbound D) w of
        (Inl x, w1) \<Rightarrow> (Inl x, w1)
      | (Inr evs, w1) \<Rightarrow>
          if evs = [] then (Inr (), w1)
          else (case store_texts (webhook_configured (db w1)) (filter is_text evs) (meanwhile (other Storing) w1) of
                  (Inl x, w2) \<Rightarrow> (Inl x, w2\<lparr>db := other Storing (db w1)\<rparr>)
                | (Inr _, w2) \<Rightarrow>
                    (let reports = filter (\<lambda>e. \<not> is_text e) evs
                     in if reports = [] then (Inr (), w2)
                        else (case apply_reports (other Reporting) reports (meanwhile (other Matching) w2) of
                                (Inl x, w3) \<Rightarrow> (if x = StaleDataError then Inr () else Inl x, w3)
                              | (Inr _, w3) \<Rightarrow> (Inr (), w3)))))"

section \<open>Which message a report reaches\<close>

lemma latest_sent_SomeD:
  "latest_sent ms = Some m \<Longrightarrow> m \<in> set ms \<and> (\<forall>m' \<in> set ms. msg_sent_at m' \<le> msg_sent_at m)"
  by (auto simp: latest_sent_def list_all_iff find_Some_iff)

lemma latest_sent_None_iff: "latest_sent ms = None \<longleftrightarrow> ms = []"
proof
  assume none: "latest_sent ms = None"
  show "ms = []"
  proof (rule ccontr)
    assume "ms \<noteq> []"
    then have "Max (msg_sent_at ` set ms) \<in> msg_sent_at ` set ms" by (intro Max_in) auto
    then obtain m where "m \<in> set ms" "msg_sent_at m = Max (msg_sent_at ` set ms)" by auto
    moreover from this have "list_all (\<lambda>m'. msg_sent_at m' \<le> msg_sent_at m) ms"
      by (simp add: list_all_iff)
    ultimately show False using none by (auto simp: latest_sent_def find_None_iff)
  qed
qed (simp add: latest_sent_def)

definition report_matches :: "str \<Rightarrow> int option \<Rightarrow> message \<Rightarrow> bool" where
  "report_matches number reference m \<longleftrightarrow>
     awaiting_report number m \<and> (reference = None \<or> msg_modem_ref m = reference)"

lemma report_target_eq:
  "report_target number reference d = latest_sent (filter (report_matches number reference) (messages d))"
  by (cases reference)
    (auto simp: report_target_def report_matches_def Let_def intro!: arg_cong [where f = latest_sent]
      filter_cong)

lemma report_target_SomeD:
  assumes "report_target number reference d = Some m"
  shows "m \<in> set (messages d)" "report_matches number reference m"
    "\<And>m'. \<lbrakk>m' \<in> set (messages d); report_matches number reference m'\<rbrakk> \<Longrightarrow> msg_sent_at m' \<le> msg_sent_at m"
  using latest_sent_SomeD [OF assms [unfolded report_target_eq]] by auto

lemma report_target_None_iff:
  "report_target number reference d = None \<longleftrightarrow> (\<forall>m \<in> set (messages d). \<not> report_matches number reference m)"
  by (auto simp: report_target_eq latest_sent_None_iff filter_empty_conv)

section \<open>Storing the texts\<close>

text \<open>The identifiers still to be drawn are distinct and name no row yet.\<close>

definition fresh_ids :: "'d world \<Rightarrow> bool" where
  "fresh_ids w \<longleftrightarrow>
     (\<forall>i j. tick (env w) \<le> i \<and> i < j \<longrightarrow> ulid (env w) i \<noteq> ulid (env w) j) \<and>
     (\<forall>i \<ge> tick (env w). get_message (db w) (lit ''msg'' @ lit ''_'' @ ulid (env w) i) = None \<and>
        get_delivery (db w) (lit ''whd'' @ lit ''_'' @ ulid (env w) i) = None)"

lemma fresh_ids_call: "fresh_ids w \<Longrightarrow> fresh_ids (snd (call m w))"
  unfolding fresh_ids_def call_tapes(2) call_db using call_tapes(4) [of w m] by (meson le_trans)

lemma get_message_append:
  "get_message (d\<lparr>messages := messages d @ [m]\<rparr>) k =
     (case get_message d k of Some r \<Rightarrow> Some r | None \<Rightarrow> if msg_id m = k then Some m else None)"
  by (simp add: get_message_def find_row_append split: option.split)

lemma get_delivery_append:
  "get_delivery (d\<lparr>deliveries := deliveries d @ [r]\<rparr>) k =
     (case get_delivery d k of Some x \<Rightarrow> Some x | None \<Rightarrow> if whd_id r = k then Some r else None)"
  by (simp add: get_delivery_def find_row_append split: option.split)

lemma get_other_table [simp]:
  "get_message (d\<lparr>deliveries := x\<rparr>) k = get_message d k"
  "get_delivery (d\<lparr>messages := y\<rparr>) k = get_delivery d k"
  by (simp_all add: get_message_def get_delivery_def)

lemma get_delivery_None_iff: "get_delivery d k = None \<longleftrightarrow> k \<notin> whd_id ` set (deliveries d)"
  by (simp add: get_delivery_def find_row_None_iff)

text \<open>Rows under identifiers drawn meanwhile leave the coming ones fresh.\<close>

lemma fresh_ids_added:
  assumes "fresh_ids w" and "ulid (env w') = ulid (env w)" and "tick (env w) \<le> tick (env w')"
    and "\<And>m. m \<in> set (messages (db w')) \<Longrightarrow> m \<in> set (messages (db w)) \<or>
      (\<exists>i. tick (env w) \<le> i \<and> i < tick (env w') \<and> msg_id m = lit ''msg'' @ lit ''_'' @ ulid (env w) i)"
    and "\<And>r. r \<in> set (deliveries (db w')) \<Longrightarrow> r \<in> set (deliveries (db w)) \<or>
      (\<exists>i. tick (env w) \<le> i \<and> i < tick (env w') \<and> whd_id r = lit ''whd'' @ lit ''_'' @ ulid (env w) i)"
  shows "fresh_ids w'"
  unfolding fresh_ids_def assms(2)
proof (intro conjI allI impI)
  have dist: "\<And>i j. tick (env w) \<le> i \<Longrightarrow> i < j \<Longrightarrow> ulid (env w) i \<noteq> ulid (env w) j"
    and old: "\<And>i. tick (env w) \<le> i \<Longrightarrow> get_message (db w) (lit ''msg'' @ lit ''_'' @ ulid (env w) i) = None"
      "\<And>i. tick (env w) \<le> i \<Longrightarrow> get_delivery (db w) (lit ''whd'' @ lit ''_'' @ ulid (env w) i) = None"
    using assms(1) by (auto simp: fresh_ids_def)
  have later: "tick (env w) \<le> i" if "tick (env w') \<le> i" for i using that assms(3) by simp
  show "ulid (env w) i \<noteq> ulid (env w) j" if "tick (env w') \<le> i \<and> i < j" for i j
    using that dist later by blast
  show "get_message (db w') (lit ''msg'' @ lit ''_'' @ ulid (env w) i) = None"
    if i: "tick (env w') \<le> i" for i
    unfolding get_message_None_iff
  proof
    assume "lit ''msg'' @ lit ''_'' @ ulid (env w) i \<in> msg_id ` set (messages (db w'))"
    then obtain m where m: "m \<in> set (messages (db w'))" "msg_id m = lit ''msg'' @ lit ''_'' @ ulid (env w) i"
      by auto
    from assms(4) [OF m(1)] show False
    proof (elim disjE exE conjE)
      assume "m \<in> set (messages (db w))"
      then show False using old(1) [OF later [OF i]] m(2) by (metis get_message_None_iff image_eqI)
    next
      fix j assume "tick (env w) \<le> j" "j < tick (env w')" "msg_id m = lit ''msg'' @ lit ''_'' @ ulid (env w) j"
      then show False using dist [of j i] i m(2) by simp
    qed
  qed
  show "get_delivery (db w') (lit ''whd'' @ lit ''_'' @ ulid (env w) i) = None"
    if i: "tick (env w') \<le> i" for i
    unfolding get_delivery_None_iff
  proof
    assume "lit ''whd'' @ lit ''_'' @ ulid (env w) i \<in> whd_id ` set (deliveries (db w'))"
    then obtain m where m: "m \<in> set (deliveries (db w'))" "whd_id m = lit ''whd'' @ lit ''_'' @ ulid (env w) i"
      by auto
    from assms(5) [OF m(1)] show False
    proof (elim disjE exE conjE)
      assume "m \<in> set (deliveries (db w))"
      then show False using old(2) [OF later [OF i]] m(2) by (metis get_delivery_None_iff image_eqI)
    next
      fix j assume "tick (env w) \<le> j" "j < tick (env w')" "whd_id m = lit ''whd'' @ lit ''_'' @ ulid (env w) j"
      then show False using dist [of j i] i m(2) by simp
    qed
  qed
qed

text \<open>The rows that one text adds.\<close>

definition added_for :: "inbound_event \<Rightarrow> message \<Rightarrow> bool" where
  "added_for e m \<longleftrightarrow> msg_direction m = Inbound \<and> msg_status m = Received \<and>
     e = InboundSMS (msg_msisdn m) (msg_body m) (the (msg_received_at m)) (msg_segments m)"

definition pending_for :: "message \<Rightarrow> delivery \<Rightarrow> bool" where
  "pending_for m r \<longleftrightarrow> whd_message_id r = msg_id m \<and> whd_status r = WPending \<and> whd_attempt r = 0 \<and>
     whd_next_retry_at r = Some (whd_created_at r)"

lemma store_text_adds:
  assumes fresh: "fresh_ids w" and it: "is_text e"
  shows "\<exists>m ds w'. store_text configured e w = (Inr (), w') \<and> fresh_ids w' \<and> drv w' = drv w \<and>
    added_for e m \<and> list_all2 pending_for (if configured then [m] else []) ds \<and>
    (ids_distinct (db w) \<longrightarrow> ids_distinct (db w')) \<and>
    db w' = (db w)\<lparr>messages := messages (db w) @ [m], deliveries := deliveries (db w) @ ds\<rparr>"
proof -
  obtain number body received segments where e: "e = InboundSMS number body received segments"
    using it by (cases e) auto
  let ?t = "tick (env w)"
  let ?mid = "\<lambda>i. lit ''msg'' @ lit ''_'' @ ulid (env w) i"
  let ?did = "\<lambda>i. lit ''whd'' @ lit ''_'' @ ulid (env w) i"
  let ?m = "received_message (?mid ?t) number body received segments (iso (wall (env w) (Suc ?t)))"
  let ?w2 = "(advance 2 w)\<lparr>db := (db w)\<lparr>messages := messages (db w) @ [?m]\<rparr>\<rparr>"
  have new: "\<And>i. ?t \<le> i \<Longrightarrow> get_message (db w) (?mid i) = None \<and> get_delivery (db w) (?did i) = None"
    and dist: "\<And>i j. ?t \<le> i \<Longrightarrow> i < j \<Longrightarrow> ulid (env w) i \<noteq> ulid (env w) j"
    using fresh by (auto simp: fresh_ids_def)
  have add: "add_message ?m (db w) = Inr ((db w)\<lparr>messages := messages (db w) @ [?m]\<rparr>)"
    using new [of ?t] by (simp add: add_message_Inr received_message_def)
  have adv: "advance (Suc 0) (advance (Suc 0) w) = advance 2 w" by (simp add: advance_def)
  have step: "store_text configured e w =
    (if configured then add_pending_delivery (?mid ?t) ?w2 else (Inr (), ?w2))"
    using add by (simp add: e message_id_def new_id_def utc_now_iso_def adv)
  have fresh2: "fresh_ids ?w2"
    by (rule fresh_ids_added [OF fresh]) (auto simp: received_message_def intro!: exI [of _ ?t])
  have ids: "ids_distinct (d\<lparr>messages := messages (db w) @ [?m]\<rparr>)" if "ids_distinct (db w)" for d :: database
    using that new [of ?t] by (auto simp: ids_distinct_def get_message_None_iff received_message_def)
  have m: "added_for e ?m" by (simp add: added_for_def e received_message_def)
  show ?thesis
  proof (cases configured)
    case False
    then show ?thesis
      using step fresh2 m ids by (intro exI [of _ ?m] exI [of _ "[]"] exI [of _ ?w2]) (simp add: advance_def)
  next
    case True
    let ?r = "new_delivery (?did (?t + 3)) (?mid ?t) (iso (wall (env w) (?t + 2)))"
    let ?w3 = "(advance 4 w)\<lparr>db := (db w)\<lparr>messages := messages (db w) @ [?m], deliveries := deliveries (db w) @ [?r]\<rparr>\<rparr>"
    have "get_message (db ?w2) (?mid ?t) \<noteq> None"
      by (simp add: get_message_append received_message_def split: option.split)
    moreover have "get_delivery (db ?w2) (?did (?t + 3)) = None" using new [of "?t + 3"] by simp
    ultimately have "add_delivery ?r (db ?w2) = Inr ((db ?w2)\<lparr>deliveries := deliveries (db ?w2) @ [?r]\<rparr>)"
      by (simp add: add_delivery_Inr new_delivery_def)
    moreover have "advance (Suc 0) (advance (Suc 0) ?w2) = (advance 4 w)\<lparr>db := db ?w2\<rparr>"
      by (simp add: advance_def)
    ultimately have "add_pending_delivery (?mid ?t) ?w2 = (Inr (), ?w3)"
      by (simp add: add_pending_delivery_def utc_now_iso_def delivery_id_def new_id_def add.commute
          eval_nat_numeral advance_def)
    moreover have "fresh_ids ?w3"
      by (rule fresh_ids_added [OF fresh])
        (auto simp: received_message_def new_delivery_def intro: exI [of _ ?t] exI [of _ "?t + 3"])
    moreover have "pending_for ?m ?r" by (simp add: pending_for_def new_delivery_def received_message_def)
    ultimately show ?thesis
      using step True m ids
      by (intro exI [of _ ?m] exI [of _ "[?r]"] exI [of _ ?w3]) (simp add: advance_def ids_distinct_def)
  qed
qed

lemma store_texts_add:
  assumes "fresh_ids w" and "list_all is_text evs"
  shows "\<exists>ms ds w'. store_texts configured evs w = (Inr (), w') \<and> drv w' = drv w \<and>
    list_all2 added_for evs ms \<and> list_all2 pending_for (if configured then ms else []) ds \<and>
    (ids_distinct (db w) \<longrightarrow> ids_distinct (db w')) \<and>
    db w' = (db w)\<lparr>messages := messages (db w) @ ms, deliveries := deliveries (db w) @ ds\<rparr>"
  using assms
proof (induction evs arbitrary: w)
  case (Cons e evs)
  have it: "is_text e" using Cons.prems(2) by simp
  obtain m ds w1 where 1: "store_text configured e w = (Inr (), w1)" "fresh_ids w1" "drv w1 = drv w"
    "added_for e m" "list_all2 pending_for (if configured then [m] else []) ds"
    "ids_distinct (db w) \<longrightarrow> ids_distinct (db w1)"
    "db w1 = (db w)\<lparr>messages := messages (db w) @ [m], deliveries := deliveries (db w) @ ds\<rparr>"
    using store_text_adds [OF Cons.prems(1) it, of configured] by (elim exE conjE) (rule that)
  obtain ms ds' w2 where 2: "store_texts configured evs w1 = (Inr (), w2)" "drv w2 = drv w1"
    "list_all2 added_for evs ms" "list_all2 pending_for (if configured then ms else []) ds'"
    "ids_distinct (db w1) \<longrightarrow> ids_distinct (db w2)"
    "db w2 = (db w1)\<lparr>messages := messages (db w1) @ ms, deliveries := deliveries (db w1) @ ds'\<rparr>"
    using Cons.IH [OF 1(2)] Cons.prems(2) by auto
  have "list_all2 pending_for (if configured then m # ms else []) (ds @ ds')"
    using 1(5) 2(4) by (auto split: if_splits simp: list_all2_Cons1)
  then show ?case
    using 1 2 by (intro exI [of _ "m # ms"] exI [of _ "ds @ ds'"] exI [of _ w2]) simp
qed (auto intro: exI [of _ "[]"])

section \<open>Reports change one outbound row at most\<close>

lemma apply_delivery_report_cases:
  assumes "apply_delivery_report other r w = (q, w')"
  shows "q = Inr False \<and> w' = w \<or>
    q = Inl StaleDataError \<and> db w' = other (db w) \<and> drv w' = drv w \<or>
    q = Inr True \<and> drv w' = drv w \<and>
      (\<exists>m ts. m \<in> set (messages (db w)) \<and> msg_direction m = Outbound \<and> msg_status m = Sent \<and>
         db w' = with_message (msg_id m) (mark_delivered ts) (other (db w)))"
proof (cases r)
  case (DeliveryReport number reference delivered stamp)
  show ?thesis
  proof (cases "delivered \<and> report_target number reference (db w) \<noteq> None")
    case True
    then obtain m where m: "report_target number reference (db w) = Some m" "delivered" by auto
    obtain ts w1 where w1: "(if stamp \<noteq> [] then (stamp, w) else utc_now_iso w) = (ts, w1)"
      "db w1 = db w" "drv w1 = drv w"
      by (cases "stamp = []") (auto simp: utc_now_iso_def)
    have row: "m \<in> set (messages (db w))" "msg_direction m = Outbound" "msg_status m = Sent"
      using report_target_SomeD(1,2) [OF m(1)] by (auto simp: report_matches_def awaiting_report_def)
    moreover have step: "(q, w') = (case commit_update (msg_id m) (mark_delivered ts) (w1\<lparr>db := other (db w)\<rparr>) of
        (Inl x, w2) \<Rightarrow> (Inl x, w2) | (Inr _, w2) \<Rightarrow> (Inr True, w2))"
      using assms m w1 by (simp add: DeliveryReport)
    ultimately show ?thesis
    proof (cases "get_message (other (db w)) (msg_id m)")
      case None
      then have "update_message (msg_id m) (mark_delivered ts) (other (db w)) = Inl StaleDataError"
        by (simp add: msg.update_fails)
      then show ?thesis using step w1 by (simp add: commit_update_def)
    next
      case (Some _)
      then have "commit_update (msg_id m) (mark_delivered ts) (w1\<lparr>db := other (db w)\<rparr>) =
          (Inr (), w1\<lparr>db := with_message (msg_id m) (mark_delivered ts) (other (db w))\<rparr>)"
        using commit_update_present [of "w1\<lparr>db := other (db w)\<rparr>" "msg_id m"] by simp
      then have "q = Inr True" "drv w' = drv w"
        "db w' = with_message (msg_id m) (mark_delivered ts) (other (db w))"
        using step w1 by simp_all
      then show ?thesis
        using row by blast
    qed
  next
    case False
    then show ?thesis using assms by (cases delivered) (auto simp: DeliveryReport)
  qed
qed (use assms in auto)

text \<open>What concurrent commits may do: they keep the identifiers distinct.\<close>

definition keeps_ids :: "(database \<Rightarrow> database) \<Rightarrow> bool" where
  "keeps_ids other \<longleftrightarrow> (\<forall>d. ids_distinct d \<longrightarrow> ids_distinct (other d))"

definition keeps_message :: "(database \<Rightarrow> database) \<Rightarrow> message \<Rightarrow> bool" where
  "keeps_message other m \<longleftrightarrow> (\<forall>d. m \<in> set (messages d) \<longrightarrow> m \<in> set (messages (other d)))"

definition keeps_delivery :: "(database \<Rightarrow> database) \<Rightarrow> delivery \<Rightarrow> bool" where
  "keeps_delivery other r \<longleftrightarrow> (\<forall>d. r \<in> set (deliveries d) \<longrightarrow> r \<in> set (deliveries (other d)))"

lemma with_message_other_row:
  "m \<in> set (messages d) \<Longrightarrow> msg_id m \<noteq> k \<Longrightarrow> m \<in> set (messages (with_message k f d))"
  by (force simp: with_message_def)

lemma with_message_deliveries [simp]: "deliveries (with_message k f d) = deliveries d"
  by (simp add: with_message_def)

lemma mark_delivered_id [simp]: "msg_id (mark_delivered ts m) = msg_id m"
  by (simp add: mark_delivered_def)

lemma apply_reports_keep:
  assumes "apply_reports other rs w = (q, w')" and "ids_distinct (db w)" and "keeps_ids other"
  shows "q = Inr () \<or> q = Inl StaleDataError"
    and "\<lbrakk>m \<in> set (messages (db w)); msg_direction m = Inbound; keeps_message other m\<rbrakk>
      \<Longrightarrow> m \<in> set (messages (db w'))"
    and "\<lbrakk>d \<in> set (deliveries (db w)); keeps_delivery other d\<rbrakk> \<Longrightarrow> d \<in> set (deliveries (db w'))"
proof -
  have "(q = Inr () \<or> q = Inl StaleDataError) \<and>
    (m \<in> set (messages (db w)) \<and> msg_direction m = Inbound \<and> keeps_message other m \<longrightarrow>
       m \<in> set (messages (db w'))) \<and>
    (d \<in> set (deliveries (db w)) \<and> keeps_delivery other d \<longrightarrow> d \<in> set (deliveries (db w')))"
    using assms
  proof (induction rs arbitrary: other w)
    case (Cons r rs)
    obtain p w1 where p: "apply_delivery_report other r w = (p, w1)" by (metis prod.exhaust)
    have ids: "ids_distinct (other (db w))" using Cons.prems by (simp add: keeps_ids_def)
    from apply_delivery_report_cases [OF p] consider
        (same) "p = Inr False" "w1 = w"
      | (stale) "p = Inl StaleDataError" "db w1 = other (db w)"
      | (written) n ts where "p = Inr True" "n \<in> set (messages (db w))" "msg_direction n = Outbound"
          "db w1 = with_message (msg_id n) (mark_delivered ts) (other (db w))"
      by blast
    then show ?case
    proof cases
      case same
      then show ?thesis using Cons.prems Cons.IH [of other w] p by simp
    next
      case stale
      then show ?thesis
        using Cons.prems p by (auto simp: keeps_message_def keeps_delivery_def)
    next
      case written
      have "apply_reports id rs w1 = (q, w')" using Cons.prems(1) p written(1) by simp
      moreover have "ids_distinct (db w1)" using ids by (simp add: written(4))
      moreover have "keeps_ids id" "keeps_message id m" "keeps_delivery id d"
        by (simp_all add: keeps_ids_def keeps_message_def keeps_delivery_def)
      moreover have "m \<in> set (messages (db w1))"
        if m: "m \<in> set (messages (db w))" "msg_direction m = Inbound" "keeps_message other m"
      proof -
        have "m \<noteq> n" using m(2) written(3) by auto
        then have "msg_id m \<noteq> msg_id n"
          using m(1) written(2) Cons.prems(2) by (auto simp: ids_distinct_def distinct_map inj_on_def)
        then show ?thesis using m(1,3) by (simp add: written(4) keeps_message_def with_message_other_row)
      qed
      moreover have "d \<in> set (deliveries (db w1))"
        if "d \<in> set (deliveries (db w))" "keeps_delivery other d"
        using that by (simp add: written(4) keeps_delivery_def)
      ultimately show ?thesis using Cons.IH [of id w1] by blast
    qed
  qed auto
  then show "q = Inr () \<or> q = Inl StaleDataError"
    and "\<lbrakk>m \<in> set (messages (db w)); msg_direction m = Inbound; keeps_message other m\<rbrakk>
      \<Longrightarrow> m \<in> set (messages (db w'))"
    and "\<lbrakk>d \<in> set (deliveries (db w)); keeps_delivery other d\<rbrakk> \<Longrightarrow> d \<in> set (deliveries (db w'))"
    by blast+
qed

text \<open>What a round consists of: nothing but the fetch, or the texts and then the reports.\<close>

lemma process_inbound_parts:
  assumes "process_inbound other D w = (r, w')"
  obtains (idle) q where "call (dv_fetch_inbound D) w = (q, w')" and "db w' = db w"
    | (ran) evs w1 p w2 q w3 where "call (dv_fetch_inbound D) w = (Inr evs, w1)" and "db w1 = db w"
        and "store_texts (webhook_configured (db w)) (filter is_text evs) (meanwhile (other Storing) w1) = (p, w2)"
        and "apply_reports (other Reporting) (filter (\<lambda>e. \<not> is_text e) evs) (meanwhile (other Matching) w2) = (q, w3)"
        and "w' \<in> {w2\<lparr>db := other Storing (db w)\<rparr>, w2, w3}"
proof -
  obtain q w1 where q: "call (dv_fetch_inbound D) w = (q, w1)" by (metis prod.exhaust)
  have db1: "db w1 = db w" using call_db [of "dv_fetch_inbound D" w] q by simp
  consider x where "q = Inl x" | "q = Inr []" | evs where "q = Inr evs" "evs \<noteq> []" by (cases q) auto
  then show thesis
  proof cases
    case (3 evs)
    obtain p w2 where p: "store_texts (webhook_configured (db w)) (filter is_text evs) (meanwhile (other Storing) w1) = (p, w2)"
      by (metis prod.exhaust)
    obtain s w3 where s: "apply_reports (other Reporting) (filter (\<lambda>e. \<not> is_text e) evs) (meanwhile (other Matching) w2) = (s, w3)"
      by (metis prod.exhaust)
    have "w' \<in> {w2\<lparr>db := other Storing (db w)\<rparr>, w2, w3}"
      using assms q db1 3 p s by (auto simp: process_inbound_def Let_def split: sum.splits if_splits)
    with ran [OF _ db1 p s] q 3(1) show thesis by simp
  qed (use assms q db1 idle in \<open>auto simp: process_inbound_def\<close>)
qed

section \<open>Properties\<close>

text \<open>
  C30. Received texts are never lost and announced exactly once: whenever the driver hands over
  events, the round succeeds, every text becomes one new inbound row with its sender, body,
  timestamp and segments, in order, and exactly one pending webhook delivery if (and only if) a
  webhook is configured; whatever the delivery reports of the same fetch do, and whatever the API
  process commits meanwhile, each row that process does not delete itself is still there. The settings that count are
  those at the beginning of the transaction.
\<close>

theorem inbound_texts_stored:
  assumes fetch: "call (dv_fetch_inbound D) w = (Inr evs, w1)"
    and fresh: "fresh_ids (meanwhile (other Storing) w)" and ids: "ids_distinct (other Storing (db w))"
    and other: "\<forall>mo. keeps_ids (other mo)"
  shows "\<exists>ms ds w'. process_inbound other D w = (Inr (), w') \<and>
    list_all2 added_for (filter is_text evs) ms \<and>
    list_all2 pending_for (if webhook_configured (db w) then ms else []) ds \<and>
    (\<forall>m \<in> set ms. (\<forall>mo. keeps_message (other mo) m) \<longrightarrow> m \<in> set (messages (db w'))) \<and>
    (\<forall>d \<in> set ds. (\<forall>mo. keeps_delivery (other mo) d) \<longrightarrow> d \<in> set (deliveries (db w'))) \<and>
    (list_all is_text evs \<longrightarrow> db w' = (if evs = [] then db w else (other Storing (db w))
       \<lparr>messages := messages (other Storing (db w)) @ ms, deliveries := deliveries (other Storing (db w)) @ ds\<rparr>))"
proof (cases "evs = []")
  case True
  have "db w1 = db w" using call_db [of "dv_fetch_inbound D" w] fetch by simp
  then show ?thesis using fetch True by (simp add: process_inbound_def)
next
  case some: False
  let ?texts = "filter is_text evs" and ?reports = "filter (\<lambda>e. \<not> is_text e) evs"
  let ?d = "other Storing (db w)"
  have db1: "db w1 = db w" using call_db [of "dv_fetch_inbound D" w] fetch by simp
  have "meanwhile (other Storing) w1 = snd (call (dv_fetch_inbound D) (meanwhile (other Storing) w))"
    using fetch by (auto simp: call_def meanwhile_def advance_def split: prod.splits)
  then have fresh1: "fresh_ids (meanwhile (other Storing) w1)"
    using fresh_ids_call [OF fresh, of "dv_fetch_inbound D"] by simp
  have texts: "list_all is_text ?texts" by (simp add: list_all_iff)
  obtain ms ds w2 where w2: "store_texts (webhook_configured (db w)) ?texts (meanwhile (other Storing) w1) = (Inr (), w2)"
    "list_all2 added_for ?texts ms" "list_all2 pending_for (if webhook_configured (db w) then ms else []) ds"
    "ids_distinct ?d \<longrightarrow> ids_distinct (db w2)"
    "db w2 = ?d\<lparr>messages := messages ?d @ ms, deliveries := deliveries ?d @ ds\<rparr>"
    using store_texts_add [OF fresh1 texts] db1 by (metis meanwhile_frame(1))
  have inbound: "msg_direction m = Inbound" if "m \<in> set ms" for m
    using that w2(2) by (auto simp: added_for_def in_set_conv_nth list_all2_conv_all_nth)
  have no_reports: "list_all is_text evs \<longleftrightarrow> ?reports = []" by (simp add: list_all_iff filter_empty_conv)
  show ?thesis
  proof (cases "?reports = []")
    case True
    have "process_inbound other D w = (Inr (), w2)"
      using fetch w2(1) db1 True some by (simp add: process_inbound_def Let_def)
    then show ?thesis using w2 some by (intro exI [of _ ms] exI [of _ ds]) auto
  next
    case False
    let ?w2 = "meanwhile (other Matching) w2"
    have ids2: "ids_distinct (db ?w2)" using w2(4) ids other by (simp add: keeps_ids_def)
    obtain q w3 where w3: "apply_reports (other Reporting) ?reports ?w2 = (q, w3)" by (metis prod.exhaust)
    note keep = apply_reports_keep [OF w3 ids2 spec [OF other]]
    have "process_inbound other D w = (Inr (), w3)"
      using fetch w2(1) db1 w3 False some keep(1) by (auto simp: process_inbound_def Let_def)
    moreover have "m \<in> set (messages (db w3))" if "m \<in> set ms" "\<forall>mo. keeps_message (other mo) m" for m
      using keep(2) that inbound by (simp add: w2(5) keeps_message_def)
    moreover have "d \<in> set (deliveries (db w3))" if "d \<in> set ds" "\<forall>mo. keeps_delivery (other mo) d" for d
      using keep(3) that by (simp add: w2(5) keeps_delivery_def)
    ultimately show ?thesis
      using w2(2,3) False no_reports by (intro exI [of _ ms] exI [of _ ds] exI [of _ w3]) auto
  qed
qed

theorem inbound_texts_stored_witness:
  "\<exists>ms w'. process_inbound undisturbed FakeDriver
      (sample_world empty_db (new_fake_driver (Some [FText (Some [43]) (Some [72]) None None])))
      = (Inr (), w') \<and> map msg_body ms = [[72]] \<and> messages (db w') = ms"
proof -
  let ?w = "sample_world empty_db (new_fake_driver (Some [FText (Some [43]) (Some [72]) None None]))"
  let ?ts = "iso (wall sample_env 0)"
  obtain w1 where fetch: "call (dv_fetch_inbound FakeDriver) ?w = (Inr [InboundSMS [43] [72] ?ts 1], w1)"
    by (simp add: call_def FakeDriver_def fake_fetch_inbound_def sample_world_def new_fake_driver_def
        or_now_def sample_env_def)
  have fresh: "fresh_ids (meanwhile (undisturbed Storing) ?w)" "ids_distinct (undisturbed Storing (db ?w))"
    "\<forall>mo. keeps_ids (undisturbed mo)"
    by (auto simp: undisturbed_apply fresh_ids_def sample_world_def sample_env_def empty_db_def get_message_def
        get_delivery_def ids_distinct_def keeps_ids_def nat_str_inject)
  from inbound_texts_stored [OF fetch fresh] obtain ms ds w' where
    "process_inbound undisturbed FakeDriver ?w = (Inr (), w')" "list_all2 added_for [InboundSMS [43] [72] ?ts 1] ms"
    "db w' = (db ?w)\<lparr>messages := messages (db ?w) @ ms, deliveries := deliveries (db ?w) @ ds\<rparr>"
    by (auto simp: undisturbed_apply)
  then show ?thesis
    by (intro exI [of _ ms] exI [of _ w'])
      (auto simp: list_all2_Cons1 added_for_def sample_world_def empty_db_def)
qed

text \<open>
  C32. A delivery report reaches the right message or none: it changes nothing unless it reports a
  delivery and some sent, unreported outbound message to that number carries its reference (any,
  if the report has none); then exactly one such row, the one sent last, becomes \<open>Delivered\<close>, with
  the report's timestamp, and every other row stays as it was.
\<close>

theorem delivery_report_effect:
  assumes "ids_distinct (db w)"
    and "apply_delivery_report id (DeliveryReport number reference delivered stamp) w = (q, w')"
  shows "(q = Inr False \<and> w' = w \<and>
      (delivered \<longrightarrow> (\<forall>m \<in> set (messages (db w)). \<not> report_matches number reference m))) \<or>
    (\<exists>m ts. q = Inr True \<and> delivered \<and> (stamp \<noteq> [] \<longrightarrow> ts = stamp) \<and>
      m \<in> set (messages (db w)) \<and> report_matches number reference m \<and>
      (\<forall>m' \<in> set (messages (db w)). report_matches number reference m' \<longrightarrow> msg_sent_at m' \<le> msg_sent_at m) \<and>
      get_message (db w') (msg_id m) = Some (m\<lparr>msg_status := Delivered, msg_delivered_at := Some ts\<rparr>) \<and>
      (\<forall>m' \<in> set (messages (db w)). m' \<noteq> m \<longrightarrow> get_message (db w') (msg_id m') = Some m'))"
proof (cases "delivered \<and> report_target number reference (db w) \<noteq> None")
  case True
  then obtain m where m: "report_target number reference (db w) = Some m" "delivered" by auto
  note target = report_target_SomeD [OF m(1)]
  have dist: "distinct (map msg_id (messages (db w)))" using assms(1) by (simp add: ids_distinct_def)
  note here = get_message_in [OF dist target(1)]
  obtain ts w1 where w1: "(if stamp \<noteq> [] then (stamp, w) else utc_now_iso w) = (ts, w1)"
    "db w1 = db w" "stamp \<noteq> [] \<longrightarrow> ts = stamp"
    by (cases "stamp = []") (auto simp: utc_now_iso_def)
  have "commit_update (msg_id m) (mark_delivered ts) w1 =
      (Inr (), w1\<lparr>db := with_message (msg_id m) (mark_delivered ts) (db w)\<rparr>)"
    using commit_update_present [of w1 "msg_id m"] here w1(2) by simp
  then have q: "q = Inr True" and db: "db w' = with_message (msg_id m) (mark_delivered ts) (db w)"
    using assms(2) m w1(1,2) by (auto simp: split: if_splits)
  have "get_message (db w') (msg_id m) = Some (m\<lparr>msg_status := Delivered, msg_delivered_at := Some ts\<rparr>)"
    using here by (simp add: db get_with_message mark_delivered_def)
  moreover have "get_message (db w') (msg_id m') = Some m'"
    if "m' \<in> set (messages (db w))" "m' \<noteq> m" for m'
  proof -
    have "msg_id m' \<noteq> msg_id m" using that target(1) dist by (auto simp: distinct_map inj_on_def)
    then show ?thesis using get_message_in [OF dist that(1)] by (simp add: db get_with_message)
  qed
  ultimately show ?thesis using q m(2) w1(3) target by blast
next
  case False
  show ?thesis
  proof (cases delivered)
    case True
    with False have none: "report_target number reference (db w) = None" by simp
    with assms(2) True have "q = Inr False \<and> w' = w" by simp
    then show ?thesis using none unfolding report_target_None_iff by blast
  qed (use assms(2) in simp)
qed

theorem delivery_report_effect_witness:
  "let sent = (sample_message (lit ''a'') Outbound Sent)\<lparr>msg_modem_ref := Some 7\<rparr>;
       w = sample_world (empty_db\<lparr>messages := [sent, sample_message (lit ''b'') Outbound Sent]\<rparr>) ();
       out = apply_delivery_report id (DeliveryReport (msg_msisdn sent) (Some 7) True (lit ''2026-01-01T00:00:05Z'')) w
   in fst out = Inr True \<and>
      get_message (db (snd out)) (lit ''a'') =
        Some (sent\<lparr>msg_status := Delivered, msg_delivered_at := Some (lit ''2026-01-01T00:00:05Z'')\<rparr>)"
proof -
  let ?sent = "(sample_message (lit ''a'') Outbound Sent)\<lparr>msg_modem_ref := Some 7\<rparr>"
  let ?w = "sample_world (empty_db\<lparr>messages := [?sent, sample_message (lit ''b'') Outbound Sent]\<rparr>) ()"
  let ?r = "report_matches (msg_msisdn ?sent) (Some 7)"
  obtain q w' where out: "apply_delivery_report id (DeliveryReport (msg_msisdn ?sent) (Some 7) True
      (lit ''2026-01-01T00:00:05Z'')) ?w = (q, w')" by (metis prod.exhaust)
  have ids: "ids_distinct (db ?w)" by (simp add: ids_distinct_def sample_world_def sample_message_def)
  have only: "{m \<in> set (messages (db ?w)). ?r m} = {?sent}"
    by (auto simp: sample_world_def sample_message_def report_matches_def awaiting_report_def)
  have id: "msg_id ?sent = lit ''a''" by (simp add: sample_message_def)
  have stamp: "lit ''2026-01-01T00:00:05Z'' \<noteq> []" by simp
  from delivery_report_effect [OF ids out]
  have "q = Inr True \<and> get_message (db w') (msg_id ?sent) =
      Some (?sent\<lparr>msg_status := Delivered, msg_delivered_at := Some (lit ''2026-01-01T00:00:05Z'')\<rparr>)"
  proof (elim disjE exE conjE)
    assume "True \<longrightarrow> (\<forall>m \<in> set (messages (db ?w)). \<not> ?r m)"
    then show ?thesis using only by blast
  next
    fix m ts
    assume q: "q = Inr True" and ts: "lit ''2026-01-01T00:00:05Z'' \<noteq> [] \<longrightarrow> ts = lit ''2026-01-01T00:00:05Z''"
      and m: "m \<in> set (messages (db ?w))" "?r m"
      and row: "get_message (db w') (msg_id m) = Some (m\<lparr>msg_status := Delivered, msg_delivered_at := Some ts\<rparr>)"
    have "m = ?sent" using m only by blast
    moreover have "ts = lit ''2026-01-01T00:00:05Z''" using ts stamp by (rule mp)
    ultimately show ?thesis using q row by blast
  qed
  then show ?thesis unfolding Let_def out fst_conv snd_conv id by blast
qed

end
