(* ===== verification/Worker.thy ===== *)
theory Worker
  imports Inbox
begin

text \<open>
  The worker process of \<^verbatim>\<open>gateway/worker/main.py\<close>: the status table, the recovery of interrupted
  sends, the restart flag and one iteration of the loop in \<open>run\<close>. The loop's variables are the
  record \<open>worker\<close>; \<open>time.sleep\<close> and \<open>SystemExit\<close> are the outcomes of an iteration. The database
  itself does not fail in the model, so \<open>_record_event_safe\<close> is \<open>record_event\<close>.
\<close>

definition POLL_INTERVAL_SECONDS :: rat where "POLL_INTERVAL_SECONDS = 5"

definition DISCONNECTED_STATUS :: modem_status where
  "DISCONNECTED_STATUS = \<lparr>ms_connected = False, ms_signal_percent = None, ms_operator = None,
     ms_registration = None, ms_own_number = None\<rparr>"

section \<open>Status and recovery\<close>

definition text_or_empty :: "str option \<Rightarrow> str" where
  "text_or_empty v = (case v of None \<Rightarrow> [] | Some s \<Rightarrow> s)"

definition status_values :: "modem_status \<Rightarrow> str \<Rightarrow> (str \<times> str) list" where
  "status_values st now =
     [(lit ''worker_heartbeat'', now),
      (lit ''modem_connected'', if ms_connected st then lit ''1'' else lit ''0''),
      (lit ''signal_percent'', case ms_signal_percent st of None \<Rightarrow> [] | Some p \<Rightarrow> int_str p),
      (lit ''operator'', text_or_empty (ms_operator st)),
      (lit ''registration'', text_or_empty (ms_registration st)),
      (lit ''modem_own_number'', text_or_empty (ms_own_number st))]"

definition write_status :: "modem_status \<Rightarrow> 'd world \<Rightarrow> 'd world" where
  "write_status st w =
     (case utc_now_iso w of (now, w') \<Rightarrow>
        w'\<lparr>db := (db w')\<lparr>gateway_status :=
          fold (\<lambda>(k, v) t. t(k \<mapsto> \<lparr>kv_value = v, kv_updated_at = now\<rparr>)) (status_values st now)
            (gateway_status (db w'))\<rparr>\<rparr>)"

definition interrupted :: "message \<Rightarrow> bool" where
  "interrupted m \<longleftrightarrow> msg_direction m = Outbound \<and> msg_status m = Sending"

definition requeue :: "message \<Rightarrow> message" where
  "requeue m = (if interrupted m then m\<lparr>msg_status := Queued\<rparr> else m)"

definition recover_interrupted_sends :: "'d world \<Rightarrow> nat \<times> 'd world" where
  "recover_interrupted_sends w =
     (let stuck = filter interrupted (messages (db w));
          w1 = w\<lparr>db := (db w)\<lparr>messages := map requeue (messages (db w))\<rparr>\<rparr>
      in (length stuck,
          if stuck \<noteq> []
          then record_event (lit ''worker'') (lit ''warning'')
            (lit ''requeued '' @ nat_str (length stuck) @ lit '' message(s) interrupted mid-send'') w1
          else w1))"

definition restart_requested :: "'d world \<Rightarrow> bool \<times> 'd world" where
  "restart_requested w =
     (if \<not> truthy (get_config (db w) RESTART_WORKER) then (False, w)
      else (True, record_event (lit ''worker'') (lit ''info'')
              (lit ''worker restarting (admin request)'') (set_config RESTART_WORKER None w)))"

section \<open>One iteration of the loop\<close>

record worker =
  wk_bucket :: token_bucket
  wk_backoff :: "rat option"
  wk_connected :: bool

datatype loop_outcome = Exited | Slept rat

text \<open>What \<open>run\<close> does before the loop, after the database is migrated.\<close>

definition start_worker :: "nat \<Rightarrow> 'd world \<Rightarrow> worker \<times> 'd world" where
  "start_worker messages_per_minute w =
     (case recover_interrupted_sends w of (_, w1) \<Rightarrow>
        case read_monotonic w1 of (now, w2) \<Rightarrow>
          (\<lparr>wk_bucket = new_bucket messages_per_minute now, wk_backoff = None, wk_connected = False\<rparr>, w2))"

definition ensure_connected ::
  "'d modem_driver \<Rightarrow> worker \<Rightarrow> 'd world \<Rightarrow> (exn + unit) \<times> worker \<times> 'd world" where
  "ensure_connected D s w =
     (if wk_connected s then (Inr (), s, w)
      else (case call (dv_connect D) w of
              (Inl x, w1) \<Rightarrow> (Inl x, s, w1)
            | (Inr _, w1) \<Rightarrow>
                (Inr (), s\<lparr>wk_connected := True, wk_backoff := None\<rparr>,
                 snd (recover_interrupted_sends
                   (record_event (lit ''worker'') (lit ''info'') (lit ''modem connected'') w1)))))"

definition worker_round ::
  "interference \<Rightarrow> 'd modem_driver \<Rightarrow> worker \<Rightarrow> 'd world \<Rightarrow> (exn + unit) \<times> worker \<times> 'd world" where
  "worker_round other D s w =
     (case ensure_connected D s w of
        (Inl x, s1, w1) \<Rightarrow> (Inl x, s1, w1)
      | (Inr _, s1, w1) \<Rightarrow>
          (case process_outbox other D MAX_SEND_ATTEMPTS (wk_bucket s1) (meanwhile (other Querying) w1) of (r, b, w2) \<Rightarrow>
             let s2 = s1\<lparr>wk_bucket := b\<rparr> in
             (case r of
                Inl x \<Rightarrow> (Inl x, s2, w2)
              | Inr _ \<Rightarrow>
                  (case process_inbound other D (meanwhile (other Receiving) w2) of
                     (Inl x, w3) \<Rightarrow> (Inl x, s2, w3)
                   | (Inr _, w3) \<Rightarrow>
                       (case call (dv_status D) w3 of
                          (Inl x, w4) \<Rightarrow> (Inl x, s2, w4)
                        | (Inr st, w4) \<Rightarrow> (Inr (), s2, write_status st w4))))))"

definition loop_iteration ::
  "interference \<Rightarrow> 'd modem_driver \<Rightarrow> worker \<Rightarrow> 'd world \<Rightarrow> loop_outcome \<times> worker \<times> 'd world" where
  "loop_iteration other D s w =
     (case restart_requested w of
        (True, w1) \<Rightarrow> (Exited, s, w1)
      | (False, w1) \<Rightarrow>
          (case worker_round other D s w1 of
             (Inr _, s2, w2) \<Rightarrow> (Slept POLL_INTERVAL_SECONDS, s2, w2)
           | (Inl x, s2, w2) \<Rightarrow>
               let backoff = next_backoff (wk_backoff s2);
                   w3 = record_event (lit ''worker'') (lit ''error'')
                     (lit ''modem loop error ('' @ exn_class x @ lit ''), reconnecting'') w2
               in (Slept backoff, s2\<lparr>wk_connected := False, wk_backoff := Some backoff\<rparr>,
                   write_status DISCONNECTED_STATUS w3)))"

section \<open>How a message may evolve\<close>

text \<open>
  The status machine of a message between two points where the worker holds no transaction; the
  identity, addressee, text and creation time never change.
\<close>

fun legal :: "msg_status \<Rightarrow> msg_status \<Rightarrow> bool" where
  "legal Sending s \<longleftrightarrow> s \<noteq> Received"
| "legal Queued s \<longleftrightarrow> s \<in> {Queued, Sent, Failed, Delivered}"
| "legal Sent s \<longleftrightarrow> s \<in> {Sent, Delivered}"
| "legal s s' \<longleftrightarrow> s' = s"

lemma legal_refl [simp]: "legal s s"
  by (cases s) auto

lemma legal_trans: "legal a b \<Longrightarrow> legal b c \<Longrightarrow> legal a c"
  by (cases a; cases b; cases c) auto

definition row_evolves :: "message \<Rightarrow> message \<Rightarrow> bool" where
  "row_evolves m m' \<longleftrightarrow> legal (msg_status m) (msg_status m') \<and> msg_id m' = msg_id m \<and>
     msg_direction m' = msg_direction m \<and> msg_msisdn m' = msg_msisdn m \<and> msg_body m' = msg_body m \<and>
     msg_created_at m' = msg_created_at m \<and> msg_received_at m' = msg_received_at m"

lemma row_evolves_refl [simp]: "row_evolves m m"
  by (simp add: row_evolves_def)

lemma row_evolves_trans: "row_evolves a b \<Longrightarrow> row_evolves b c \<Longrightarrow> row_evolves a c"
  by (auto simp: row_evolves_def intro: legal_trans)

definition db_evolves :: "database \<Rightarrow> database \<Rightarrow> bool" where
  "db_evolves d d' \<longleftrightarrow> (\<forall>m \<in> set (messages d). \<exists>m' \<in> set (messages d'). row_evolves m m')"

lemma db_evolves_same: "messages d' = messages d \<Longrightarrow> db_evolves d d'"
  by (auto simp: db_evolves_def intro!: bexI)

lemma db_evolves_refl [simp]: "db_evolves d d"
  by (rule db_evolves_same) simp

lemma db_evolves_trans: "db_evolves a b \<Longrightarrow> db_evolves b c \<Longrightarrow> db_evolves a c"
  unfolding db_evolves_def by (meson row_evolves_trans)

lemma db_evolves_map:
  "(\<And>m. m \<in> set (messages d) \<Longrightarrow> row_evolves m (f m)) \<Longrightarrow> messages d' = map f (messages d) @ new \<Longrightarrow>
   db_evolves d d'"
  by (force simp: db_evolves_def)

text \<open>The interface of a worker step: it keeps the keys distinct and every message evolves.\<close>

definition safe_step :: "database \<Rightarrow> database \<Rightarrow> bool" where
  "safe_step d d' \<longleftrightarrow> (ids_distinct d \<longrightarrow> ids_distinct d' \<and> db_evolves d d')"

lemma safe_step_refl [simp]: "safe_step d d"
  by (simp add: safe_step_def)

lemma safe_step_same: "messages d' = messages d \<Longrightarrow> safe_step d d'"
  by (simp add: safe_step_def ids_distinct_def db_evolves_same)

lemma safe_step_trans: "safe_step a b \<Longrightarrow> safe_step b c \<Longrightarrow> safe_step a c"
  by (auto simp: safe_step_def intro: db_evolves_trans)

lemma safe_step_map:
  assumes "\<And>m. m \<in> set (messages d) \<Longrightarrow> row_evolves m (f m)" and "messages d' = map f (messages d)"
  shows "safe_step d d'"
proof -
  have "map msg_id (messages d') = map msg_id (messages d)"
    using assms by (simp add: row_evolves_def)
  moreover have "db_evolves d d'" using db_evolves_map [OF assms(1), of d d' "[]"] assms(2) by simp
  ultimately show ?thesis by (simp add: safe_step_def ids_distinct_def)
qed

section \<open>Every part of the loop is a safe step\<close>

lemma write_status_frame [simp]:
  "messages (db (write_status st w)) = messages (db w)"
  "deliveries (db (write_status st w)) = deliveries (db w)"
  "gateway_config (db (write_status st w)) = gateway_config (db w)"
  "drv (write_status st w) = drv w"
  by (simp_all add: write_status_def utc_now_iso_def)

lemma recover_messages:
  "messages (db (snd (recover_interrupted_sends w))) = map requeue (messages (db w))"
  by (simp add: recover_interrupted_sends_def Let_def)

lemma requeue_evolves: "row_evolves m (requeue m)"
  by (simp add: row_evolves_def requeue_def interrupted_def)

lemma recover_safe: "safe_step (db w) (db (snd (recover_interrupted_sends w)))"
  by (rule safe_step_map [OF requeue_evolves recover_messages])

lemma settled_evolves: "settled_row m m' \<Longrightarrow> queued m \<Longrightarrow> row_evolves m m'"
  by (auto simp: settled_row_def row_evolves_def queued_def mark_sent_def mark_failed_def elim!: settled_turn.elims)

lemma keeps_rows_safe: "keeps_rows d d' \<Longrightarrow> safe_step d d'"
  by (auto simp: settles_def safe_step_def db_evolves_def) (use row_evolves_refl in blast)

lemma process_outbox_safe:
  assumes "process_outbox other D n b w = (r, b', w')" and other: "\<forall>mo d. keeps_rows d (other mo d)"
  shows "safe_step (db w) (db w')"
proof (cases "ids_distinct (db w)")
  case True
  from process_outbox_settles [OF other True assms(1)] obtain j where
    j: "settles (msg_id ` set (take j (outbox (db w)))) (db w) (db w')" by blast
  have "\<exists>m' \<in> set (messages (db w')). row_evolves m m'" if m: "m \<in> set (messages (db w))" for m
  proof (cases "msg_id m \<in> msg_id ` set (take j (outbox (db w)))")
    case taken: True
    then have "queued m" using same_row [OF True] m outbox_queued(3) [OF True] by (fastforce dest: in_set_takeD)
    then show ?thesis using settles_settled [OF j True m taken] settled_evolves by blast
  next
    case False
    then have "m \<in> set (messages (db w'))" using j m True by (simp add: settles_def)
    then show ?thesis using row_evolves_refl by blast
  qed
  moreover have "ids_distinct (db w')" using j True by (simp add: settles_def)
  ultimately show ?thesis by (simp add: safe_step_def db_evolves_def)
qed (simp add: safe_step_def)

lemma safe_step_append:
  assumes "messages d' = messages d @ [m]" and "get_message d (msg_id m) = None"
  shows "safe_step d d'"
proof -
  have "db_evolves d d'" by (rule db_evolves_map [where f = id and new = "[m]"]) (simp_all add: assms(1))
  moreover have "ids_distinct d \<Longrightarrow> ids_distinct d'"
    using assms by (simp add: ids_distinct_def get_message_None_iff)
  ultimately show ?thesis by (simp add: safe_step_def)
qed

lemma store_text_ulid: "ulid (env (snd (store_text configured e w))) = ulid (env w)"
  by (cases e) (auto simp: message_id_def new_id_def utc_now_iso_def add_pending_delivery_def delivery_id_def split: sum.splits)

text \<open>
  What a relation between databases has to allow so that all of \<open>process_inbound\<close> stays within it: changes of other
  tables, a new row outside the queue under an identifier that is \<open>fresh\<close> (whatever that means to the client), and the
  late mark of a delivery report.
\<close>

locale inbound_contract =
  fixes fresh :: "str \<Rightarrow> bool" and R :: "database \<Rightarrow> database \<Rightarrow> bool"
  assumes same: "messages d' = messages d \<Longrightarrow> R d d'"
    and trans: "R a b \<Longrightarrow> R b c \<Longrightarrow> R a c"
    and append: "messages d' = messages d @ [m] \<Longrightarrow> get_message d (msg_id m) = None \<Longrightarrow> \<not> queued m \<Longrightarrow>
      fresh (msg_id m) \<Longrightarrow> R d d'"
    and mark: "R d d' \<Longrightarrow> m \<in> set (messages d) \<Longrightarrow> msg_direction m = Outbound \<Longrightarrow> msg_status m = Sent \<Longrightarrow>
      R d (with_message (msg_id m) (mark_delivered ts) d')"
begin

lemma refl: "R d d"
  by (rule same) simp

lemma store_text:
  assumes "\<forall>i. fresh (lit ''msg'' @ lit ''_'' @ ulid (env w) i)"
  shows "R (db w) (db (snd (store_text configured e w)))"
proof (cases e)
  case (InboundSMS number body received segments)
  let ?m = "received_message (fst (message_id w)) number body received segments
    (fst (utc_now_iso (snd (message_id w))))"
  show ?thesis
  proof (cases "add_message ?m (db w)")
    case (Inl x)
    then show ?thesis
      by (simp add: InboundSMS message_id_def new_id_def utc_now_iso_def refl)
  next
    case (Inr d)
    then have d: "get_message (db w) (msg_id ?m) = None" "messages d = messages (db w) @ [?m]"
      by (auto simp: add_message_Inr)
    have "messages (db (snd (store_text configured e w))) = messages d"
      using Inr by (auto simp: InboundSMS message_id_def new_id_def utc_now_iso_def add_pending_delivery_def
          delivery_id_def add_delivery_Inr split: sum.splits)
    moreover have "\<not> queued ?m" "fresh (msg_id ?m)"
      using assms by (simp_all add: queued_def received_message_def message_id_def new_id_def)
    ultimately show ?thesis using d append by metis
  qed
qed (simp add: refl)

lemma store_texts:
  "\<forall>i. fresh (lit ''msg'' @ lit ''_'' @ ulid (env w) i) \<Longrightarrow> R (db w) (db (snd (store_texts configured evs w)))"
proof (induction evs arbitrary: w)
  case (Cons e evs)
  obtain q w1 where q: "store_text configured e w = (q, w1)" by (metis prod.exhaust)
  then have "R (db w) (db w1)" "ulid (env w1) = ulid (env w)"
    using store_text [OF Cons.prems, of configured e] store_text_ulid [of configured e w] by simp_all
  with Cons.IH [of w1] Cons.prems show ?case
    by (cases q) (auto simp: q intro: trans)
qed (simp add: refl)

lemma apply_reports:
  assumes "apply_reports other rs w = (q, w')" and "\<forall>d. R d (other d)"
  shows "R (db w) (db w')"
  using assms
proof (induction rs arbitrary: other w)
  case (Cons r rs)
  obtain p w1 where p: "apply_delivery_report other r w = (p, w1)" by (metis prod.exhaust)
  from apply_delivery_report_cases [OF p] have first: "R (db w) (db w1)"
    using Cons.prems(2) mark refl by (elim disjE exE conjE) auto
  have "\<forall>d. R d ((if b then id else other) d)" for b using Cons.prems(2) by (simp add: refl)
  then have "\<lbrakk>p = Inr b\<rbrakk> \<Longrightarrow> R (db w1) (db w')" for b
    using Cons.IH [of "if b then id else other" w1] Cons.prems(1) p by simp
  moreover have "p = Inl x \<Longrightarrow> w' = w1" for x using Cons.prems(1) p by simp
  ultimately show ?case using first by (cases p) (auto intro: trans)
qed (simp add: refl)

lemma process_inbound:
  assumes "process_inbound other D w = (r, w')" and other: "\<forall>mo d. R d (other mo d)"
    and "\<forall>i. fresh (lit ''msg'' @ lit ''_'' @ ulid (env w) i)"
  shows "R (db w) (db w')"
  using assms(1)
proof (cases rule: process_inbound_parts)
  case (ran evs w1 p w2 q w3)
  have ids: "\<forall>i. fresh (lit ''msg'' @ lit ''_'' @ ulid (env (meanwhile (other Storing) w1)) i)"
    using call_tapes(2) [of "dv_fetch_inbound D" w] ran(1) assms(3) by simp
  have 1: "R (db w) (other Storing (db w))" using other by simp
  have "R (other Storing (db w)) (db w2)"
    using store_texts [OF ids, of "webhook_configured (db w)" "filter is_text evs"] ran(2,3) by simp
  from trans [OF 1 this] have 2: "R (db w) (db w2)" .
  have "R (db w2) (db (meanwhile (other Matching) w2))" "\<forall>d. R d (other Reporting d)" using other by simp_all
  then have 3: "R (db w) (db w3)" using 2 apply_reports [OF ran(4)] trans by blast
  from ran(5) show ?thesis using 1 2 3 by auto
qed (simp add: refl)

end

lemma mark_delivered_safe:
  assumes "m \<in> set (messages d)" and "msg_status m \<in> {Sent, Delivered}"
  shows "safe_step d (with_message (msg_id m) (mark_delivered ts) d)"
proof (cases "ids_distinct d")
  case True
  show ?thesis
  proof (rule safe_step_map)
    fix r assume r: "r \<in> set (messages d)"
    show "row_evolves r (if msg_id r = msg_id m then mark_delivered ts r else r)"
    proof (cases "msg_id r = msg_id m")
      case same: True
      then have "r = m" using assms(1) r True by (auto simp: ids_distinct_def distinct_map inj_on_def)
      then show ?thesis using assms(2) by (auto simp: row_evolves_def mark_delivered_def)
    qed simp
  qed (simp add: with_message_def)
qed (simp add: safe_step_def)

text \<open>A concurrent commit that is a safe step itself does not disturb the report's update.\<close>

lemma late_mark_delivered_safe:
  assumes "safe_step d d'" and "m \<in> set (messages d)" and "msg_status m = Sent"
  shows "safe_step d (with_message (msg_id m) (mark_delivered ts) d')"
proof (cases "ids_distinct d")
  case True
  then obtain m' where m': "m' \<in> set (messages d')" "row_evolves m m'"
    using assms(1,2) by (auto simp: safe_step_def db_evolves_def)
  then have "msg_id m' = msg_id m" "msg_status m' \<in> {Sent, Delivered}"
    using assms(3) by (auto simp: row_evolves_def)
  with mark_delivered_safe [OF m'(1)] have "safe_step d' (with_message (msg_id m) (mark_delivered ts) d')"
    by simp
  with assms(1) show ?thesis by (rule safe_step_trans)
qed (simp add: safe_step_def)

interpretation safe: inbound_contract "\<lambda>_. True" safe_step
proof unfold_locales
qed (auto intro: safe_step_same safe_step_trans safe_step_append late_mark_delivered_safe)

definition safe_other :: "(database \<Rightarrow> database) \<Rightarrow> bool" where
  "safe_other other \<longleftrightarrow> (\<forall>d. safe_step d (other d))"

lemma process_inbound_safe:
  "process_inbound other D w = (r, w') \<Longrightarrow> \<forall>mo. safe_other (other mo) \<Longrightarrow> safe_step (db w) (db w')"
  unfolding safe_other_def by (rule safe.process_inbound) simp_all

lemma keeps_rows_other: "\<forall>mo d. keeps_rows d (other mo d) \<Longrightarrow> safe_other (other mo)"
  by (simp add: safe_other_def keeps_rows_safe)

lemma record_event_safe: "safe_step (db w) (db (record_event s l t w))"
  by (rule safe_step_same) simp

lemma ensure_connected_safe:
  assumes "ensure_connected D s w = (r, s', w')"
  shows "safe_step (db w) (db w')"
proof -
  obtain q w1 where q: "call (dv_connect D) w = (q, w1)" by (metis prod.exhaust)
  have db1: "db w1 = db w" using call_db [of "dv_connect D" w] q by simp
  let ?w2 = "record_event (lit ''worker'') (lit ''info'') (lit ''modem connected'') w1"
  have "safe_step (db w) (db ?w2)" using record_event_safe [of w1] db1 by metis
  then have "safe_step (db w) (db (snd (recover_interrupted_sends ?w2)))"
    using recover_safe safe_step_trans by blast
  moreover have "db w' = db w \<or> db w' = db (snd (recover_interrupted_sends ?w2))"
    using assms q db1 by (auto simp: ensure_connected_def split: sum.splits if_splits)
  ultimately show ?thesis by auto
qed

text \<open>What a round does, part by part.\<close>

lemma worker_round_parts:
  assumes "worker_round other D s w = (r, s', w')"
  obtains r1 s1 w1 r2 b w2 r3 w3 r4 w4
  where "ensure_connected D s w = (r1, s1, w1)"
    and "process_outbox other D MAX_SEND_ATTEMPTS (wk_bucket s1) (meanwhile (other Querying) w1) = (r2, b, w2)"
    and "process_inbound other D (meanwhile (other Receiving) w2) = (r3, w3)"
    and "call (dv_status D) w3 = (r4, w4)" and "db w4 = db w3"
    and "w' \<in> {w1, w2, w3, w4} \<or> (\<exists>st. w' = write_status st w4)"
proof -
  obtain r1 s1 w1 where 1: "ensure_connected D s w = (r1, s1, w1)" by (metis prod.exhaust)
  obtain r2 b w2 where 2: "process_outbox other D MAX_SEND_ATTEMPTS (wk_bucket s1) (meanwhile (other Querying) w1) = (r2, b, w2)"
    by (metis prod.exhaust)
  obtain r3 w3 where 3: "process_inbound other D (meanwhile (other Receiving) w2) = (r3, w3)" by (metis prod.exhaust)
  obtain r4 w4 where 4: "call (dv_status D) w3 = (r4, w4)" by (metis prod.exhaust)
  have db4: "db w4 = db w3" using call_db [of "dv_status D" w3] 4 by simp
  have "w' \<in> {w1, w2, w3, w4} \<or> (\<exists>st. w' = write_status st w4)"
    using assms by (cases r1; cases r2; cases r3; cases r4) (simp_all add: worker_round_def 1 2 3 4 Let_def, blast)
  then show thesis by (rule that [OF 1 2 3 4 db4])
qed

lemma worker_round_safe:
  assumes "worker_round other D s w = (r, s', w')" and other: "\<forall>mo d. keeps_rows d (other mo d)"
  shows "safe_step (db w) (db w')"
  using assms(1)
proof (cases rule: worker_round_parts)
  case (1 r1 s1 w1 r2 b w2 r3 w3 r4 w4)
  have m: "safe_step (db v) (db (meanwhile (other mo) v))" for mo and v :: "'a world"
    using keeps_rows_safe other by simp
  note s1 = ensure_connected_safe [OF 1(1)]
  have s2: "safe_step (db w) (db w2)" using s1 m process_outbox_safe [OF 1(2) other] safe_step_trans by blast
  have s3: "safe_step (db w) (db w3)"
    using s2 m process_inbound_safe [OF 1(3) allI [OF keeps_rows_other [OF other]]] safe_step_trans by blast
  from 1(6) consider "db w' \<in> {db w1, db w2, db w3}" | "messages (db w') = messages (db w3)"
    using 1(5) by auto
  then show ?thesis
  proof cases
    case 2
    then show ?thesis by (rule safe_step_trans [OF s3 safe_step_same])
  qed (use s1 s2 s3 in auto)
qed

lemma loop_iteration_messages:
  assumes "loop_iteration other D s w = (out, s', w')" and "worker_round other D s w = (r, s2, w2)"
  shows "messages (db w') \<in> {messages (db w), messages (db w2)}"
  using assms by (auto simp: loop_iteration_def restart_requested_def Let_def split: sum.splits if_splits)

lemma loop_iteration_safe:
  assumes "loop_iteration other D s w = (out, s', w')" and "\<forall>mo d. keeps_rows d (other mo d)"
  shows "safe_step (db w) (db w')"
proof -
  obtain r s2 w2 where r: "worker_round other D s w = (r, s2, w2)" by (metis prod.exhaust)
  note s2 = worker_round_safe [OF r assms(2)]
  show ?thesis using loop_iteration_messages [OF assms(1) r] s2 safe_step_same safe_step_trans by blast
qed

section \<open>No message stays in the sending state\<close>

definition none_interrupted :: "database \<Rightarrow> bool" where
  "none_interrupted d \<longleftrightarrow> list_all (\<lambda>m. \<not> interrupted m) (messages d)"

lemma none_interrupted_same: "messages d' = messages d \<Longrightarrow> none_interrupted d' = none_interrupted d"
  by (simp add: none_interrupted_def)

lemma none_interrupted_map:
  "(\<And>m. \<not> interrupted m \<Longrightarrow> \<not> interrupted (f m)) \<Longrightarrow> messages d' = map f (messages d) \<Longrightarrow>
   none_interrupted d \<Longrightarrow> none_interrupted d'"
  by (auto simp: none_interrupted_def list_all_iff)

lemma recover_none_interrupted: "none_interrupted (db (snd (recover_interrupted_sends w)))"
  by (auto simp: none_interrupted_def list_all_iff recover_messages requeue_def interrupted_def)

lemma process_outbox_none_interrupted:
  assumes "process_outbox other D n b w = (r, b', w')" and "ids_distinct (db w)" and "none_interrupted (db w)"
    and "\<forall>mo d. brings_queued d (other mo d)"
  shows "none_interrupted (db w')"
proof -
  have "m' \<in> set (messages (db w)) \<or> turned_row m'" if "m' \<in> set (messages (db w'))" for m'
    using process_outbox_rows [OF assms(4,2,1) that] .
  moreover have "\<not> interrupted m'" if "turned_row m'" for m'
    using that settled_row_status by (fastforce simp: turned_row_def queued_def interrupted_def)
  ultimately show ?thesis using assms(3) by (auto simp: none_interrupted_def list_all_iff)
qed

lemma brings_queued_none_interrupted: "brings_queued d d' \<Longrightarrow> none_interrupted d \<Longrightarrow> none_interrupted d'"
  by (auto simp: brings_queued_def none_interrupted_def list_all_iff queued_def interrupted_def)

lemma store_text_none_interrupted:
  assumes "none_interrupted (db w)"
  shows "none_interrupted (db (snd (store_text configured e w)))"
proof (cases e)
  case (InboundSMS number body received segments)
  then show ?thesis
    using assms
    by (auto simp: message_id_def new_id_def utc_now_iso_def add_pending_delivery_def delivery_id_def
        add_message_Inr add_delivery_Inr received_message_def interrupted_def none_interrupted_def
        split: sum.splits)
qed (use assms in simp)

lemma store_texts_none_interrupted:
  "none_interrupted (db w) \<Longrightarrow> none_interrupted (db (snd (store_texts configured evs w)))"
proof (induction evs arbitrary: w)
  case (Cons e evs)
  obtain q w1 where q: "store_text configured e w = (q, w1)" by (metis prod.exhaust)
  then have "none_interrupted (db w1)"
    using store_text_none_interrupted [OF Cons.prems, of configured e] by simp
  with Cons.IH [of w1] show ?case by (cases q) (simp_all add: q)
qed simp

definition keeps_none_interrupted :: "(database \<Rightarrow> database) \<Rightarrow> bool" where
  "keeps_none_interrupted other \<longleftrightarrow> (\<forall>d. none_interrupted d \<longrightarrow> none_interrupted (other d))"

lemma apply_reports_none_interrupted:
  assumes "apply_reports other rs w = (q, w')" and "none_interrupted (db w)" and "keeps_none_interrupted other"
  shows "none_interrupted (db w')"
  using assms
proof (induction rs arbitrary: other w)
  case (Cons r rs)
  obtain p w1 where p: "apply_delivery_report other r w = (p, w1)" by (metis prod.exhaust)
  have o: "none_interrupted (other (db w))" using Cons.prems by (simp add: keeps_none_interrupted_def)
  from apply_delivery_report_cases [OF p] have 1: "none_interrupted (db w1)"
  proof (elim disjE exE conjE)
    fix m ts
    assume "db w1 = with_message (msg_id m) (mark_delivered ts) (other (db w))"
    then have "messages (db w1) =
        map (\<lambda>r. if msg_id r = msg_id m then mark_delivered ts r else r) (messages (other (db w)))"
      by (simp add: with_message_def)
    then show ?thesis
      by (rule none_interrupted_map [rotated, OF _ o]) (simp add: interrupted_def mark_delivered_def)
  qed (use Cons.prems o in simp_all)
  show ?case
  proof (cases p)
    case (Inl x)
    then show ?thesis using Cons.prems(1) p 1 by simp
  next
    case (Inr b)
    have "keeps_none_interrupted (if b then id else other)"
      using Cons.prems(3) by (simp add: keeps_none_interrupted_def)
    then show ?thesis using Cons.IH [of "if b then id else other" w1] Cons.prems(1) p Inr 1 by simp
  qed
qed simp

lemma process_inbound_none_interrupted:
  assumes "process_inbound other D w = (r, w')" and none: "none_interrupted (db w)"
    and other: "\<forall>mo. keeps_none_interrupted (other mo)"
  shows "none_interrupted (db w')"
  using assms(1)
proof (cases rule: process_inbound_parts)
  case (ran evs w1 p w2 q w3)
  have m: "none_interrupted d \<Longrightarrow> none_interrupted (other mo d)" for mo d using other by (simp add: keeps_none_interrupted_def)
  have 1: "none_interrupted (db (meanwhile (other Storing) w1))" using m none ran(2) by simp
  have 2: "none_interrupted (db w2)"
    using store_texts_none_interrupted [OF 1, of "webhook_configured (db w)" "filter is_text evs"] ran(3) by simp
  have "none_interrupted (db (meanwhile (other Matching) w2))" using m 2 by simp
  from apply_reports_none_interrupted [OF ran(4) this spec [OF other]] have 3: "none_interrupted (db w3)" .
  from ran(5) show ?thesis using m [OF none] 2 3 by auto
qed (simp add: none)

lemma ensure_connected_none_interrupted:
  assumes "ensure_connected D s w = (r, s', w')" and "none_interrupted (db w)"
  shows "none_interrupted (db w')"
proof -
  obtain q w1 where q: "call (dv_connect D) w = (q, w1)" by (metis prod.exhaust)
  have "db w1 = db w" using call_db [of "dv_connect D" w] q by simp
  then show ?thesis
    using assms q recover_none_interrupted
    by (auto simp: ensure_connected_def split: sum.splits if_splits)
qed

lemma loop_iteration_none_interrupted:
  assumes "loop_iteration other D s w = (out, s', w')" and none: "none_interrupted (db w)"
    and dist: "ids_distinct (db w)" and brings: "\<forall>mo d. brings_queued d (other mo d)"
    and ids: "\<forall>mo d. ids_distinct d \<longrightarrow> ids_distinct (other mo d)"
  shows "none_interrupted (db w')"
proof -
  obtain r s2 v where r: "worker_round other D s w = (r, s2, v)" by (metis prod.exhaust)
  have "none_interrupted (db v)"
    using r
  proof (cases rule: worker_round_parts)
    case (1 r1 s1 w1 r2 b w2 r3 w3 r4 w4)
    have m: "none_interrupted (db u) \<Longrightarrow> none_interrupted (db (meanwhile (other mo) u))" for mo and u :: "'a world"
      using brings_queued_none_interrupted [of "db u" "other mo (db u)"] brings by simp
    note n1 = ensure_connected_none_interrupted [OF 1(1) none]
    have "ids_distinct (db w1)" using ensure_connected_safe [OF 1(1)] dist by (simp add: safe_step_def)
    then have "ids_distinct (db (meanwhile (other Querying) w1))" using ids by simp
    from process_outbox_none_interrupted [OF 1(2) this m [OF n1] brings] have n2: "none_interrupted (db w2)" .
    have "\<forall>mo. keeps_none_interrupted (other mo)"
      using brings brings_queued_none_interrupted by (auto simp: keeps_none_interrupted_def)
    note n3 = process_inbound_none_interrupted [OF 1(3) m [OF n2] this]
    from 1(6) have "messages (db v) \<in> {messages (db w1), messages (db w2), messages (db w3)}"
      using 1(5) by auto
    with n1 n2 n3 show ?thesis by (auto simp: none_interrupted_def)
  qed
  then show ?thesis using loop_iteration_messages [OF assms(1) r] none by (auto simp: none_interrupted_def)
qed

section \<open>Runs of the worker\<close>

text \<open>
  A run: the start, iterations with commits of the API process at every moment, such commits in between, and a new start
  after the process ended. \<open>api\<close> tells which commits the API process makes.
\<close>

inductive worker_run ::
  "((database \<Rightarrow> database) \<Rightarrow> bool) \<Rightarrow> 'd modem_driver \<Rightarrow> nat \<Rightarrow> 'd world \<Rightarrow> worker \<Rightarrow> 'd world \<Rightarrow> bool"
  for api :: "(database \<Rightarrow> database) \<Rightarrow> bool" and D :: "'d modem_driver" and n :: nat and w0 :: "'d world"
where
  started: "start_worker n w0 = (s, w) \<Longrightarrow> worker_run api D n w0 s w"
| iterated: "\<lbrakk>worker_run api D n w0 s w; \<And>mo. api (other mo); loop_iteration other D s w = (out, s', w')\<rbrakk> \<Longrightarrow>
    worker_run api D n w0 s' w'"
| api_commit: "\<lbrakk>worker_run api D n w0 s w; api f\<rbrakk> \<Longrightarrow> worker_run api D n w0 s (meanwhile f w)"
| restarted: "\<lbrakk>worker_run api D n w0 s w; start_worker n w = (s', w')\<rbrakk> \<Longrightarrow> worker_run api D n w0 s' w'"

lemma start_worker_facts:
  assumes "start_worker n w = (s, w')"
  shows "none_interrupted (db w')" "safe_step (db w) (db w')"
proof -
  have "db w' = db (snd (recover_interrupted_sends w))"
    using assms by (auto simp: start_worker_def read_monotonic_def split: prod.splits)
  then show "none_interrupted (db w')" "safe_step (db w) (db w')"
    using recover_none_interrupted recover_safe by simp_all
qed

definition backoff_ok :: "worker \<Rightarrow> bool" where
  "backoff_ok s \<longleftrightarrow> (case wk_backoff s of None \<Rightarrow> True | Some b \<Rightarrow> 5 \<le> b \<and> b \<le> 60)"

lemma worker_round_worker:
  assumes "worker_round other D s w = (r, s', w')"
  shows "wk_backoff s' = wk_backoff s \<or> wk_backoff s' = None" and "r = Inr () \<Longrightarrow> wk_connected s'"
    and "r = Inr () \<Longrightarrow> \<exists>st w1. w' = write_status st w1"
  using assms
  by (auto simp: worker_round_def ensure_connected_def Let_def split: sum.splits prod.splits if_splits)

lemma next_backoff_bounds:
  "5 \<le> next_backoff b" if "b = None \<or> (\<exists>c \<ge> 5. b = Some c)"
  using that by (auto simp: next_backoff_def BACKOFF_INITIAL_SECONDS_def BACKOFF_CAP_SECONDS_def)

lemma next_backoff_cap: "next_backoff b \<le> 60"
  by (simp add: next_backoff_def BACKOFF_INITIAL_SECONDS_def BACKOFF_CAP_SECONDS_def split: option.split)

lemma write_status_rows:
  "gateway_status (db (write_status st w)) (lit ''worker_heartbeat'') =
     Some \<lparr>kv_value = iso (wall (env w) (tick (env w))), kv_updated_at = iso (wall (env w) (tick (env w)))\<rparr>"
  "map_option kv_value (gateway_status (db (write_status st w)) (lit ''modem_connected'')) =
     Some (if ms_connected st then lit ''1'' else lit ''0'')"
  "wall (env (write_status st w)) = wall (env w)" "tick (env (write_status st w)) = Suc (tick (env w))"
  by (simp_all add: write_status_def status_values_def utc_now_iso_def)

section \<open>Properties\<close>

text \<open>
  C15. The worker never loses a message and none stays in the sending state: along every run, through
  restarts and commits of the API process that delete nothing, at any moment - also while the modem is sending -, every
  message ever stored is still there with its identity, addressee, text and creation time, its status has only moved
  along \<open>queued/sending \<rightarrow> sent \<rightarrow> delivered\<close> or to \<open>failed\<close>, and between the iterations no outbound
  message is in the sending state, so that each is either queued or settled.
\<close>

theorem worker_never_loses_a_message:
  assumes "worker_run api D n w0 s w" and "ids_distinct (db w0)"
    and "\<And>f d. api f \<Longrightarrow> keeps_rows d (f d) \<and> brings_queued d (f d)"
  shows "ids_distinct (db w) \<and> none_interrupted (db w) \<and>
    (\<forall>m \<in> set (messages (db w0)). \<exists>m'. get_message (db w) (msg_id m) = Some m' \<and> row_evolves m m')"
proof -
  have "ids_distinct (db w) \<and> none_interrupted (db w) \<and> db_evolves (db w0) (db w)"
    using assms(1)
  proof induction
    case (started s w)
    then show ?case using start_worker_facts [OF started] assms(2) by (auto simp: safe_step_def)
  next
    case (iterated s w other out s' w')
    have o: "\<forall>mo d. keeps_rows d (other mo d)" "\<forall>mo d. brings_queued d (other mo d)"
      using assms(3) iterated.hyps(2) by blast+
    then have "\<forall>mo d. ids_distinct d \<longrightarrow> ids_distinct (other mo d)" by (simp add: settles_def)
    from loop_iteration_none_interrupted [OF iterated.hyps(3) _ _ o(2) this]
    have "none_interrupted (db w')" using iterated.IH by simp
    moreover have "safe_step (db w) (db w')" by (rule loop_iteration_safe [OF iterated.hyps(3) o(1)])
    ultimately show ?case using iterated.IH by (auto simp: safe_step_def intro: db_evolves_trans)
  next
    case (api_commit s w f)
    have "safe_step (db w) (f (db w))" "none_interrupted (f (db w))"
      using keeps_rows_safe brings_queued_none_interrupted assms(3) [OF api_commit.hyps(2)] api_commit.IH by blast+
    then show ?case using api_commit.IH by (auto simp: safe_step_def intro: db_evolves_trans)
  next
    case (restarted s w s' w')
    from start_worker_facts [OF restarted.hyps(2)] show ?case
      using restarted.IH by (auto simp: safe_step_def intro: db_evolves_trans)
  qed
  then have inv: "ids_distinct (db w)" "none_interrupted (db w)" "db_evolves (db w0) (db w)" by simp_all
  have "\<exists>m'. get_message (db w) (msg_id m) = Some m' \<and> row_evolves m m'"
    if m: "m \<in> set (messages (db w0))" for m
  proof -
    obtain m' where m': "m' \<in> set (messages (db w))" "row_evolves m m'"
      using inv(3) m by (auto simp: db_evolves_def)
    then have "get_message (db w) (msg_id m') = Some m'"
      using get_message_in inv(1) by (simp add: ids_distinct_def)
    with m'(2) show ?thesis by (auto simp: row_evolves_def)
  qed
  with inv show ?thesis by blast
qed

theorem worker_never_loses_a_message_witness:
  "let d = empty_db\<lparr>messages := [sample_message (lit ''a'') Outbound Sending]\<rparr>;
       w0 = sample_world d (new_fake_driver None);
       (s1, w1) = start_worker 10 w0;
       (out, s2, w2) = loop_iteration undisturbed FakeDriver s1 w1
   in none_interrupted (db w2) \<and> get_message (db w2) (lit ''a'') \<noteq> None"
proof -
  let ?w0 = "sample_world (empty_db\<lparr>messages := [sample_message (lit ''a'') Outbound Sending]\<rparr>) (new_fake_driver None)"
  obtain s1 w1 where 1: "start_worker 10 ?w0 = (s1, w1)" by (metis prod.exhaust)
  obtain out s2 w2 where 2: "loop_iteration undisturbed FakeDriver s1 w1 = (out, s2, w2)" by (metis prod.exhaust)
  let ?api = "\<lambda>f :: database \<Rightarrow> database. f = id"
  have run: "worker_run ?api FakeDriver 10 ?w0 s2 w2"
    by (rule iterated [OF started [OF 1] _ 2]) (simp add: undisturbed_def)
  have ids: "ids_distinct (db ?w0)" by (simp add: sample_world_def ids_distinct_def)
  have api: "\<And>f d. ?api f \<Longrightarrow> keeps_rows d (f d) \<and> brings_queued d (f d)" by simp
  have "sample_message (lit ''a'') Outbound Sending \<in> set (messages (db ?w0))" "msg_id (sample_message (lit ''a'') Outbound Sending) = lit ''a''"
    by (simp_all add: sample_world_def sample_message_def)
  with worker_never_loses_a_message [where api = ?api, OF run ids] api show ?thesis
    unfolding Let_def 1 2 split_conv by auto
qed

text \<open>
  C25. An admin's restart request is honoured once: an iteration ends the process exactly when the
  flag is set, and then the flag is cleared while no message, delivery or modem state is touched, so
  the process that comes up next keeps running.
\<close>

theorem restart_exactly_once:
  assumes "loop_iteration other D s w = (out, s', w')"
  shows "(out = Exited \<longleftrightarrow> truthy (get_config (db w) RESTART_WORKER)) \<and>
    (out = Exited \<longrightarrow> \<not> truthy (get_config (db w') RESTART_WORKER) \<and> messages (db w') = messages (db w) \<and>
       deliveries (db w') = deliveries (db w) \<and> drv w' = drv w \<and>
       get_config (db w') WEBHOOK_URL = get_config (db w) WEBHOOK_URL)"
proof (cases "truthy (get_config (db w) RESTART_WORKER)")
  case True
  then have w': "out = Exited" "w' = record_event (lit ''worker'') (lit ''info'')
      (lit ''worker restarting (admin request)'') (set_config RESTART_WORKER None w)"
    using assms by (simp_all add: loop_iteration_def restart_requested_def)
  have "get_config (db w') k = get_config (db (set_config RESTART_WORKER None w)) k" for k
    by (simp add: w' get_config_def)
  then show ?thesis using True w' cfg.get_put [of RESTART_WORKER None w]
    by (simp add: config_keys_distinct [symmetric])
next
  case False
  then have "out \<noteq> Exited"
    using assms by (auto simp: loop_iteration_def restart_requested_def Let_def split: sum.splits prod.splits)
  with False show ?thesis by simp
qed

theorem restart_exactly_once_witness:
  "\<exists>s' w'. loop_iteration undisturbed FakeDriver (fst (start_worker 10 (sample_world empty_db (new_fake_driver None))))
     (set_config RESTART_WORKER (Some (lit ''1'')) (sample_world empty_db (new_fake_driver None)))
     = (Exited, s', w') \<and> \<not> truthy (get_config (db w') RESTART_WORKER)"
proof -
  let ?s = "fst (start_worker 10 (sample_world empty_db (new_fake_driver None)))"
  let ?w = "set_config RESTART_WORKER (Some (lit ''1'')) (sample_world empty_db (new_fake_driver None))"
  obtain out s' w' where out: "loop_iteration undisturbed FakeDriver ?s ?w = (out, s', w')" by (metis prod.exhaust)
  have "truthy (get_config (db ?w) RESTART_WORKER)" by (simp add: cfg.get_put)
  with restart_exactly_once [OF out] have "out = Exited" "\<not> truthy (get_config (db w') RESTART_WORKER)" by blast+
  with out show ?thesis by blast
qed



end
