(* ===== verification/Encoding.thy ===== *)
theory Encoding
  imports Prelude Sms
begin

text \<open>
  The encodings of the standard library that the gateway uses on its texts: UTF-8
  (\<open>str.encode\<close>, \<open>bytes.decode\<close>), JSON string literals as \<open>json.dumps\<close> writes them with
  \<open>ensure_ascii=False\<close>, and URL-safe Base64 with the lenient reading of \<open>binascii.a2b_base64\<close>.
  Bytes are numbers below 256.
\<close>

type_synonym bytes = "nat list"

section \<open>UTF-8\<close>

fun utf8_char :: "nat \<Rightarrow> bytes" where
  "utf8_char c =
     (if c < 128 then [c]
      else if c < 2048 then [192 + c div 64, 128 + c mod 64]
      else if c < 65536 then [224 + c div 4096, 128 + c div 64 mod 64, 128 + c mod 64]
      else [240 + c div 262144, 128 + c div 4096 mod 64, 128 + c div 64 mod 64, 128 + c mod 64])"

declare utf8_char.simps [simp del]

text \<open>A Unicode scalar value: a code point that is not a surrogate.\<close>

definition scalar :: "nat \<Rightarrow> bool" where
  "scalar c \<longleftrightarrow> c < 1114112 \<and> \<not> surrogate c"

definition utf8_encode :: "str \<Rightarrow> exn + bytes" where
  "utf8_encode s = (if list_all scalar s then Inr (concat (map utf8_char s)) else Inl UnicodeEncodeError)"

definition cont_byte :: "nat \<Rightarrow> bool" where
  "cont_byte b \<longleftrightarrow> 128 \<le> b \<and> b < 192"

text \<open>One code point off the front; overlong forms, surrogates and values past the range are errors.\<close>

fun utf8_next :: "bytes \<Rightarrow> (nat \<times> bytes) option" where
  "utf8_next [] = None"
| "utf8_next (a # bs) =
     (if a < 128 then Some (a, bs)
      else if 194 \<le> a \<and> a < 224 then
        (case bs of
           b # bs' \<Rightarrow> if cont_byte b then Some ((a - 192) * 64 + (b - 128), bs') else None
         | _ \<Rightarrow> None)
      else if 224 \<le> a \<and> a < 240 then
        (case bs of
           b # c # bs' \<Rightarrow>
             let v = (a - 224) * 4096 + (b - 128) * 64 + (c - 128)
             in if cont_byte b \<and> cont_byte c \<and> 2048 \<le> v \<and> scalar v then Some (v, bs') else None
         | _ \<Rightarrow> None)
      else if 240 \<le> a \<and> a < 245 then
        (case bs of
           b # c # d # bs' \<Rightarrow>
             let v = (a - 240) * 262144 + (b - 128) * 4096 + (c - 128) * 64 + (d - 128)
             in if cont_byte b \<and> cont_byte c \<and> cont_byte d \<and> 65536 \<le> v \<and> scalar v then Some (v, bs') else None
         | _ \<Rightarrow> None)
      else None)"

declare utf8_next.simps [simp del]

lemma utf8_next_shorter: "utf8_next bs = Some (c, bs') \<Longrightarrow> length bs' < length bs"
  by (cases bs) (auto simp: utf8_next.simps Let_def split: if_splits list.splits)

function utf8_decode :: "bytes \<Rightarrow> str option" where
  "utf8_decode bs =
     (if bs = [] then Some []
      else (case utf8_next bs of
              None \<Rightarrow> None
            | Some (c, bs') \<Rightarrow> map_option ((#) c) (utf8_decode bs')))"
  by pat_completeness auto
termination by (relation "measure length") (auto dest: utf8_next_shorter)

declare utf8_decode.simps [simp del]

lemma utf8_next_char: "scalar c \<Longrightarrow> utf8_next (utf8_char c @ bs) = Some (c, bs)"
proof -
  assume c: "scalar c"
  then have lt: "c < 1114112" by (simp add: scalar_def)
  have d1: "c div 64 * 64 + c mod 64 = c" by simp
  have d2: "c div 4096 * 4096 + c div 64 mod 64 * 64 + c mod 64 = c"
  proof -
    have "c div 64 = c div 64 div 64 * 64 + c div 64 mod 64" by simp
    moreover have "c div 64 div 64 = c div 4096" by (simp add: div_mult2_eq [symmetric])
    ultimately show ?thesis using d1 by linarith
  qed
  have d3: "c div 262144 * 262144 + c div 4096 mod 64 * 4096 + c div 64 mod 64 * 64 + c mod 64 = c"
  proof -
    have "c div 4096 = c div 4096 div 64 * 64 + c div 4096 mod 64" by simp
    moreover have "c div 4096 div 64 = c div 262144" by (simp add: div_mult2_eq [symmetric])
    ultimately show ?thesis using d2 by linarith
  qed
  have m: "\<And>x. x mod 64 < (64 :: nat)" by simp
  consider "c < 128" | "128 \<le> c" "c < 2048" | "2048 \<le> c" "c < 65536" | "65536 \<le> c" by linarith
  then show ?thesis
  proof cases
    case 1
    then show ?thesis by (simp add: utf8_char.simps utf8_next.simps)
  next
    case 2
    then have "2 \<le> c div 64" "c div 64 < 32" by (simp_all add: div_le_mono less_mult_imp_div_less)
    with 2 d1 m show ?thesis by (simp add: utf8_char.simps utf8_next.simps cont_byte_def)
  next
    case 3
    then have "c div 4096 < 16" by (simp add: less_mult_imp_div_less)
    with 3 d2 m c show ?thesis by (simp add: utf8_char.simps utf8_next.simps cont_byte_def Let_def)
  next
    case 4
    have "c div 262144 < 5" using lt by (simp add: less_mult_imp_div_less)
    with 4 d3 m c show ?thesis by (simp add: utf8_char.simps utf8_next.simps cont_byte_def Let_def)
  qed
qed

lemma utf8_char_not_Nil [simp]: "utf8_char c \<noteq> []"
  by (simp add: utf8_char.simps)

lemma utf8_decode_encode: "utf8_encode s = Inr bs \<Longrightarrow> utf8_decode bs = Some s"
proof -
  have "list_all scalar s \<Longrightarrow> utf8_decode (concat (map utf8_char s)) = Some s"
  proof (induction s)
    case (Cons c s)
    then show ?case by (subst utf8_decode.simps) (simp add: utf8_next_char)
  qed (simp add: utf8_decode.simps)
  then show "utf8_encode s = Inr bs \<Longrightarrow> utf8_decode bs = Some s"
    by (auto simp: utf8_encode_def split: if_splits)
qed

lemma utf8_byte_bound: "scalar c \<Longrightarrow> b \<in> set (utf8_char c) \<Longrightarrow> b < 256"
proof -
  assume "scalar c" "b \<in> set (utf8_char c)"
  moreover from this have "c div 262144 < 5" by (simp add: scalar_def less_mult_imp_div_less)
  moreover have "c < 65536 \<Longrightarrow> c div 4096 < 16" "c < 2048 \<Longrightarrow> c div 64 < 32"
    by (simp_all add: less_mult_imp_div_less)
  moreover have "\<And>x. x mod 64 < (64 :: nat)" by simp
  ultimately show "b < 256" by (auto simp: utf8_char.simps split: if_splits)
qed

lemma utf8_encode_bytes: "utf8_encode s = Inr bs \<Longrightarrow> list_all (\<lambda>b. b < 256) bs"
  unfolding utf8_encode_def list_all_iff
  by (auto split: if_splits elim!: utf8_byte_bound [rotated])

lemma utf8_encode_ascii: "list_all (\<lambda>c. c < 128) s \<Longrightarrow> utf8_encode s = Inr s"
proof -
  assume "list_all (\<lambda>c. c < 128) s"
  then have "list_all scalar s \<and> concat (map utf8_char s) = s"
    by (induction s) (auto simp: scalar_def surrogate_def utf8_char.simps)
  then show ?thesis by (simp add: utf8_encode_def)
qed

section \<open>Blanks and numbers\<close>

text \<open>\<open>str.isspace\<close> of one character, \<open>str.strip\<close> and \<open>str.partition\<close> at one character.\<close>

definition py_space :: "nat \<Rightarrow> bool" where
  "py_space c \<longleftrightarrow> 9 \<le> c \<and> c \<le> 13 \<or> 28 \<le> c \<and> c \<le> 32 \<or> c = 133 \<or> c = 160 \<or> c = 5760 \<or>
     8192 \<le> c \<and> c \<le> 8202 \<or> c = 8232 \<or> c = 8233 \<or> c = 8239 \<or> c = 8287 \<or> c = 12288"

definition lstrip :: "str \<Rightarrow> str" where
  "lstrip s = dropWhile py_space s"

definition rstrip :: "str \<Rightarrow> str" where
  "rstrip s = rev (dropWhile py_space (rev s))"

definition strip :: "str \<Rightarrow> str" where
  "strip s = rstrip (lstrip s)"

definition before_char :: "nat \<Rightarrow> str \<Rightarrow> str" where
  "before_char c s = takeWhile (\<lambda>x. x \<noteq> c) s"

definition after_char :: "nat \<Rightarrow> str \<Rightarrow> str" where
  "after_char c s = tl (dropWhile (\<lambda>x. x \<noteq> c) s)"

lemma cut_at_char [simp]:
  assumes "c \<notin> set a"
  shows "before_char c (a @ c # b) = a" "after_char c (a @ c # b) = b"
  using assms by (induction a) (auto simp: before_char_def after_char_def)

text \<open>
  \<open>int(s)\<close>: blanks around, a sign, digits with single underscores between them. Decimal digits
  outside ASCII, which Python reads as well, are an error here.
\<close>

definition is_digit :: "nat \<Rightarrow> bool" where
  "is_digit c \<longleftrightarrow> 48 \<le> c \<and> c \<le> 57"

fun read_digits :: "nat \<Rightarrow> str \<Rightarrow> nat option" where
  "read_digits n [] = None"
| "read_digits n [d] = (if is_digit d then Some (n * 10 + (d - 48)) else None)"
| "read_digits n (d # e # ds) =
     (if \<not> is_digit d then None
      else if e = 95 then read_digits (n * 10 + (d - 48)) ds
      else read_digits (n * 10 + (d - 48)) (e # ds))"

definition py_int :: "str \<Rightarrow> int option" where
  "py_int s =
     (case strip s of
        [] \<Rightarrow> None
      | c # cs \<Rightarrow>
          if c = 45 then map_option (\<lambda>n. - int n) (read_digits 0 cs)
          else if c = 43 then map_option int (read_digits 0 cs)
          else map_option int (read_digits 0 (c # cs)))"

lemma read_digits_append:
  "ds \<noteq> [] \<Longrightarrow> list_all is_digit ds \<Longrightarrow> is_digit d \<Longrightarrow>
   read_digits n (ds @ [d]) = map_option (\<lambda>k. k * 10 + (d - 48)) (read_digits n ds)"
  by (induction n ds rule: read_digits.induct) (auto simp: is_digit_def)

lemma nat_str_digits: "list_all is_digit (nat_str n)"
proof (induction n rule: less_induct)
  case (less n)
  have digit: "k < 10 \<Longrightarrow> is_digit (48 + k)" for k by (simp add: is_digit_def)
  show ?case
  proof (cases "n < 10")
    case True
    then show ?thesis by (simp add: nat_str.simps [of n] digit)
  next
    case False
    then show ?thesis using less.IH [of "n div 10"] by (simp add: nat_str.simps [of n] digit)
  qed
qed

lemma read_digits_nat_str: "read_digits 0 (nat_str n) = Some n"
proof (induction n rule: less_induct)
  case (less n)
  show ?case
  proof (cases "n < 10")
    case True
    then show ?thesis by (simp add: nat_str.simps [of n] is_digit_def)
  next
    case False
    then have "read_digits 0 (nat_str (n div 10) @ [48 + n mod 10]) = Some (n div 10 * 10 + n mod 10)"
      using less.IH [of "n div 10"] nat_str_digits [of "n div 10"]
      by (subst read_digits_append) (auto simp: is_digit_def)
    then show ?thesis using False by (simp add: nat_str.simps [of n])
  qed
qed

text \<open>A text without blanks at its ends is its own \<open>strip\<close>.\<close>

lemma strip_id: "s \<noteq> [] \<Longrightarrow> \<not> py_space (hd s) \<Longrightarrow> \<not> py_space (last s) \<Longrightarrow> strip s = s"
  by (simp add: strip_def lstrip_def rstrip_def dropWhile_eq_self_iff [THEN iffD2] hd_rev)

lemma strip_unblank:
  assumes "strip s \<noteq> []"
  shows "\<not> py_space (hd (strip s))" "\<not> py_space (last (strip s))"
proof -
  define l where "l = lstrip s"
  have s: "strip s = rev (dropWhile py_space (rev l))" by (simp add: strip_def rstrip_def l_def)
  then have ne: "dropWhile py_space (rev l) \<noteq> []" using assms by simp
  then show "\<not> py_space (last (strip s))" using s hd_dropWhile [OF ne] by (simp add: last_rev)
  have l: "l \<noteq> []" using ne by auto
  then have hd: "\<not> py_space (hd l)" unfolding l_def lstrip_def by (rule hd_dropWhile)
  have "hd (strip s) = hd l"
  proof -
    have "l = strip s @ rev (takeWhile py_space (rev l))"
      unfolding s by (metis rev_append rev_rev_ident takeWhile_dropWhile_id)
    then show ?thesis using assms by (metis hd_append2)
  qed
  then show "\<not> py_space (hd (strip s))" using hd by simp
qed

lemma py_int_nat_str: "py_int (nat_str n) = Some (int n)"
proof -
  have "\<forall>c \<in> set (nat_str n). is_digit c" using nat_str_digits by (simp add: list_all_iff)
  then have digit: "is_digit (hd (nat_str n))" "is_digit (last (nat_str n))" by simp_all
  then have "\<not> py_space (hd (nat_str n))" "\<not> py_space (last (nat_str n))"
    by (auto simp: is_digit_def py_space_def)
  then have strip: "strip (nat_str n) = nat_str n" by (simp add: strip_id)
  obtain c cs where c: "nat_str n = c # cs" by (cases "nat_str n") auto
  then have "c \<noteq> 45" "c \<noteq> 43" using digit by (auto simp: is_digit_def)
  then show ?thesis
    using read_digits_nat_str [of n] unfolding py_int_def strip by (simp add: c)
qed

lemma py_int_int_str: "py_int (int_str i) = Some i"
proof (cases "i < 0")
  case True
  have "is_digit (last (nat_str (nat (- i))))"
    using nat_str_digits [of "nat (- i)"] by (simp add: list_all_iff)
  then have "\<not> py_space (last (45 # nat_str (nat (- i))))" by (auto simp: is_digit_def py_space_def)
  then have "strip (45 # nat_str (nat (- i))) = 45 # nat_str (nat (- i))"
    by (intro strip_id) (simp_all add: py_space_def)
  then show ?thesis using True by (simp add: int_str_def py_int_def read_digits_nat_str)
qed (simp add: int_str_def py_int_nat_str)

section \<open>Hexadecimal\<close>

definition hex_digit :: "nat \<Rightarrow> nat" where
  "hex_digit n = (if n < 10 then 48 + n else 87 + n)"

definition hex_value :: "nat \<Rightarrow> nat option" where
  "hex_value c =
     (if 48 \<le> c \<and> c \<le> 57 then Some (c - 48)
      else if 97 \<le> c \<and> c \<le> 102 then Some (c - 87)
      else if 65 \<le> c \<and> c \<le> 70 then Some (c - 55)
      else None)"

text \<open>\<open>bytes.hex\<close> and \<open>bytes.fromhex\<close>, which skips ASCII blanks between the bytes.\<close>

definition hex :: "bytes \<Rightarrow> str" where
  "hex bs = concat (map (\<lambda>b. [hex_digit (b div 16), hex_digit (b mod 16)]) bs)"

definition ascii_space :: "nat \<Rightarrow> bool" where
  "ascii_space c \<longleftrightarrow> 9 \<le> c \<and> c \<le> 13 \<or> c = 32"

fun from_hex :: "str \<Rightarrow> bytes option" where
  "from_hex [] = Some []"
| "from_hex [c] = (if ascii_space c then Some [] else None)"
| "from_hex (c # d # cs) =
     (if ascii_space c then from_hex (d # cs)
      else (case (hex_value c, hex_value d) of
              (Some a, Some b) \<Rightarrow> map_option ((#) (a * 16 + b)) (from_hex cs)
            | _ \<Rightarrow> None))"

lemma hex_value_digit [simp]: "n < 16 \<Longrightarrow> hex_value (hex_digit n) = Some n"
  by (auto simp: hex_value_def hex_digit_def)

lemma hex_digit_inject: "hex_digit m = hex_digit n \<longleftrightarrow> m = n"
  by (auto simp: hex_digit_def split: if_splits)

lemma hex_inject: "hex as = hex bs \<longleftrightarrow> as = bs"
proof (induction as arbitrary: bs)
  case (Cons a as)
  have "a div 16 = b div 16 \<and> a mod 16 = b mod 16 \<longleftrightarrow> a = b" for b by (metis div_mult_mod_eq)
  then show ?case using Cons.IH by (cases bs) (auto simp: hex_def hex_digit_inject)
qed (auto simp: hex_def)

lemma from_hex_hex: "list_all (\<lambda>b. b < 256) bs \<Longrightarrow> from_hex (hex bs) = Some bs"
proof (induction bs)
  case (Cons b bs)
  then have "b div 16 < 16" by (simp add: less_mult_imp_div_less)
  moreover have "\<not> ascii_space (hex_digit n)" for n by (simp add: ascii_space_def hex_digit_def)
  ultimately show ?case using Cons by (simp add: hex_def)
qed (simp add: hex_def)

lemma hex_char_range:
  assumes "list_all (\<lambda>b. b < 256) bs" and "c \<in> set (hex bs)"
  shows "48 \<le> c \<and> c \<le> 57 \<or> 97 \<le> c \<and> c \<le> 102"
proof -
  obtain b where b: "b \<in> set bs" "c = hex_digit (b div 16) \<or> c = hex_digit (b mod 16)"
    using assms(2) by (auto simp: hex_def)
  then have "b div 16 < 16" "b mod 16 < 16" using assms(1) by (auto simp: list_all_iff less_mult_imp_div_less)
  with b(2) obtain n where "n < 16" "c = hex_digit n" by blast
  then show ?thesis by (cases "n < 10") (simp_all add: hex_digit_def)
qed

lemma hex_no_dollar: "36 \<notin> set (hex bs)"
  by (auto simp: hex_def hex_digit_def)

section \<open>JSON string literals\<close>

definition json_char :: "nat \<Rightarrow> str" where
  "json_char c =
     (if c = 34 then [92, 34]
      else if c = 92 then [92, 92]
      else if c = 8 then [92, 98]
      else if c = 9 then [92, 116]
      else if c = 10 then [92, 110]
      else if c = 12 then [92, 102]
      else if c = 13 then [92, 114]
      else if c < 32 then [92, 117, 48, 48, hex_digit (c div 16), hex_digit (c mod 16)]
      else [c])"

definition json_string :: "str \<Rightarrow> str" where
  "json_string s = 34 # concat (map json_char s) @ [34]"

text \<open>
  The grammar of a JSON string, as a reader of what follows the opening quote: it returns the text
  and the rest after the closing quote.
\<close>

definition short_escape :: "nat \<Rightarrow> nat option" where
  "short_escape c =
     (if c \<in> {34, 92, 47} then Some c
      else if c = 98 then Some 8
      else if c = 116 then Some 9
      else if c = 110 then Some 10
      else if c = 102 then Some 12
      else if c = 114 then Some 13
      else None)"

definition hex4_value :: "nat \<Rightarrow> nat \<Rightarrow> nat \<Rightarrow> nat \<Rightarrow> nat option" where
  "hex4_value a b c d =
     (case (hex_value a, hex_value b, hex_value c, hex_value d) of
        (Some w, Some x, Some y, Some z) \<Rightarrow> Some (w * 4096 + x * 256 + y * 16 + z)
      | _ \<Rightarrow> None)"

fun json_read :: "str \<Rightarrow> (str \<times> str) option" where
  "json_read [] = None"
| "json_read (c # cs) =
     (if c = 34 then Some ([], cs)
      else if c < 32 then None
      else if c \<noteq> 92 then map_option (apfst ((#) c)) (json_read cs)
      else (case cs of
              [] \<Rightarrow> None
            | e # cs' \<Rightarrow>
                if e \<noteq> 117 then
                  (case short_escape e of
                     None \<Rightarrow> None
                   | Some v \<Rightarrow> map_option (apfst ((#) v)) (json_read cs'))
                else (case cs' of
                        h1 # h2 # h3 # h4 # cs'' \<Rightarrow>
                          (case hex4_value h1 h2 h3 h4 of
                             None \<Rightarrow> None
                           | Some v \<Rightarrow> map_option (apfst ((#) v)) (json_read cs''))
                      | _ \<Rightarrow> None)))"

declare json_read.simps(2) [simp del]

lemma json_read_char: "json_read (json_char c @ cs) = map_option (apfst ((#) c)) (json_read cs)"
proof -
  have "c < 32 \<Longrightarrow> c div 16 * 16 + c mod 16 = c \<and> c div 16 < 16" by (simp add: less_mult_imp_div_less)
  then show ?thesis
    by (auto simp: json_char_def json_read.simps short_escape_def hex4_value_def hex_value_def [of 48])
qed

lemma json_read_string: "json_read (concat (map json_char s) @ 34 # cs) = Some (s, cs)"
  by (induction s) (simp_all add: json_read_char json_read.simps(2) [of 34])

section \<open>URL-safe Base64\<close>

definition b64_char :: "nat \<Rightarrow> nat" where
  "b64_char n =
     (if n < 26 then 65 + n else if n < 52 then 71 + n else if n < 62 then n - 4
      else if n = 62 then 45 else 95)"

fun b64_encode :: "bytes \<Rightarrow> str" where
  "b64_encode [] = []"
| "b64_encode [a] = [b64_char (a div 4), b64_char (a mod 4 * 16), 61, 61]"
| "b64_encode [a, b] =
     [b64_char (a div 4), b64_char (a mod 4 * 16 + b div 16), b64_char (b mod 16 * 4), 61]"
| "b64_encode (a # b # c # bs) =
     [b64_char (a div 4), b64_char (a mod 4 * 16 + b div 16), b64_char (b mod 16 * 4 + c div 64),
      b64_char (c mod 64)] @ b64_encode bs"

text \<open>\<open>-\<close> and \<open>_\<close> are translated first, so that both alphabets are read.\<close>

definition b64_value :: "nat \<Rightarrow> nat option" where
  "b64_value c =
     (if 65 \<le> c \<and> c \<le> 90 then Some (c - 65)
      else if 97 \<le> c \<and> c \<le> 122 then Some (c - 71)
      else if 48 \<le> c \<and> c \<le> 57 then Some (c + 4)
      else if c = 45 \<or> c = 43 then Some 62
      else if c = 95 \<or> c = 47 then Some 63
      else None)"

text \<open>
  The reader of \<open>binascii\<close>: position in the quad, bits left over, padding seen. Characters
  outside the alphabet are skipped, a complete padding ends the input.
\<close>

fun b64_read :: "nat \<Rightarrow> nat \<Rightarrow> nat \<Rightarrow> str \<Rightarrow> bytes option" where
  "b64_read q l p [] = (if q = 0 then Some [] else None)"
| "b64_read q l p (ch # cs) =
     (if ch = 61 then
        (if 2 \<le> q then (if 4 \<le> q + Suc p then Some [] else b64_read q l (Suc p) cs)
         else b64_read q l p cs)
      else (case b64_value ch of
              None \<Rightarrow> b64_read q l p cs
            | Some v \<Rightarrow>
                if q = 0 then b64_read 1 v 0 cs
                else if q = 1 then map_option ((#) (l * 4 + v div 16)) (b64_read 2 (v mod 16) 0 cs)
                else if q = 2 then map_option ((#) (l * 16 + v div 4)) (b64_read 3 (v mod 4) 0 cs)
                else map_option ((#) (l * 64 + v)) (b64_read 0 0 0 cs)))"

definition b64_decode :: "str \<Rightarrow> bytes option" where
  "b64_decode s = b64_read 0 0 0 s"

lemma b64_value_char [simp]: "n < 64 \<Longrightarrow> b64_value (b64_char n) = Some n"
  by (auto simp: b64_value_def b64_char_def)

lemma b64_char_not_pad [simp]: "n < 64 \<Longrightarrow> b64_char n \<noteq> 61"
  by (auto simp: b64_char_def)

lemma b64_decode_encode: "list_all (\<lambda>b. b < 256) bs \<Longrightarrow> b64_decode (b64_encode bs) = Some bs"
  unfolding b64_decode_def
proof (induction bs rule: b64_encode.induct)
  case (2 a)
  moreover have "a mod 4 * 16 < 64" "a div 4 * 4 + a mod 4 = a" by simp_all
  ultimately show ?case by (simp add: less_mult_imp_div_less)
next
  case (3 a b)
  moreover have "a mod 4 * 16 + b div 16 < 64" "b mod 16 * 4 < 64" "b div 16 < 16"
    using 3 by simp_all linarith+
  moreover have "a div 4 * 4 + a mod 4 = a" "b div 16 * 16 + b mod 16 = b" by simp_all
  ultimately show ?case by (simp add: less_mult_imp_div_less add.commute)
next
  case (4 a b c bs)
  moreover have "b div 16 < 16" "c div 64 < 4" "a div 4 < 64" using 4 by auto
  moreover have "a mod 4 * 16 + b div 16 < 64" "b mod 16 * 4 + c div 64 < 64" "c mod 64 < 64"
    using 4 by simp_all linarith+
  moreover have "a div 4 * 4 + a mod 4 = a" "b div 16 * 16 + b mod 16 = b" "c div 64 * 64 + c mod 64 = c"
    by simp_all
  ultimately show ?case by (simp add: add.commute)
qed simp

lemma b64_encode_ascii: "list_all (\<lambda>b. b < 256) bs \<Longrightarrow> list_all (\<lambda>c. c < 128) (b64_encode bs)"
proof (induction bs rule: b64_encode.induct)
  have small: "n < 64 \<Longrightarrow> b64_char n < 128" for n by (auto simp: b64_char_def)
  {
    case (2 a)
    then show ?case by (simp add: small less_mult_imp_div_less)
  next
    case (3 a b)
    then have "a mod 4 * 16 + b div 16 < 64" "b mod 16 * 4 < 64" by simp_all linarith+
    then show ?case using 3 by (simp add: small less_mult_imp_div_less)
  next
    case (4 a b c bs)
    then have "a mod 4 * 16 + b div 16 < 64" "b mod 16 * 4 + c div 64 < 64" by simp_all linarith+
    then show ?case using 4 by (simp add: small less_mult_imp_div_less)
  }
qed simp

lemma b64_encode_Nil [simp]: "b64_encode bs = [] \<longleftrightarrow> bs = []"
  by (cases bs rule: b64_encode.cases) simp_all

end
