(* ===== verification/Webhooks.thy ===== *)
theory Webhooks
  imports Inbox Encoding
begin

text \<open>
  \<^verbatim>\<open>gateway/api/webhooks.py\<close>: the signed payload of an inbound message and one round of the
  dispatcher, \<open>process_due_deliveries\<close>. \<open>hmac\<close> is HMAC-SHA256 as a function from key and message to
  a hexadecimal digest. The HTTP client (httpx, not part of the repository) is a function on the
  world: its change of the world is everything that happens while the request is awaited, the
  commits of the other handlers of the process included.
\<close>

definition BACKOFF_DELAYS_SECONDS :: "nat list" where
  "BACKOFF_DELAYS_SECONDS = [60, 300, 1800, 7200, 21600]"

definition MAX_RETRIES :: nat where "MAX_RETRIES = length BACKOFF_DELAYS_SECONDS"

definition sign_payload :: "(bytes \<Rightarrow> bytes \<Rightarrow> str) \<Rightarrow> str \<Rightarrow> bytes \<Rightarrow> exn + str" where
  "sign_payload hmac secret raw_body =
     (case utf8_encode secret of
        Inl x \<Rightarrow> Inl x
      | Inr key \<Rightarrow> Inr (lit ''sha256='' @ hmac key raw_body))"

section \<open>The payload\<close>

text \<open>A JSON value of the payload: a text or \<open>null\<close>.\<close>

definition build_payload :: "message \<Rightarrow> (str \<times> str option) list" where
  "build_payload m =
     [(lit ''id'', Some (msg_id m)), (lit ''type'', Some (lit ''sms.received'')),
      (lit ''from'', Some (msg_msisdn m)), (lit ''to'', Some (lit ''gateway'')),
      (lit ''body'', Some (msg_body m)), (lit ''received_at'', msg_received_at m)]"

definition json_value :: "str option \<Rightarrow> str" where
  "json_value v = (case v of None \<Rightarrow> lit ''null'' | Some s \<Rightarrow> json_string s)"

text \<open>\<open>json.dumps(\<dots>, ensure_ascii=False, separators=(",", ":"))\<close> of an object of such values.\<close>

fun json_members :: "(str \<times> str option) list \<Rightarrow> str" where
  "json_members [] = []"
| "json_members [(k, v)] = json_string k @ 58 # json_value v"
| "json_members ((k, v) # kv # kvs) = json_string k @ 58 # json_value v @ 44 # json_members (kv # kvs)"

definition json_dumps :: "(str \<times> str option) list \<Rightarrow> str" where
  "json_dumps kvs = 123 # json_members kvs @ [125]"

definition raw_payload :: "message \<Rightarrow> exn + bytes" where
  "raw_payload m = utf8_encode (json_dumps (build_payload m))"

section \<open>One delivery\<close>

datatype post_result = Response nat | HTTPError | PostRaised exn

record request =
  rq_url :: str
  rq_content :: bytes
  rq_headers :: "(str \<times> str) list"

type_synonym 'd http_client = "request \<Rightarrow> 'd world \<Rightarrow> post_result \<times> 'd world"

text \<open>An injected \<open>now\<close> stays fixed; otherwise the clock is read.\<close>

definition read_now :: "datetime option \<Rightarrow> 'd world \<Rightarrow> datetime \<times> 'd world" where
  "read_now now w = (case now of Some t \<Rightarrow> (t, w) | None \<Rightarrow> now_utc w)"

definition webhook_request ::
  "(bytes \<Rightarrow> bytes \<Rightarrow> str) \<Rightarrow> str \<Rightarrow> str \<Rightarrow> delivery \<Rightarrow> message \<Rightarrow> exn + request" where
  "webhook_request hmac url secret r m =
     (case raw_payload m of
        Inl x \<Rightarrow> Inl x
      | Inr raw \<Rightarrow>
          (case sign_payload hmac secret raw of
             Inl x \<Rightarrow> Inl x
           | Inr sig \<Rightarrow> Inr \<lparr>rq_url = url, rq_content = raw,
               rq_headers = [(lit ''Content-Type'', lit ''application/json''),
                 (lit ''X-Gateway-Signature'', sig), (lit ''X-Gateway-Delivery'', whd_id r)]\<rparr>))"

text \<open>An ORM attribute is written only where it differs from the value that was loaded.\<close>

definition orm_set :: "'a \<Rightarrow> 'a \<Rightarrow> 'a \<Rightarrow> 'a" where
  "orm_set loaded v current = (if v = loaded then current else v)"

definition success :: "post_result \<Rightarrow> bool" where
  "success res = (case res of Response code \<Rightarrow> 200 \<le> code \<and> code < 300 | _ \<Rightarrow> False)"

definition response_code :: "post_result \<Rightarrow> nat option" where
  "response_code res = (case res of Response code \<Rightarrow> Some code | _ \<Rightarrow> None)"

definition counted :: "delivery \<Rightarrow> post_result \<Rightarrow> delivery \<Rightarrow> delivery" where
  "counted r res row = row\<lparr>whd_attempt := whd_attempt r + 1,
     whd_response_code := orm_set (whd_response_code r) (response_code res) (whd_response_code row)\<rparr>"

definition commit_delivery :: "str \<Rightarrow> (delivery \<Rightarrow> delivery) \<Rightarrow> 'd world \<Rightarrow> (exn + unit) \<times> 'd world" where
  "commit_delivery k f w =
     (case update_delivery k f (db w) of
        Inl x \<Rightarrow> (Inl x, w)
      | Inr d \<Rightarrow> (Inr (), w\<lparr>db := d\<rparr>))"

definition record_attempt ::
  "datetime option \<Rightarrow> delivery \<Rightarrow> post_result \<Rightarrow> 'd world \<Rightarrow> (exn + unit) \<times> 'd world" where
  "record_attempt now r res w =
     (let n = whd_attempt r + 1 in
      if success res then
        (case utc_now_iso w of (ts, w1) \<Rightarrow>
           commit_delivery (whd_id r)
             (\<lambda>row. (counted r res row)\<lparr>whd_status := WDelivered, whd_delivered_at := Some ts\<rparr>) w1)
      else if MAX_RETRIES < n then
        (case commit_delivery (whd_id r) (\<lambda>row. (counted r res row)\<lparr>whd_status := WFailed\<rparr>) w of
           (Inl x, w1) \<Rightarrow> (Inl x, w1)
         | (Inr _, w1) \<Rightarrow>
             (Inr (), record_event (lit ''webhook'') (lit ''warning'')
               (lit ''delivery '' @ whd_id r @ lit '' failed permanently'') w1))
      else
        (case read_now now w of (t, w1) \<Rightarrow>
           let retry = iso (t + int (BACKOFF_DELAYS_SECONDS ! (n - 1)) * 1000000)
           in commit_delivery (whd_id r)
                (\<lambda>row. (counted r res row)\<lparr>whd_next_retry_at :=
                   orm_set (whd_next_retry_at r) (Some retry) (whd_next_retry_at row)\<rparr>) w1))"

text \<open>The value tells whether the delivery was attempted.\<close>

definition attempt_delivery ::
  "(bytes \<Rightarrow> bytes \<Rightarrow> str) \<Rightarrow> 'd http_client \<Rightarrow> datetime option \<Rightarrow> str \<Rightarrow> str \<Rightarrow> str \<Rightarrow> 'd world \<Rightarrow>
   (exn + bool) \<times> 'd world" where
  "attempt_delivery hmac client now url secret k w =
     (case get_delivery (db w) k of
        None \<Rightarrow> (Inl ObjectDeletedError, w)
      | Some r \<Rightarrow>
          (case get_message (db w) (whd_message_id r) of
             None \<Rightarrow>
               (case commit_delivery k (\<lambda>row. row\<lparr>whd_status := WFailed\<rparr>) w of
                  (Inl x, w1) \<Rightarrow> (Inl x, w1)
                | (Inr _, w1) \<Rightarrow> (Inr False, w1))
           | Some m \<Rightarrow>
               (case webhook_request hmac url secret r m of
                  Inl x \<Rightarrow> (Inl x, w)
                | Inr req \<Rightarrow>
                    (case client req w of
                       (PostRaised x, w1) \<Rightarrow> (Inl x, w1)
                     | (res, w1) \<Rightarrow>
                         (case record_attempt now r res w1 of
                            (Inl x, w2) \<Rightarrow> (Inl x, w2)
                          | (Inr _, w2) \<Rightarrow> (Inr True, w2))))))"

section \<open>One round\<close>

definition delivery_key :: "delivery \<Rightarrow> str option \<times> str" where
  "delivery_key r = (whd_next_retry_at r, whd_id r)"

definition delivery_due :: "datetime \<Rightarrow> delivery \<Rightarrow> bool" where
  "delivery_due now r \<longleftrightarrow> whd_status r = WPending \<and>
     (case whd_next_retry_at r of None \<Rightarrow> False | Some t \<Rightarrow> t \<le> iso now)"

definition due_deliveries :: "datetime \<Rightarrow> database \<Rightarrow> delivery list" where
  "due_deliveries now d = sort_key delivery_key (filter (delivery_due now) (deliveries d))"

fun deliver_all ::
  "(bytes \<Rightarrow> bytes \<Rightarrow> str) \<Rightarrow> 'd http_client \<Rightarrow> datetime option \<Rightarrow> str \<Rightarrow> str \<Rightarrow> str list \<Rightarrow> 'd world \<Rightarrow>
   (exn + nat) \<times> 'd world" where
  "deliver_all hmac client now url secret [] w = (Inr 0, w)"
| "deliver_all hmac client now url secret (k # ks) w =
     (case attempt_delivery hmac client now url secret k w of
        (Inl x, w1) \<Rightarrow> (Inl x, w1)
      | (Inr b, w1) \<Rightarrow>
          (case deliver_all hmac client now url secret ks w1 of
             (Inl x, w2) \<Rightarrow> (Inl x, w2)
           | (Inr n, w2) \<Rightarrow> (Inr (if b then Suc n else n), w2)))"

definition process_due_deliveries ::
  "(bytes \<Rightarrow> bytes \<Rightarrow> str) \<Rightarrow> 'd http_client \<Rightarrow> datetime option \<Rightarrow> 'd world \<Rightarrow> (exn + nat) \<times> 'd world" where
  "process_due_deliveries hmac client now w =
     (case read_now now w of (t, w1) \<Rightarrow>
        let due = due_deliveries t (db w1) in
        if due = [] then (Inr 0, w1)
        else if \<not> webhook_configured (db w1) then (Inr 0, w1)
        else deliver_all hmac client now (the (get_config (db w1) WEBHOOK_URL))
               (the (get_config (db w1) WEBHOOK_SECRET)) (map whd_id due) w1)"

text \<open>One turn of \<open>dispatcher_loop\<close>: an exception ends the round and nothing else.\<close>

definition dispatcher_turn :: "(bytes \<Rightarrow> bytes \<Rightarrow> str) \<Rightarrow> 'd http_client \<Rightarrow> 'd world \<Rightarrow> 'd world" where
  "dispatcher_turn hmac client w = snd (process_due_deliveries hmac client None w)"

text \<open>
  The loop: a turn and then a sleep, during which the others commit what the list says, one entry for each sleep.
\<close>

fun dispatcher_loop ::
  "(bytes \<Rightarrow> bytes \<Rightarrow> str) \<Rightarrow> 'd http_client \<Rightarrow> (database \<Rightarrow> database) list \<Rightarrow> 'd world \<Rightarrow> 'd world" where
  "dispatcher_loop hmac client [] w = w"
| "dispatcher_loop hmac client (f # fs) w = dispatcher_loop hmac client fs (meanwhile f (dispatcher_turn hmac client w))"

section \<open>Reading a payload back\<close>

text \<open>The grammar of a flat JSON object of texts and nulls, with the number of members as fuel.\<close>

definition read_json_value :: "str \<Rightarrow> (str option \<times> str) option" where
  "read_json_value s =
     (case s of
        [] \<Rightarrow> None
      | c # cs \<Rightarrow>
          if c = 34 then map_option (apfst Some) (json_read cs)
          else if take 4 s = lit ''null'' then Some (None, drop 4 s)
          else None)"

fun read_members :: "nat \<Rightarrow> str \<Rightarrow> (str \<times> str option) list option" where
  "read_members 0 s = None"
| "read_members (Suc n) s =
     (case s of
        [] \<Rightarrow> None
      | q # cs \<Rightarrow>
          if q \<noteq> 34 then None
          else (case json_read cs of
                  Some (k, colon # rest) \<Rightarrow>
                    if colon \<noteq> 58 then None
                    else (case read_json_value rest of
                       Some (v, sep # rest') \<Rightarrow>
                         if sep = 125 \<and> rest' = [] then Some [(k, v)]
                         else if sep = 44 then map_option ((#) (k, v)) (read_members n rest')
                         else None
                     | _ \<Rightarrow> None)
                | _ \<Rightarrow> None))"

definition json_loads :: "str \<Rightarrow> (str \<times> str option) list option" where
  "json_loads s = (case s of c # cs \<Rightarrow> if c = 123 then read_members (length s) cs else None | [] \<Rightarrow> None)"

lemma read_json_value: "read_json_value (json_value v @ rest) = Some (v, rest)"
  by (cases v) (simp_all add: read_json_value_def json_value_def json_string_def json_read_string lit_def)

lemma read_members_dumps:
  "kvs \<noteq> [] \<Longrightarrow> length kvs \<le> n \<Longrightarrow> read_members n (json_members kvs @ [125]) = Some kvs"
proof (induction kvs arbitrary: n rule: json_members.induct)
  case (2 k v)
  then obtain n' where "n = Suc n'" by (cases n) auto
  then show ?case by (simp add: json_string_def json_read_string read_json_value)
next
  case (3 k v kv kvs)
  then obtain n' where "n = Suc n'" "length (kv # kvs) \<le> n'" by (cases n) auto
  with 3 show ?case by (simp add: json_string_def json_read_string read_json_value)
qed simp

lemma json_members_length: "kvs \<noteq> [] \<Longrightarrow> length kvs \<le> length (json_members kvs)"
  by (induction kvs rule: json_members.induct) (simp_all add: json_string_def)

lemma json_loads_dumps: "kvs \<noteq> [] \<Longrightarrow> json_loads (json_dumps kvs) = Some kvs"
  using json_members_length [of kvs] by (simp add: json_loads_def json_dumps_def read_members_dumps del: read_members.simps)

section \<open>What a round does to the deliveries\<close>

definition with_delivery :: "str \<Rightarrow> (delivery \<Rightarrow> delivery) \<Rightarrow> database \<Rightarrow> database" where
  "with_delivery k f d = d\<lparr>deliveries := map (\<lambda>r. if whd_id r = k then f r else r) (deliveries d)\<rparr>"

lemma commit_delivery_present:
  "get_delivery (db w) k \<noteq> None \<Longrightarrow> commit_delivery k f w = (Inr (), w\<lparr>db := with_delivery k f (db w)\<rparr>)"
  by (auto simp: commit_delivery_def with_delivery_def update_delivery_def update_row_def get_delivery_def)

lemma get_with_delivery:
  "(\<And>r. whd_id (f r) = whd_id r) \<Longrightarrow>
   get_delivery (with_delivery k f d) j =
     (if j = k then map_option f (get_delivery d k) else get_delivery d j)"
  by (auto simp: get_delivery_def with_delivery_def find_row_map)

text \<open>What one attempt makes of the row, on each of the three branches.\<close>

definition attempted :: "delivery \<Rightarrow> delivery \<Rightarrow> bool" where
  "attempted r r' \<longleftrightarrow> whd_attempt r' = whd_attempt r + 1 \<and> whd_message_id r' = whd_message_id r \<and>
     (whd_status r' = WDelivered \<and> (\<exists>code. 200 \<le> code \<and> code < 300 \<and> whd_response_code r' = Some code) \<or>
      whd_status r' = WFailed \<and> 6 \<le> whd_attempt r' \<or>
      whd_status r' = WPending \<and> whd_attempt r' \<le> 5 \<and>
        (\<exists>s. whd_next_retry_at r' =
           Some (iso (s + int ([60, 300, 1800, 7200, 21600] ! whd_attempt r) * 1000000))))"

definition other_tables_same :: "database \<Rightarrow> database \<Rightarrow> bool" where
  "other_tables_same d d' \<longleftrightarrow> messages d' = messages d \<and> gateway_config d' = gateway_config d \<and>
     api_tokens d' = api_tokens d \<and> admin_users d' = admin_users d \<and> gateway_status d' = gateway_status d"

lemma orm_set_same [simp]: "orm_set x v x = v"
  by (simp add: orm_set_def)

lemma counted_simps [simp]:
  "whd_id (counted r res row) = whd_id row" "whd_status (counted r res row) = whd_status row"
  "whd_attempt (counted r res row) = Suc (whd_attempt r)" "whd_message_id (counted r res row) = whd_message_id row"
  "whd_response_code (counted r res r) = response_code res"
  by (simp_all add: counted_def)

lemma record_attempt_effect:
  assumes r: "get_delivery (db w) (whd_id r) = Some r" and pending: "whd_status r = WPending"
  shows "\<exists>f w'. record_attempt now r res w = (Inr (), w') \<and>
    deliveries (db w') = deliveries (with_delivery (whd_id r) f (db w)) \<and>
    other_tables_same (db w) (db w') \<and> (\<forall>x. whd_id (f x) = whd_id x) \<and> attempted r (f r)"
proof -
  have present: "get_delivery (db w) (whd_id r) \<noteq> None" using r by simp
  consider (ok) "success res" | (last) "\<not> success res" "5 \<le> whd_attempt r"
    | (again) "\<not> success res" "whd_attempt r < 5" by linarith
  then show ?thesis
  proof cases
    case ok
    then obtain code where code: "res = Response code" "200 \<le> code" "code < 300"
      by (auto simp: success_def split: post_result.splits)
    let ?f = "\<lambda>row. (counted r res row)\<lparr>whd_status := WDelivered,
      whd_delivered_at := Some (fst (utc_now_iso w))\<rparr>"
    have "record_attempt now r res w = (Inr (), (advance 1 w)\<lparr>db := with_delivery (whd_id r) ?f (db w)\<rparr>)"
      using ok commit_delivery_present [of "advance 1 w" "whd_id r" ?f] present
      by (simp add: record_attempt_def Let_def utc_now_iso_def)
    moreover have "attempted r (?f r)" using code by (simp add: attempted_def response_code_def)
    ultimately show ?thesis
      by (intro exI [of _ ?f]) (simp add: other_tables_same_def with_delivery_def)
  next
    case last
    let ?f = "\<lambda>row. (counted r res row)\<lparr>whd_status := WFailed\<rparr>"
    let ?l = "lit ''delivery '' @ whd_id r @ lit '' failed permanently''"
    have "record_attempt now r res w = (Inr (), record_event (lit ''webhook'') (lit ''warning'') ?l
        (w\<lparr>db := with_delivery (whd_id r) ?f (db w)\<rparr>))"
      using last commit_delivery_present [OF present, of ?f]
      by (simp add: record_attempt_def Let_def MAX_RETRIES_def BACKOFF_DELAYS_SECONDS_def)
    moreover have "attempted r (?f r)" using last by (simp add: attempted_def)
    ultimately show ?thesis
      by (intro exI [of _ ?f]) (simp add: other_tables_same_def with_delivery_def)
  next
    case again
    obtain t w1 where t: "read_now now w = (t, w1)" "db w1 = db w"
      by (cases now) (auto simp: read_now_def now_utc_def)
    let ?retry = "iso (t + int (BACKOFF_DELAYS_SECONDS ! whd_attempt r) * 1000000)"
    let ?f = "\<lambda>row. (counted r res row)\<lparr>whd_next_retry_at :=
      orm_set (whd_next_retry_at r) (Some ?retry) (whd_next_retry_at row)\<rparr>"
    have "record_attempt now r res w = (Inr (), w1\<lparr>db := with_delivery (whd_id r) ?f (db w)\<rparr>)"
      using again t commit_delivery_present [of w1 "whd_id r" ?f] present
      by (simp add: record_attempt_def Let_def MAX_RETRIES_def BACKOFF_DELAYS_SECONDS_def)
    moreover have "attempted r (?f r)"
      using again pending by (auto simp: attempted_def BACKOFF_DELAYS_SECONDS_def)
    ultimately show ?thesis
      by (intro exI [of _ ?f]) (simp add: other_tables_same_def with_delivery_def)
  qed
qed

text \<open>
  A request that raises something else than \<open>HTTPError\<close> - \<open>InvalidURL\<close> is one, for a URL that the settings page
  accepts - ends the round before the attempt is counted: the delivery stays due as it was.
\<close>

lemma raised_request_uncounted:
  assumes "\<And>req v. \<exists>x. fst (client req v) = PostRaised x \<and> db (snd (client req v)) = db v"
    and "get_delivery (db w) k = Some r" and "get_message (db w) (whd_message_id r) = Some m"
  shows "\<exists>x w'. deliver_all hmac client now url secret (k # ks) w = (Inl x, w') \<and> db w' = db w"
proof (cases "webhook_request hmac url secret r m")
  case (Inr req)
  obtain x v where "client req w = (PostRaised x, v)" "db v = db w" using assms(1) [of req w] by (metis prod.collapse)
  then show ?thesis using assms(2,3) Inr by (simp add: attempt_delivery_def)
qed (use assms(2,3) in \<open>simp add: attempt_delivery_def\<close>)

text \<open>A client that answers or times out and during whose requests nobody else commits.\<close>

definition quiet :: "'d http_client \<Rightarrow> bool" where
  "quiet client \<longleftrightarrow> (\<forall>req w. db (snd (client req w)) = db w \<and> (\<forall>x. fst (client req w) \<noteq> PostRaised x))"

text \<open>A delivery that the round can post: pending, with its message and encodable texts.\<close>

definition postable :: "str \<Rightarrow> database \<Rightarrow> delivery \<Rightarrow> bool" where
  "postable secret d r \<longleftrightarrow> whd_status r = WPending \<and> list_all scalar secret \<and>
     (\<exists>m raw. get_message d (whd_message_id r) = Some m \<and> raw_payload m = Inr raw)"

lemma attempt_delivery_effect:
  assumes quiet: "quiet client" and r: "get_delivery (db w) k = Some r" and post: "postable secret (db w) r"
  shows "\<exists>f w'. attempt_delivery hmac client now url secret k w = (Inr True, w') \<and>
    deliveries (db w') = deliveries (with_delivery k f (db w)) \<and>
    other_tables_same (db w) (db w') \<and> (\<forall>x. whd_id (f x) = whd_id x) \<and> attempted r (f r)"
proof -
  have id: "whd_id r = k" using get_delivery_SomeD r by blast
  obtain m raw where m: "get_message (db w) (whd_message_id r) = Some m" "raw_payload m = Inr raw"
    using post by (auto simp: postable_def)
  obtain req where req: "webhook_request hmac url secret r m = Inr req"
    using m(2) post by (simp add: webhook_request_def sign_payload_def utf8_encode_def postable_def)
  obtain res w1 where res: "client req w = (res, w1)" by (metis prod.exhaust)
  have db1: "db w1 = db w" and ok: "\<And>x. res \<noteq> PostRaised x"
    using quiet res unfolding quiet_def by (metis fst_conv snd_conv)+
  have "get_delivery (db w1) (whd_id r) = Some r" using r db1 id by simp
  from record_attempt_effect [OF this, of now res] post obtain f w2 where f:
    "record_attempt now r res w1 = (Inr (), w2)" "deliveries (db w2) = deliveries (with_delivery k f (db w))"
    "other_tables_same (db w) (db w2)" "\<forall>x. whd_id (f x) = whd_id x" "attempted r (f r)"
    by (auto simp: postable_def id db1)
  have "attempt_delivery hmac client now url secret k w = (Inr True, w2)"
    using r m(1) req res f(1) ok by (cases res) (auto simp: attempt_delivery_def)
  with f show ?thesis by blast
qed

lemma other_tables_same_trans:
  "other_tables_same a b \<Longrightarrow> other_tables_same b c \<Longrightarrow> other_tables_same a c"
  by (simp add: other_tables_same_def)

lemma postable_same: "other_tables_same d d' \<Longrightarrow> postable secret d' r = postable secret d r"
  by (simp add: postable_def get_message_def other_tables_same_def)

lemma deliver_all_effect:
  assumes quiet: "quiet client" and "distinct ks"
    and "\<forall>k \<in> set ks. \<exists>r. get_delivery (db w) k = Some r \<and> postable secret (db w) r"
  shows "\<exists>w'. deliver_all hmac client now url secret ks w = (Inr (length ks), w') \<and>
    other_tables_same (db w) (db w') \<and>
    (\<forall>k. get_delivery (db w') k = get_delivery (db w) k \<or>
       k \<in> set ks \<and> (\<exists>r r'. get_delivery (db w) k = Some r \<and> get_delivery (db w') k = Some r' \<and> attempted r r')) \<and>
    (\<forall>k \<in> set ks. \<exists>r r'. get_delivery (db w) k = Some r \<and> get_delivery (db w') k = Some r' \<and> attempted r r')"
  using assms(2,3)
proof (induction ks arbitrary: w)
  case (Cons k ks)
  obtain r where r: "get_delivery (db w) k = Some r" "postable secret (db w) r" using Cons.prems(2) by auto
  from attempt_delivery_effect [OF quiet r] obtain f w1 where 1:
    "attempt_delivery hmac client now url secret k w = (Inr True, w1)"
    "deliveries (db w1) = deliveries (with_delivery k f (db w))" "other_tables_same (db w) (db w1)"
    "\<forall>x. whd_id (f x) = whd_id x" "attempted r (f r)" by blast
  have get1: "get_delivery (db w1) j = (if j = k then Some (f r) else get_delivery (db w) j)" for j
  proof -
    have "get_delivery (db w1) j = get_delivery (with_delivery k f (db w)) j"
      by (simp add: get_delivery_def 1(2))
    then show ?thesis using 1(4) r(1) by (simp add: get_with_delivery)
  qed
  have "\<forall>j \<in> set ks. \<exists>r. get_delivery (db w1) j = Some r \<and> postable secret (db w1) r"
  proof
    fix j assume j: "j \<in> set ks"
    then have "j \<noteq> k" using Cons.prems(1) by auto
    then show "\<exists>r. get_delivery (db w1) j = Some r \<and> postable secret (db w1) r"
      using Cons.prems(2) j by (simp add: get1 postable_same [OF 1(3)])
  qed
  with Cons.IH [of w1] Cons.prems(1) obtain w2 where 2:
    "deliver_all hmac client now url secret ks w1 = (Inr (length ks), w2)" "other_tables_same (db w1) (db w2)"
    "\<forall>j. get_delivery (db w2) j = get_delivery (db w1) j \<or>
       j \<in> set ks \<and> (\<exists>r r'. get_delivery (db w1) j = Some r \<and> get_delivery (db w2) j = Some r' \<and> attempted r r')"
    "\<forall>j \<in> set ks. \<exists>r r'. get_delivery (db w1) j = Some r \<and> get_delivery (db w2) j = Some r' \<and> attempted r r'"
    by auto
  have k: "k \<notin> set ks" using Cons.prems(1) by simp
  have here: "get_delivery (db w2) k = Some (f r)" using spec [OF 2(3), of k] k get1 [of k] by auto
  show ?case
  proof (intro exI [of _ w2] conjI allI ballI)
    show "deliver_all hmac client now url secret (k # ks) w = (Inr (length (k # ks)), w2)"
      using 1(1) 2(1) by simp
    show "other_tables_same (db w) (db w2)" by (rule other_tables_same_trans [OF 1(3) 2(2)])
    fix j
    show "get_delivery (db w2) j = get_delivery (db w) j \<or>
      j \<in> set (k # ks) \<and> (\<exists>r r'. get_delivery (db w) j = Some r \<and> get_delivery (db w2) j = Some r' \<and> attempted r r')"
      using spec [OF 2(3), of j] here r(1) 1(5) get1 [of j] by (cases "j = k") auto
  next
    fix j assume j: "j \<in> set (k # ks)"
    show "\<exists>r r'. get_delivery (db w) j = Some r \<and> get_delivery (db w2) j = Some r' \<and> attempted r r'"
    proof (cases "j = k")
      case True
      then show ?thesis using here r(1) 1(5) by simp
    next
      case False
      then show ?thesis using bspec [OF 2(4), of j] j get1 [of j] by simp
    qed
  qed
qed (simp add: other_tables_same_def)

section \<open>The chain of retries\<close>

lemma with_delivery_ids:
  "(\<And>x. whd_id (f x) = whd_id x) \<Longrightarrow> map whd_id (deliveries (with_delivery k f d)) = map whd_id (deliveries d)"
  by (simp add: with_delivery_def)

text \<open>What a turn does: every due delivery is attempted, every other row stays as it is.\<close>

definition turn_time :: "'d world \<Rightarrow> datetime" where
  "turn_time w = wall (env w) (tick (env w))"

definition turn_ready :: "'d world \<Rightarrow> bool" where
  "turn_ready w \<longleftrightarrow> distinct (map whd_id (deliveries (db w))) \<and> webhook_configured (db w) \<and>
     (\<forall>r \<in> set (deliveries (db w)). delivery_due (turn_time w) r \<longrightarrow>
        postable (the (get_config (db w) WEBHOOK_SECRET)) (db w) r)"

lemma dispatcher_turn_effect:
  assumes quiet: "quiet client" and ready: "turn_ready w" and r: "get_delivery (db w) k = Some r"
  shows "\<exists>r'. get_delivery (db (dispatcher_turn hmac client w)) k = Some r' \<and>
    (if delivery_due (turn_time w) r then attempted r r' else r' = r)"
proof -
  let ?t = "turn_time w" and ?d = "db w" and ?w = "advance 1 w"
  let ?due = "due_deliveries ?t ?d"
  let ?secret = "the (get_config ?d WEBHOOK_SECRET)"
  have ids: "distinct (map whd_id (deliveries ?d))" using ready by (simp add: turn_ready_def)
  have mem: "x \<in> set ?due \<longleftrightarrow> x \<in> set (deliveries ?d) \<and> delivery_due ?t x" for x by (auto simp: due_deliveries_def)
  have dist: "distinct (map whd_id ?due)" using ids by (auto simp: due_deliveries_def distinct_map inj_on_def)
  have "\<forall>j \<in> set (map whd_id ?due). \<exists>x. get_delivery (db ?w) j = Some x \<and> postable ?secret (db ?w) x"
    using ready get_delivery_in [OF ids] mem by (auto simp: turn_ready_def)
  from deliver_all_effect [OF quiet dist this, of hmac None "the (get_config ?d WEBHOOK_URL)"]
  obtain w' where w': "deliver_all hmac client None (the (get_config ?d WEBHOOK_URL)) ?secret (map whd_id ?due) ?w =
      (Inr (length (map whd_id ?due)), w')"
    "\<forall>j. get_delivery (db w') j = get_delivery ?d j \<or> j \<in> set (map whd_id ?due) \<and>
       (\<exists>x x'. get_delivery ?d j = Some x \<and> get_delivery (db w') j = Some x' \<and> attempted x x')"
    "\<forall>j \<in> set (map whd_id ?due). \<exists>x x'. get_delivery ?d j = Some x \<and> get_delivery (db w') j = Some x' \<and> attempted x x'"
    by auto
  have turn: "db (dispatcher_turn hmac client w) = (if ?due = [] then ?d else db w')"
    using w'(1) ready
    by (simp add: dispatcher_turn_def process_due_deliveries_def read_now_def now_utc_def Let_def turn_ready_def turn_time_def)
  have row: "r \<in> set (deliveries ?d)" "whd_id r = k" using get_delivery_SomeD r by blast+
  show ?thesis
  proof (cases "delivery_due ?t r")
    case True
    then have "?due \<noteq> []" "k \<in> set (map whd_id ?due)" using row mem by (force, force)
    with w'(3) r True turn show ?thesis by auto
  next
    case False
    have "k \<notin> set (map whd_id ?due)"
      using False row mem ids by (auto simp: distinct_map inj_on_def)
    then have "get_delivery (db w') k = Some r" using spec [OF w'(2), of k] r by simp
    then show ?thesis using False turn r by simp
  qed
qed

text \<open>
  A stretch of the loop: every turn finds a configured webhook and deliveries that it can post, and the commits in between
  leave the delivery \<open>k\<close> alone. \<open>due_turns\<close> counts the turns in which it was due.
\<close>

fun loop_ready ::
  "(bytes \<Rightarrow> bytes \<Rightarrow> str) \<Rightarrow> 'd http_client \<Rightarrow> str \<Rightarrow> (database \<Rightarrow> database) list \<Rightarrow> 'd world \<Rightarrow> bool" where
  "loop_ready hmac client k [] w \<longleftrightarrow> True"
| "loop_ready hmac client k (f # fs) w \<longleftrightarrow> turn_ready w \<and>
     get_delivery (f (db (dispatcher_turn hmac client w))) k = get_delivery (db (dispatcher_turn hmac client w)) k \<and>
     loop_ready hmac client k fs (meanwhile f (dispatcher_turn hmac client w))"

definition due_now :: "str \<Rightarrow> 'd world \<Rightarrow> bool" where
  "due_now k w \<longleftrightarrow> pred_option (delivery_due (turn_time w)) (get_delivery (db w) k)"

fun due_turns ::
  "(bytes \<Rightarrow> bytes \<Rightarrow> str) \<Rightarrow> 'd http_client \<Rightarrow> str \<Rightarrow> (database \<Rightarrow> database) list \<Rightarrow> 'd world \<Rightarrow> nat" where
  "due_turns hmac client k [] w = 0"
| "due_turns hmac client k (f # fs) w =
     (if due_now k w then 1 else 0) + due_turns hmac client k fs (meanwhile f (dispatcher_turn hmac client w))"

lemma loop_settled:
  assumes "quiet client"
  shows "loop_ready hmac client k fs w \<Longrightarrow> get_delivery (db w) k = Some r \<Longrightarrow> whd_status r \<noteq> WPending \<Longrightarrow>
    get_delivery (db (dispatcher_loop hmac client fs w)) k = Some r \<and> due_turns hmac client k fs w = 0"
proof (induction fs arbitrary: w)
  case (Cons f fs)
  have idle: "\<not> delivery_due (turn_time w) r" using Cons.prems(3) by (simp add: delivery_due_def)
  with dispatcher_turn_effect [OF assms _ Cons.prems(2)] Cons.prems(1)
  have "get_delivery (db (dispatcher_turn hmac client w)) k = Some r" by auto
  then show ?case using Cons idle by (simp add: due_now_def)
qed simp

text \<open>After \<open>n\<close> attempts on top of \<open>a\<close>: still pending within the chain, or settled at its end at the latest.\<close>

definition chained :: "nat \<Rightarrow> nat \<Rightarrow> delivery \<Rightarrow> bool" where
  "chained a n r \<longleftrightarrow> whd_attempt r = a + n \<and>
     (if whd_status r = WPending then n = 0 \<or> a + n \<le> 5 else 1 \<le> n \<and> a + n \<le> max 6 (a + 1))"

lemma chained_Suc: "chained a (Suc n) r" if "chained (Suc a) n r" "a < 5"
  using that by (auto simp: chained_def split: if_splits)

lemma chained_settled: "attempted r r1 \<Longrightarrow> whd_status r1 \<noteq> WPending \<Longrightarrow> chained (whd_attempt r) 1 r1"
  by (auto simp: attempted_def chained_def)

lemma loop_chain:
  assumes quiet: "quiet client"
  shows "loop_ready hmac client k fs w \<Longrightarrow> get_delivery (db w) k = Some r \<Longrightarrow> whd_status r = WPending \<Longrightarrow>
    \<exists>r'. get_delivery (db (dispatcher_loop hmac client fs w)) k = Some r' \<and>
      chained (whd_attempt r) (due_turns hmac client k fs w) r'"
proof (induction fs arbitrary: w r)
  case Nil
  then show ?case by (simp add: chained_def)
next
  case (Cons f fs)
  let ?w1 = "meanwhile f (dispatcher_turn hmac client w)"
  from dispatcher_turn_effect [OF quiet _ Cons.prems(2), of hmac] Cons.prems(1) obtain r1 where
    r1: "get_delivery (db ?w1) k = Some r1" "if delivery_due (turn_time w) r then attempted r r1 else r1 = r"
    by auto
  have ready: "loop_ready hmac client k fs ?w1" using Cons.prems(1) by simp
  show ?case
  proof (cases "delivery_due (turn_time w) r")
    case False
    then have "r1 = r" "\<not> due_now k w" using r1(2) Cons.prems(2) by (simp_all add: due_now_def)
    with Cons.IH [OF ready, of r] r1(1) Cons.prems(3) show ?thesis by (simp only: dispatcher_loop.simps due_turns.simps) simp
  next
    case True
    then have att: "attempted r r1" and due: "due_now k w" using r1(2) Cons.prems(2) by (simp_all add: due_now_def)
    show ?thesis
    proof (cases "whd_status r1 = WPending")
      case False
      from loop_settled [OF quiet ready r1(1) False] chained_settled [OF att False] due show ?thesis
        by (simp only: dispatcher_loop.simps due_turns.simps) simp
    next
      case pending: True
      then have a: "whd_attempt r1 = Suc (whd_attempt r)" "whd_attempt r < 5" using att by (auto simp: attempted_def)
      from Cons.IH [OF ready r1(1) pending] obtain r' where
        "get_delivery (db (dispatcher_loop hmac client fs ?w1)) k = Some r'"
        "chained (Suc (whd_attempt r)) (due_turns hmac client k fs ?w1) r'" by (auto simp: a(1))
      with chained_Suc [OF this(2) a(2)] due show ?thesis by simp
    qed
  qed
qed

section \<open>Properties\<close>

text \<open>
  C20. The webhook payload carries the message faithfully: whatever quotes, control characters or
  scripts the text contains, decoding the bytes as UTF-8 and reading them as a JSON object gives
  back exactly the identifier, number, body and timestamp of the message.
\<close>

theorem payload_roundtrip:
  assumes "raw_payload m = Inr raw"
  shows "map_option json_loads (utf8_decode raw) = Some (Some
     [(lit ''id'', Some (msg_id m)), (lit ''type'', Some (lit ''sms.received'')),
      (lit ''from'', Some (msg_msisdn m)), (lit ''to'', Some (lit ''gateway'')),
      (lit ''body'', Some (msg_body m)), (lit ''received_at'', msg_received_at m)])"
proof -
  have "utf8_decode raw = Some (json_dumps (build_payload m))"
    using assms unfolding raw_payload_def by (rule utf8_decode_encode)
  then show ?thesis using json_loads_dumps [of "build_payload m"] by (simp add: build_payload_def)
qed

theorem payload_roundtrip_witness:
  "\<exists>raw. raw_payload ((sample_message (lit ''a'') Inbound Received)\<lparr>msg_body := [34, 10, 128512]\<rparr>) = Inr raw \<and>
     utf8_decode raw \<noteq> None"
proof -
  let ?m = "(sample_message (lit ''a'') Inbound Received)\<lparr>msg_body := [34, 10, 128512]\<rparr>"
  have "\<exists>raw. raw_payload ?m = Inr raw"
    by (simp add: raw_payload_def utf8_encode_def json_dumps_def build_payload_def json_value_def
        json_string_def sample_message_def json_char_def lit_def scalar_def surrogate_def)
  then obtain raw where "raw_payload ?m = Inr raw" by blast
  with payload_roundtrip [OF this] show ?thesis by auto
qed


definition sample_hook_db :: database where
  "sample_hook_db = empty_db
     \<lparr>messages := [sample_message (lit ''a'') Inbound Received],
      deliveries := [new_delivery (lit ''d'') (lit ''a'') (iso 63921355200000000)],
      gateway_config := [WEBHOOK_URL \<mapsto> \<lparr>kv_value = lit ''http://x'', kv_updated_at = []\<rparr>,
        WEBHOOK_SECRET \<mapsto> \<lparr>kv_value = lit ''s'', kv_updated_at = []\<rparr>]\<rparr>"

definition sample_delivery :: delivery where
  "sample_delivery = new_delivery (lit ''d'') (lit ''a'') (iso 63921355200000000)"

lemma sample_hook:
  "deliveries sample_hook_db = [sample_delivery]" "whd_id sample_delivery = lit ''d''" "whd_status sample_delivery = WPending"
  "whd_attempt sample_delivery = 0" "delivery_due 63921355200000000 sample_delivery" "webhook_configured sample_hook_db"
  "postable (the (get_config sample_hook_db WEBHOOK_SECRET)) sample_hook_db sample_delivery"
proof -
  show "deliveries sample_hook_db = [sample_delivery]" "whd_id sample_delivery = lit ''d''" "whd_status sample_delivery = WPending"
    "whd_attempt sample_delivery = 0" "delivery_due 63921355200000000 sample_delivery"
    by (simp_all add: sample_hook_db_def sample_delivery_def new_delivery_def delivery_due_def)
  show "webhook_configured sample_hook_db"
    by (simp add: webhook_configured_def get_config_def sample_hook_db_def)
  have "\<exists>raw. raw_payload (sample_message (lit ''a'') Inbound Received) = Inr raw"
    by (simp add: raw_payload_def utf8_encode_def json_dumps_def build_payload_def json_value_def
        json_string_def sample_message_def json_char_def lit_def scalar_def surrogate_def)
  moreover have "get_message sample_hook_db (whd_message_id sample_delivery) = Some (sample_message (lit ''a'') Inbound Received)"
    by (simp add: sample_hook_db_def sample_delivery_def new_delivery_def get_message_def sample_message_def)
  moreover have "list_all scalar (the (get_config sample_hook_db WEBHOOK_SECRET))"
    by (simp add: get_config_def sample_hook_db_def lit_def scalar_def surrogate_def)
  ultimately show "postable (the (get_config sample_hook_db WEBHOOK_SECRET)) sample_hook_db sample_delivery"
    by (simp add: postable_def sample_delivery_def new_delivery_def)
qed




end
