(* ===== verification/Settings.thy ===== *)
theory Settings
  imports Store Encoding
begin

text \<open>
  Start-up: the settings of \<^verbatim>\<open>gateway/shared/config.py\<close> with their validators, and the
  migration runner of \<^verbatim>\<open>gateway/shared/db.py\<close>. The lookup of a time zone in the system's
  database is the parameter \<open>zone_error\<close>, executing an SQL script the parameter \<open>exec\<close>.
\<close>

section \<open>Settings\<close>

definition MIN_SECRET_KEY_LEN :: nat where "MIN_SECRET_KEY_LEN = 32"
definition MIN_ADMIN_PASSWORD_LEN :: nat where "MIN_ADMIN_PASSWORD_LEN = 12"

record settings =
  st_api_port :: int
  st_admin_user :: str
  st_admin_password :: str
  st_secret_key :: str
  st_session_cookie_secure :: bool
  st_host_modem_device :: str
  st_modem_fake :: bool
  st_messages_per_minute :: int
  st_rate_limit_per_minute :: int
  st_database_path :: str
  st_tz :: str

definition default_settings :: settings where
  "default_settings = \<lparr>st_api_port = 8080, st_admin_user = lit ''admin'', st_admin_password = [],
     st_secret_key = [], st_session_cookie_secure = False, st_host_modem_device = [],
     st_modem_fake = False, st_messages_per_minute = 6, st_rate_limit_per_minute = 0,
     st_database_path = lit ''/data/gateway.db'', st_tz = lit ''Europe/Zurich''\<rparr>"

fun join_with :: "str \<Rightarrow> str list \<Rightarrow> str" where
  "join_with sep [] = []"
| "join_with sep [x] = x"
| "join_with sep (x # y # xs) = x @ sep @ join_with sep (y # xs)"

definition secret_problems :: "settings \<Rightarrow> str list" where
  "secret_problems s =
     (if st_admin_password s = [] then [lit ''ADMIN_PASSWORD is not set''] else []) @
     (if st_secret_key s = [] then [lit ''SECRET_KEY is not set''] else []) @
     (if st_secret_key s \<noteq> [] \<and> length (st_secret_key s) < MIN_SECRET_KEY_LEN
      then [lit ''SECRET_KEY must be at least '' @ nat_str MIN_SECRET_KEY_LEN @ lit '' characters''] else []) @
     (if st_admin_password s \<noteq> [] \<and> length (st_admin_password s) < MIN_ADMIN_PASSWORD_LEN
      then [lit ''ADMIN_PASSWORD must be at least '' @ nat_str MIN_ADMIN_PASSWORD_LEN @ lit '' characters'']
      else [])"

text \<open>The validators return the settings or the text of the \<open>ValueError\<close>.\<close>

definition require_secrets :: "bool \<Rightarrow> settings \<Rightarrow> str + settings" where
  "require_secrets under_pytest s =
     (if under_pytest then Inr s
      else if secret_problems s \<noteq> []
      then Inl (lit ''invalid configuration: '' @ join_with (lit ''; '') (secret_problems s) @
        lit ''. Fix these in your .env (see .env.example), then restart: docker compose up -d'')
      else Inr s)"

definition validate_tz :: "(str \<Rightarrow> str option) \<Rightarrow> settings \<Rightarrow> str + settings" where
  "validate_tz zone_error s =
     (case zone_error (st_tz s) of
        None \<Rightarrow> Inr s
      | Some e \<Rightarrow> Inl (lit ''invalid TZ '' @ [39] @ st_tz s @ [39] @ lit '': '' @ e))"

definition remove_prefix :: "str \<Rightarrow> str \<Rightarrow> str" where
  "remove_prefix p s = (if starts_with p s then drop (length p) s else s)"

definition safe_reasons :: "str list \<Rightarrow> str" where
  "safe_reasons msgs =
     (let reasons = join_with (lit ''; '') (map (remove_prefix (lit ''Value error, '')) msgs)
      in if reasons \<noteq> [] then reasons else lit ''settings could not be loaded'')"

text \<open>
  \<open>get_settings\<close> on the values pydantic parsed from the environment: \<open>field_errors\<close> are the messages
  of its own field checks (types, \<open>gt=0\<close>), which come before the model validators; a validator's
  error text gets pydantic's prefix. The result is the settings or the text of \<open>ConfigError\<close>.
\<close>

definition get_settings ::
  "(settings \<Rightarrow> str list) \<Rightarrow> (str \<Rightarrow> str option) \<Rightarrow> bool \<Rightarrow> settings \<Rightarrow> str + settings" where
  "get_settings field_errors zone_error under_pytest s =
     (if field_errors s \<noteq> [] then Inl (safe_reasons (field_errors s))
      else (case require_secrets under_pytest s of
              Inl e \<Rightarrow> Inl (safe_reasons [lit ''Value error, '' @ e])
            | Inr s1 \<Rightarrow>
                (case validate_tz zone_error s1 of
                   Inl e \<Rightarrow> Inl (safe_reasons [lit ''Value error, '' @ e])
                 | Inr s2 \<Rightarrow> Inr s2)))"

lemma remove_prefix_append [simp]: "remove_prefix p (p @ s) = s"
  by (simp add: remove_prefix_def starts_with_def)

lemma secret_problems_Nil:
  "secret_problems s = [] \<longleftrightarrow>
     MIN_ADMIN_PASSWORD_LEN \<le> length (st_admin_password s) \<and> MIN_SECRET_KEY_LEN \<le> length (st_secret_key s)"
  by (cases "st_admin_password s"; cases "st_secret_key s")
    (auto simp: secret_problems_def MIN_ADMIN_PASSWORD_LEN_def MIN_SECRET_KEY_LEN_def)

lemma secret_problems_length:
  "\<lbrakk>length (st_admin_password s) = length (st_admin_password s');
    length (st_secret_key s) = length (st_secret_key s')\<rbrakk> \<Longrightarrow> secret_problems s = secret_problems s'"
  unfolding secret_problems_def length_0_conv [symmetric] by simp

section \<open>Migrations\<close>

text \<open>
  The schema version table and the rest \<open>'s\<close> of the database. A script that fails may leave part of
  its statements executed, so \<open>exec\<close> returns a state in either case.
\<close>

record 's migrated =
  mg_versions :: "(int \<times> str \<times> str) list"
  mg_schema :: 's

text \<open>\<open>int(name.split("_", 1)[0])\<close>.\<close>

definition int_error :: "str \<Rightarrow> exn" where
  "int_error s = OtherError (lit ''ValueError'')
     (lit ''invalid literal for int() with base 10: '' @ [39] @ s @ [39])"

definition script_version :: "str \<Rightarrow> exn + int" where
  "script_version name =
     (case py_int (before_char 95 name) of None \<Rightarrow> Inl (int_error (before_char 95 name)) | Some v \<Rightarrow> Inr v)"

text \<open>The scripts that the pattern \<open>[0-9]*.sql\<close> finds in the directory, in filename order.\<close>

definition is_script :: "str \<Rightarrow> bool" where
  "is_script name \<longleftrightarrow> name \<noteq> [] \<and> is_digit (hd name) \<and> last_n 4 name = lit ''.sql'' \<and> 5 \<le> length name"

definition scripts_of :: "(str \<times> str) list \<Rightarrow> (str \<times> str) list" where
  "scripts_of dir = sort_key fst (filter (\<lambda>(name, _). is_script name) dir)"

definition apply_script ::
  "(str \<Rightarrow> 's \<Rightarrow> exn option \<times> 's) \<Rightarrow> str \<Rightarrow> int \<Rightarrow> str \<times> str \<Rightarrow> 's migrated \<Rightarrow> exn option \<times> 's migrated" where
  "apply_script exec now version script m =
     (case exec (snd script) (mg_schema m) of
        (Some x, s) \<Rightarrow> (Some x, m\<lparr>mg_schema := s\<rparr>)
      | (None, s) \<Rightarrow>
          if version \<in> fst ` set (mg_versions m) then (Some IntegrityError, m\<lparr>mg_schema := s\<rparr>)
          else (None, m\<lparr>mg_schema := s, mg_versions := mg_versions m @ [(version, fst script, now)]\<rparr>))"

fun migrate ::
  "(str \<Rightarrow> 's \<Rightarrow> exn option \<times> 's) \<Rightarrow> (int \<Rightarrow> str) \<Rightarrow> int set \<Rightarrow> (str \<times> str) list \<Rightarrow> 's migrated \<Rightarrow>
   (exn + int list) \<times> 's migrated" where
  "migrate exec clock applied [] m = (Inr [], m)"
| "migrate exec clock applied (script # scripts) m =
     (case script_version (fst script) of
        Inl x \<Rightarrow> (Inl x, m)
      | Inr version \<Rightarrow>
          if version \<in> applied then migrate exec clock applied scripts m
          else (case apply_script exec (clock version) version script m of
                  (Some x, m1) \<Rightarrow> (Inl x, m1)
                | (None, m1) \<Rightarrow>
                    (case migrate exec clock applied scripts m1 of
                       (Inl x, m2) \<Rightarrow> (Inl x, m2)
                     | (Inr vs, m2) \<Rightarrow> (Inr (version # vs), m2))))"

definition run_migrations ::
  "(str \<Rightarrow> 's \<Rightarrow> exn option \<times> 's) \<Rightarrow> (int \<Rightarrow> str) \<Rightarrow> (str \<times> str) list \<Rightarrow> 's migrated \<Rightarrow>
   (exn + int list) \<times> 's migrated" where
  "run_migrations exec clock dir m =
     migrate exec clock (fst ` set (mg_versions m)) (scripts_of dir) m"

definition pending :: "int set \<Rightarrow> (str \<times> str) list \<Rightarrow> (str \<times> str) list" where
  "pending applied scripts = filter (\<lambda>s. projr (script_version (fst s)) \<notin> applied) scripts"

lemma migrate_result:
  assumes "migrate exec clock applied scripts m = (Inr vs, m')"
  shows "vs = map (\<lambda>s. projr (script_version (fst s))) (pending applied scripts)"
    and "map (\<lambda>(v, name, _). (v, name)) (mg_versions m') = map (\<lambda>(v, name, _). (v, name)) (mg_versions m) @
      map (\<lambda>s. (projr (script_version (fst s)), fst s)) (pending applied scripts)"
    and "\<forall>s \<in> set scripts. \<exists>v. script_version (fst s) = Inr v"
proof -
  have "vs = map (\<lambda>s. projr (script_version (fst s))) (pending applied scripts) \<and>
    map (\<lambda>(v, name, _). (v, name)) (mg_versions m') = map (\<lambda>(v, name, _). (v, name)) (mg_versions m) @
      map (\<lambda>s. (projr (script_version (fst s)), fst s)) (pending applied scripts) \<and>
    (\<forall>s \<in> set scripts. \<exists>v. script_version (fst s) = Inr v)"
    using assms
  proof (induction scripts arbitrary: m vs)
    case (Cons script scripts)
    obtain version where v: "script_version (fst script) = Inr version"
      using Cons.prems by (cases "script_version (fst script)") auto
    show ?case
    proof (cases "version \<in> applied")
      case True
      then show ?thesis using Cons.prems Cons.IH [of m vs] v by (simp add: pending_def)
    next
      case False
      obtain r m1 where r: "apply_script exec (clock version) version script m = (r, m1)" by (metis prod.exhaust)
      then obtain vs1 where m1: "r = None" "migrate exec clock applied scripts m1 = (Inr vs1, m')" "vs = version # vs1"
        using Cons.prems v False by (auto split: option.splits prod.splits sum.splits)
      have "map (\<lambda>(v, name, _). (v, name)) (mg_versions m1) =
          map (\<lambda>(v, name, _). (v, name)) (mg_versions m) @ [(version, fst script)]"
        using r m1(1) by (auto simp: apply_script_def split: prod.splits option.splits if_splits)
      then show ?thesis using Cons.IH [OF m1(2)] v False m1(3) by (simp add: pending_def)
    qed
  qed (simp add: pending_def)
  then show "vs = map (\<lambda>s. projr (script_version (fst s))) (pending applied scripts)"
    and "map (\<lambda>(v, name, _). (v, name)) (mg_versions m') = map (\<lambda>(v, name, _). (v, name)) (mg_versions m) @
      map (\<lambda>s. (projr (script_version (fst s)), fst s)) (pending applied scripts)"
    and "\<forall>s \<in> set scripts. \<exists>v. script_version (fst s) = Inr v"
    by simp_all
qed

lemma migrate_done:
  assumes "\<forall>s \<in> set scripts. \<exists>v. script_version (fst s) = Inr v \<and> v \<in> applied"
  shows "migrate exec clock applied scripts m = (Inr [], m)"
  using assms by (induction scripts) auto

lemma migrate_versions:
  assumes "migrate exec clock applied scripts m = (r, m')"
  shows "\<exists>ps qs. pending applied scripts = ps @ qs \<and>
    map (\<lambda>(v, name, _). (v, name)) (mg_versions m') = map (\<lambda>(v, name, _). (v, name)) (mg_versions m) @
      map (\<lambda>s. (projr (script_version (fst s)), fst s)) ps"
  using assms
proof (induction scripts arbitrary: m r)
  case (Cons script scripts)
  show ?case
  proof (cases "script_version (fst script)")
    case (Inl x)
    then show ?thesis using Cons.prems by auto
  next
    case (Inr version)
    show ?thesis
    proof (cases "version \<in> applied")
      case True
      then show ?thesis using Cons.prems Cons.IH [of m r] Inr by (simp add: pending_def)
    next
      case False
      obtain q m1 where q: "apply_script exec (clock version) version script m = (q, m1)" by (metis prod.exhaust)
      show ?thesis
      proof (cases q)
        case (Some x)
        then have "mg_versions m1 = mg_versions m"
          using q by (auto simp: apply_script_def split: prod.splits option.splits if_splits)
        moreover have "m' = m1" using Cons.prems Inr False q Some by simp
        ultimately show ?thesis by (intro exI [of _ "[]"] exI [of _ "pending applied (script # scripts)"]) simp
      next
        case None
        then have rows: "map (\<lambda>(v, name, _). (v, name)) (mg_versions m1) =
            map (\<lambda>(v, name, _). (v, name)) (mg_versions m) @ [(version, fst script)]"
          using q by (auto simp: apply_script_def split: prod.splits option.splits if_splits)
        obtain r1 where "migrate exec clock applied scripts m1 = (r1, m')"
          using Cons.prems Inr False q None by (auto split: prod.splits sum.splits)
        from Cons.IH [OF this] obtain ps qs where ps: "pending applied scripts = ps @ qs"
          "map (\<lambda>(v, name, _). (v, name)) (mg_versions m') = map (\<lambda>(v, name, _). (v, name)) (mg_versions m1) @
            map (\<lambda>s. (projr (script_version (fst s)), fst s)) ps" by blast
        show ?thesis
          using ps rows Inr False by (intro exI [of _ "script # ps"] exI [of _ qs]) (simp add: pending_def)
      qed
    qed
  qed
qed (auto simp: pending_def)

text \<open>After a successful run every script of the directory is recorded.\<close>

lemma migrated_recorded:
  assumes "run_migrations exec clock dir m = (Inr versions, m')" and "s \<in> set (scripts_of dir)"
  shows "\<exists>v. script_version (fst s) = Inr v \<and> v \<in> fst ` set (mg_versions m')"
proof -
  let ?row = "\<lambda>(v, name, _). (v, name)" and ?applied = "fst ` set (mg_versions m)"
  have result: "migrate exec clock ?applied (scripts_of dir) m = (Inr versions, m')"
    using assms(1) by (simp add: run_migrations_def)
  have fsts: "fst ` set rows = fst ` set (map ?row rows)" for rows :: "(int \<times> str \<times> str) list" by force
  have recorded: "fst ` set (mg_versions m') = ?applied \<union>
      (\<lambda>s. projr (script_version (fst s))) ` set (pending ?applied (scripts_of dir))"
    unfolding fsts [of "mg_versions m'"] migrate_result(2) [OF result] fsts [of "mg_versions m"]
    by (simp add: image_Un image_image)
  obtain v where "script_version (fst s) = Inr v" using migrate_result(3) [OF result] assms(2) by blast
  then show ?thesis
    using assms(2) unfolding recorded by (intro exI [of _ v]) (force simp: pending_def)
qed

section \<open>Properties\<close>





end
