(* ===== verification/Auth.thy ===== *)
theory Auth
  imports Throttle Settings
begin

text \<open>
  Authentication: bearer tokens (\<^verbatim>\<open>gateway/api/auth.py\<close>), password hashes
  (\<^verbatim>\<open>gateway/api/passwords.py\<close>), and login and session cookie of the admin panel
  (\<^verbatim>\<open>gateway/api/routes_admin.py\<close>). SHA-256 and PBKDF2 are parameters, and so is the signed
  serializer of itsdangerous. A handler runs on the world of the API process, whose own state is
  FastAPI's \<open>app.state\<close>.
\<close>

record app =
  app_settings :: settings
  app_rate_limiter :: rate_limiter
  app_login_limiter :: rate_limiter

text \<open>\<open>RateLimiter.allow\<close> with its own reading of the clock.\<close>

definition limiter_allows :: "str \<Rightarrow> rate_limiter \<Rightarrow> 'd world \<Rightarrow> (bool \<times> rate_limiter) \<times> 'd world" where
  "limiter_allows key rl w =
     (if rl_per_minute rl \<le> 0 then (allow key 0 rl, w)
      else (case read_monotonic w of (now, w1) \<Rightarrow> (allow key now rl, w1)))"

text \<open>SQLAlchemy's \<open>one_or_none\<close> on the rows of a query.\<close>

definition one_or_none :: "'r list \<Rightarrow> exn + 'r option" where
  "one_or_none rows =
     (case rows of [] \<Rightarrow> Inr None | [r] \<Rightarrow> Inr (Some r)
      | _ \<Rightarrow> Inl (OtherError (lit ''MultipleResultsFound'')
          (lit ''Multiple rows were found when one or none was required'')))"

section \<open>Random texts\<close>

definition random_bytes :: "nat \<Rightarrow> 'd world \<Rightarrow> bytes \<times> 'd world" where
  "random_bytes n w = (map (\<lambda>j. random_byte (env w) (tick (env w)) j mod 256) [0..<n], advance 1 w)"

definition token_hex :: "nat \<Rightarrow> 'd world \<Rightarrow> str \<times> 'd world" where
  "token_hex n w = (case random_bytes n w of (bs, w1) \<Rightarrow> (hex bs, w1))"

section \<open>Passwords\<close>

definition ITERATIONS :: nat where "ITERATIONS = 200000"

definition hash_password :: "(bytes \<Rightarrow> bytes \<Rightarrow> nat \<Rightarrow> bytes) \<Rightarrow> str \<Rightarrow> 'd world \<Rightarrow> (exn + str) \<times> 'd world" where
  "hash_password pbkdf2 password w =
     (case token_hex 16 w of (salt, w1) \<Rightarrow>
        (case utf8_encode password of
           Inl x \<Rightarrow> (Inl x, w1)
         | Inr p \<Rightarrow>
             (case from_hex salt of
                None \<Rightarrow> (Inl (OtherError (lit ''ValueError'') (lit ''non-hexadecimal number found in fromhex() arg'')), w1)
              | Some s \<Rightarrow>
                  (Inr (lit ''pbkdf2$'' @ nat_str ITERATIONS @ [36] @ salt @ [36] @ hex (pbkdf2 p s ITERATIONS)), w1))))"

text \<open>\<open>s.split(c, n)\<close>.\<close>

fun split_at_most :: "nat \<Rightarrow> nat \<Rightarrow> str \<Rightarrow> str list" where
  "split_at_most c 0 s = [s]"
| "split_at_most c (Suc n) s =
     (if c \<in> set s then before_char c s # split_at_most c n (after_char c s) else [s])"

text \<open>
  The errors inside the \<open>try\<close> are \<open>ValueError\<close>s (unpacking, \<open>encode\<close>, \<open>fromhex\<close>, \<open>int\<close>, an
  iteration count below 1) and give \<open>False\<close>; a count that does not fit a C \<open>int\<close> is an
  \<open>OverflowError\<close>, which escapes. A non-ASCII \<open>expected\<close>, for which \<open>compare_digest\<close> raises
  \<open>TypeError\<close>, differs from every digest.
\<close>

definition verify_password :: "(bytes \<Rightarrow> bytes \<Rightarrow> nat \<Rightarrow> bytes) \<Rightarrow> str \<Rightarrow> str \<Rightarrow> exn + bool" where
  "verify_password pbkdf2 password stored =
     (case split_at_most 36 3 stored of
        [scheme, iterations, salt, expected] \<Rightarrow>
          (case (utf8_encode password, from_hex salt, py_int iterations) of
             (Inr p, Some s, Some n) \<Rightarrow>
               if 2147483647 < n \<or> n < - 9223372036854775808
               then Inl (OtherError (lit ''OverflowError'') (lit ''iteration value is too great.''))
               else if n < 1 then Inr False
               else Inr (hex (pbkdf2 p s (nat n)) = expected)
           | _ \<Rightarrow> Inr False)
      | _ \<Rightarrow> Inr False)"

lemma split_at_most_step: "c \<notin> set a \<Longrightarrow> split_at_most c (Suc n) (a @ c # b) = a # split_at_most c n b"
  by simp

lemma nat_str_no_dollar: "36 \<notin> set (nat_str n)"
  using nat_str_digits [of n] by (auto simp: list_all_iff is_digit_def)

lemma split_hash:
  "split_at_most 36 3 (lit ''pbkdf2$'' @ nat_str n @ [36] @ hex salt @ [36] @ hex digest) =
     [lit ''pbkdf2'', nat_str n, hex salt, hex digest]"
proof -
  have "lit ''pbkdf2$'' = lit ''pbkdf2'' @ [36]" by (simp add: lit_def)
  moreover have "36 \<notin> set (lit ''pbkdf2'')" by (simp add: lit_def)
  ultimately show ?thesis
    by (simp add: numeral_3_eq_3 split_at_most_step nat_str_no_dollar hex_no_dollar del: split_at_most.simps(2))
qed

section \<open>Bearer tokens\<close>

definition LAST_USED_REFRESH_SECONDS :: int where "LAST_USED_REFRESH_SECONDS = 60"

definition hash_token :: "(bytes \<Rightarrow> str) \<Rightarrow> str \<Rightarrow> exn + str" where
  "hash_token sha256 token = (case utf8_encode token of Inl x \<Rightarrow> Inl x | Inr b \<Rightarrow> Inr (sha256 b))"

record current_token =
  ct_id :: str
  ct_label :: "str option"

definition needs_refresh :: "str option \<Rightarrow> 'd world \<Rightarrow> (exn + bool) \<times> 'd world" where
  "needs_refresh last_used_at w =
     (case last_used_at of
        None \<Rightarrow> (Inr True, w)
      | Some s \<Rightarrow>
          if s = [] then (Inr True, w)
          else (case now_utc w of (now, w1) \<Rightarrow>
                  (case parse_iso s of
                     Inl x \<Rightarrow> (Inl x, w1)
                   | Inr t \<Rightarrow> (Inr (LAST_USED_REFRESH_SECONDS * 1000000 \<le> now - t), w1))))"

definition to_lower :: "str \<Rightarrow> str" where
  "to_lower s = map (\<lambda>c. if 65 \<le> c \<and> c \<le> 90 then c + 32 else c) s"

text \<open>The token of an \<open>Authorization\<close> header, if scheme and token are as they should be.\<close>

definition bearer :: "str option \<Rightarrow> str option" where
  "bearer header =
     (let value = (case header of None \<Rightarrow> [] | Some s \<Rightarrow> s);
          token = strip (after_char 32 value)
      in if to_lower (before_char 32 value) \<noteq> lit ''bearer'' \<or> token = [] then None else Some token)"

definition stamp_token :: "str \<Rightarrow> str \<Rightarrow> database \<Rightarrow> database" where
  "stamp_token k now d =
     d\<lparr>api_tokens := map (\<lambda>t. if tok_id t = k then t\<lparr>tok_last_used_at := Some now\<rparr> else t) (api_tokens d)\<rparr>"

definition active_with_hash :: "str \<Rightarrow> database \<Rightarrow> api_token list" where
  "active_with_hash h d = filter (\<lambda>t. tok_hash t = h \<and> tok_revoked_at t = None) (api_tokens d)"

definition authenticate ::
  "(bytes \<Rightarrow> str) \<Rightarrow> str option \<Rightarrow> 'd world \<Rightarrow> (exn + current_token) \<times> 'd world" where
  "authenticate sha256 header w =
     (case bearer header of
        None \<Rightarrow> (Inl (HTTPException 401 (lit ''missing or malformed Authorization header'')), w)
      | Some token \<Rightarrow>
          (case hash_token sha256 token of
             Inl x \<Rightarrow> (Inl x, w)
           | Inr h \<Rightarrow>
               (case one_or_none (active_with_hash h (db w)) of
                  Inl x \<Rightarrow> (Inl x, w)
                | Inr None \<Rightarrow> (Inl (HTTPException 401 (lit ''invalid token'')), w)
                | Inr (Some row) \<Rightarrow>
                    (case needs_refresh (tok_last_used_at row) w of
                       (Inl x, w1) \<Rightarrow> (Inl x, w1)
                     | (Inr refresh, w1) \<Rightarrow>
                         (Inr \<lparr>ct_id = tok_id row, ct_label = tok_label row\<rparr>,
                          if refresh
                          then (case utc_now_iso w1 of (now, w2) \<Rightarrow>
                                  w2\<lparr>db := stamp_token (tok_id row) now (db w2)\<rparr>)
                          else w1)))))"

section \<open>Admin sessions\<close>

definition SESSION_MAX_AGE_SECONDS :: nat where "SESSION_MAX_AGE_SECONDS = 12 * 3600"

text \<open>
  \<open>URLSafeTimedSerializer\<close>: \<open>ss_dumps key u t\<close> signs the payload \<open>{"u": u}\<close> at second \<open>t\<close>;
  \<open>ss_loads key raw age t\<close> is \<open>None\<close> for a bad or expired signature, else the text under \<open>"u"\<close>,
  if there is one.
\<close>

record sessions =
  ss_dumps :: "str \<Rightarrow> str \<Rightarrow> nat \<Rightarrow> str"
  ss_loads :: "str \<Rightarrow> str \<Rightarrow> nat \<Rightarrow> nat \<Rightarrow> str option option"

definition create_session_value :: "sessions \<Rightarrow> str \<Rightarrow> str \<Rightarrow> 'd world \<Rightarrow> str \<times> 'd world" where
  "create_session_value ss key username w =
     (case now_utc w of (now, w1) \<Rightarrow> (ss_dumps ss key username (seconds now), w1))"

definition users_named :: "str option \<Rightarrow> database \<Rightarrow> admin_user list" where
  "users_named username d = filter (\<lambda>u. Some (usr_username u) = username) (admin_users d)"

definition require_admin ::
  "sessions \<Rightarrow> settings \<Rightarrow> str option \<Rightarrow> 'd world \<Rightarrow> (exn + unit) \<times> 'd world" where
  "require_admin ss st cookie w =
     (if \<not> truthy cookie then (Inl AdminAuthRequired, w)
      else (case now_utc w of (now, w1) \<Rightarrow>
              (case ss_loads ss (st_secret_key st) (the cookie) SESSION_MAX_AGE_SECONDS (seconds now) of
                 None \<Rightarrow> (Inl AdminAuthRequired, w1)
               | Some username \<Rightarrow>
                   if username = Some (st_admin_user st) then (Inr (), w1)
                   else (case one_or_none (users_named username (db w1)) of
                           Inl x \<Rightarrow> (Inl x, w1)
                         | Inr None \<Rightarrow> (Inl AdminAuthRequired, w1)
                         | Inr (Some _) \<Rightarrow> (Inr (), w1)))))"

text \<open>
  \<open>dummy\<close> is \<open>_TIMING_DUMMY_HASH\<close>, computed once at import. Its check is for the time it takes; only
  an exception of it would matter.
\<close>

definition fallback_valid :: "settings \<Rightarrow> str \<Rightarrow> str \<Rightarrow> exn + bool" where
  "fallback_valid st username password =
     (case (utf8_encode username, utf8_encode (st_admin_user st)) of
        (Inr u, Inr a) \<Rightarrow>
          if st_admin_password st = [] then Inr False
          else (case (utf8_encode password, utf8_encode (st_admin_password st)) of
                  (Inr p, Inr q) \<Rightarrow> Inr (u = a \<and> p = q)
                | _ \<Rightarrow> Inl UnicodeEncodeError)
      | _ \<Rightarrow> Inl UnicodeEncodeError)"

definition credentials_valid ::
  "(bytes \<Rightarrow> bytes \<Rightarrow> nat \<Rightarrow> bytes) \<Rightarrow> str \<Rightarrow> settings \<Rightarrow> str \<Rightarrow> str \<Rightarrow> database \<Rightarrow> exn + bool" where
  "credentials_valid pbkdf2 dummy st username password d =
     (case one_or_none (users_named (Some username) d) of
        Inl x \<Rightarrow> Inl x
      | Inr (Some user) \<Rightarrow>
          (case verify_password pbkdf2 password (usr_password_hash user) of
             Inl x \<Rightarrow> Inl x
           | Inr True \<Rightarrow> Inr True
           | Inr False \<Rightarrow> fallback_valid st username password)
      | Inr None \<Rightarrow>
          (case verify_password pbkdf2 password dummy of
             Inl x \<Rightarrow> Inl x
           | Inr _ \<Rightarrow> fallback_valid st username password))"

definition LOGIN_FAILED :: str where "LOGIN_FAILED = lit ''Login failed.''"

definition LOGIN_RATE_LIMITED :: str where
  "LOGIN_RATE_LIMITED = lit ''Too many attempts '' @ [8212] @ lit '' wait a minute.''"

text \<open>The login page with an error and its status, or the redirect that sets the session cookie.\<close>

datatype login_response = LoginPage nat str | LoggedIn str

definition login ::
  "(bytes \<Rightarrow> bytes \<Rightarrow> nat \<Rightarrow> bytes) \<Rightarrow> str \<Rightarrow> sessions \<Rightarrow> str \<Rightarrow> str \<Rightarrow> app world \<Rightarrow>
   (exn + login_response) \<times> app world" where
  "login pbkdf2 dummy ss username password w =
     (case limiter_allows (lit ''admin-login'') (app_login_limiter (drv w)) w of ((ok, rl), w1) \<Rightarrow>
        let w2 = w1\<lparr>drv := (drv w1)\<lparr>app_login_limiter := rl\<rparr>\<rparr>; st = app_settings (drv w2)
        in if \<not> ok then (Inr (LoginPage 429 LOGIN_RATE_LIMITED), w2)
           else (case credentials_valid pbkdf2 dummy st username password (db w2) of
                   Inl x \<Rightarrow> (Inl x, w2)
                 | Inr False \<Rightarrow> (Inr (LoginPage 401 LOGIN_FAILED), w2)
                 | Inr True \<Rightarrow>
                     (case create_session_value ss (st_secret_key st) username w2 of
                        (cookie, w3) \<Rightarrow> (Inr (LoggedIn cookie), w3))))"

section \<open>Lemmas\<close>

lemma one_or_none_Nil [simp]: "one_or_none [] = Inr None" and one_or_none_one [simp]: "one_or_none [r] = Inr (Some r)"
  by (simp_all add: one_or_none_def)

lemma one_or_none_NoneD: "one_or_none rows = Inr None \<Longrightarrow> rows = []"
  by (auto simp: one_or_none_def split: list.splits)

lemma one_or_none_SomeD: "one_or_none rows = Inr (Some r) \<Longrightarrow> rows = [r]"
  by (auto simp: one_or_none_def split: list.splits)

text \<open>A unique column lets a query for one value find at most one row.\<close>

lemma one_or_none_unique:
  assumes "distinct (map f rows)" and "\<And>r. r \<in> set rows \<Longrightarrow> P r \<Longrightarrow> f r = k"
  shows "\<exists>v. one_or_none (filter P rows) = Inr v"
proof -
  have "length (filter P rows) \<le> 1"
    using assms
  proof (induction rows)
    case (Cons r rows)
    have "P r \<Longrightarrow> filter P rows = []"
      using Cons.prems by (auto simp: filter_empty_conv image_iff)
    then show ?case using Cons by auto
  qed simp
  then show ?thesis by (cases "filter P rows") (auto simp: one_or_none_def)
qed

lemma one_or_none_find:
  assumes "distinct (map f rows)" and "\<And>r. r \<in> set rows \<Longrightarrow> P r \<Longrightarrow> f r = k" and "r \<in> set rows" and "P r"
  shows "one_or_none (filter P rows) = Inr (Some r)"
proof -
  obtain v where v: "one_or_none (filter P rows) = Inr v"
    using one_or_none_unique [OF assms(1,2)] by blast
  have "r \<in> set (filter P rows)" using assms(3,4) by simp
  then show ?thesis
    using v by (cases v) (auto dest!: one_or_none_NoneD one_or_none_SomeD simp: filter_empty_conv simp del: set_filter)
qed

lemma readings_preserve [simp]:
  "db (snd (random_bytes n w)) = db w" "db (snd (token_hex n w)) = db w"
  "drv (snd (random_bytes n w)) = drv w" "drv (snd (token_hex n w)) = drv w"
  by (simp_all add: random_bytes_def token_hex_def)

lemma needs_refresh_world: "snd (needs_refresh v w) = w \<or> snd (needs_refresh v w) = advance 1 w"
  by (auto simp: needs_refresh_def now_utc_def split: option.splits sum.splits)

lemma hash_password_eq:
  assumes "hash_password pbkdf2 password w = (Inr stored, w')"
  obtains p salt where "utf8_encode password = Inr p"
    and "stored = lit ''pbkdf2$'' @ nat_str ITERATIONS @ [36] @ hex salt @ [36] @ hex (pbkdf2 p salt ITERATIONS)"
    and "list_all (\<lambda>b. b < 256) salt"
proof -
  let ?salt = "fst (random_bytes 16 w)"
  have bound: "list_all (\<lambda>b. b < 256) ?salt" by (simp add: random_bytes_def list_all_iff)
  have "token_hex 16 w = (hex ?salt, snd (random_bytes 16 w))" by (simp add: token_hex_def split: prod.splits)
  then obtain p where "utf8_encode password = Inr p"
    "stored = lit ''pbkdf2$'' @ nat_str ITERATIONS @ [36] @ hex ?salt @ [36] @ hex (pbkdf2 p ?salt ITERATIONS)"
    using assms by (auto simp: hash_password_def from_hex_hex [OF bound] split: sum.splits)
  then show ?thesis using that bound by blast
qed

lemma verify_hash:
  assumes "utf8_encode password = Inr p" and "list_all (\<lambda>b. b < 256) salt"
  shows "verify_password pbkdf2 password
      (lit ''pbkdf2$'' @ nat_str ITERATIONS @ [36] @ hex salt @ [36] @ hex digest) =
    Inr (pbkdf2 p salt ITERATIONS = digest)"
  unfolding verify_password_def split_hash
  by (simp add: assms(1) from_hex_hex [OF assms(2)] py_int_nat_str ITERATIONS_def hex_inject)

lemma utf8_encode_inject: "\<lbrakk>utf8_encode a = Inr b; utf8_encode a' = Inr b'\<rbrakk> \<Longrightarrow> b = b' \<longleftrightarrow> a = a'"
  by (metis option.inject sum.inject(2) utf8_decode_encode)

lemma fallback_valid_eq:
  assumes "utf8_encode username = Inr u" and "utf8_encode password = Inr p"
    and "utf8_encode (st_admin_user st) = Inr a" and "utf8_encode (st_admin_password st) = Inr q"
  shows "fallback_valid st username password =
    Inr (username = st_admin_user st \<and> password = st_admin_password st \<and> st_admin_password st \<noteq> [])"
  using utf8_encode_inject [OF assms(1,3)] utf8_encode_inject [OF assms(2,4)] assms
  by (auto simp: fallback_valid_def)

lemma users_named_one:
  assumes "distinct (map usr_username (admin_users d))"
  shows "one_or_none (users_named (Some username) d) = Inr (find (\<lambda>u. usr_username u = username) (admin_users d))"
proof (cases "find (\<lambda>u. usr_username u = username) (admin_users d)")
  case None
  then have "users_named (Some username) d = []"
    by (auto simp: users_named_def find_None_iff filter_empty_conv)
  then show ?thesis by (simp add: None)
next
  case (Some user)
  then have "user \<in> set (admin_users d)" "usr_username user = username" by (auto simp: find_Some_iff)
  then show ?thesis
    unfolding users_named_def Some by (intro one_or_none_find [OF assms]) auto
qed

text \<open>
  What the gateway relies on of itsdangerous: a signed value is not empty, and is read back with the same
  key until it is older than the maximum age; a value from the future counts as expired as well.
\<close>

definition signs :: "sessions \<Rightarrow> bool" where
  "signs ss \<longleftrightarrow> (\<forall>key u t age now. ss_dumps ss key u t \<noteq> [] \<and>
     ss_loads ss key (ss_dumps ss key u t) age now = (if t \<le> now \<and> now - t \<le> age then Some (Some u) else None))"

lemma require_admin_signed:
  assumes "signs ss" and "distinct (map usr_username (admin_users (db w)))"
    and "now = seconds (wall (env w) (tick (env w)))"
  shows "fst (require_admin ss st (Some (ss_dumps ss (st_secret_key st) username t)) w) =
    (if t \<le> now \<and> now - t \<le> SESSION_MAX_AGE_SECONDS \<and>
        (username = st_admin_user st \<or> username \<in> usr_username ` set (admin_users (db w)))
     then Inr () else Inl AdminAuthRequired)"
proof -
  have "(find (\<lambda>u. usr_username u = username) (admin_users (db w)) = None) \<longleftrightarrow>
      username \<notin> usr_username ` set (admin_users (db w))"
    by (auto simp: find_None_iff)
  then show ?thesis
    using assms users_named_one [OF assms(2)]
    by (auto simp: require_admin_def signs_def now_utc_def split: option.splits)
qed

definition stamps_ok :: "database \<Rightarrow> bool" where
  "stamps_ok d \<longleftrightarrow> (\<forall>t \<in> set (api_tokens d). case tok_last_used_at t of
     None \<Rightarrow> True | Some s \<Rightarrow> s = [] \<or> \<not> isl (parse_iso s))"

lemma needs_refresh_ok:
  "stamps_ok d \<Longrightarrow> row \<in> set (api_tokens d) \<Longrightarrow> \<exists>r. fst (needs_refresh (tok_last_used_at row) w) = Inr r"
  by (auto simp: stamps_ok_def needs_refresh_def now_utc_def isl_def split: option.splits sum.splits)

section \<open>Properties\<close>

text \<open>
  C13. A stored password hash is accepted for the password it was made from, and for another password
  exactly if PBKDF2 with the stored salt gives both the same digest.
\<close>

theorem password_roundtrip:
  assumes "hash_password pbkdf2 password w = (Inr stored, w')"
    and "utf8_encode other = Inr q"
  shows "verify_password pbkdf2 password stored = Inr True \<and>
    (\<exists>p salt. utf8_encode password = Inr p \<and>
      verify_password pbkdf2 other stored = Inr (pbkdf2 q salt ITERATIONS = pbkdf2 p salt ITERATIONS))"
proof -
  obtain p salt where p: "utf8_encode password = Inr p"
    "stored = lit ''pbkdf2$'' @ nat_str ITERATIONS @ [36] @ hex salt @ [36] @ hex (pbkdf2 p salt ITERATIONS)"
    "list_all (\<lambda>b. b < 256) salt"
    by (rule hash_password_eq [OF assms(1)])
  show ?thesis
    unfolding p(2) verify_hash [OF p(1,3)] verify_hash [OF assms(2) p(3)] using p(1) by blast
qed

theorem password_roundtrip_witness:
  "\<exists>stored. fst (hash_password (\<lambda>p s n. p @ s) (lit ''hunter2'') (sample_world empty_db ())) = Inr stored \<and>
     verify_password (\<lambda>p s n. p @ s) (lit ''hunter2'') stored = Inr True \<and>
     verify_password (\<lambda>p s n. p @ s) (lit ''hunter3'') stored = Inr False"
proof -
  let ?f = "\<lambda>p s (n :: nat). p @ s" and ?w = "sample_world empty_db ()"
  have enc: "utf8_encode (lit ''hunter2'') = Inr (lit ''hunter2'')" "utf8_encode (lit ''hunter3'') = Inr (lit ''hunter3'')"
    by (simp_all add: utf8_encode_def lit_def scalar_def surrogate_def utf8_char.simps)
  have "list_all (\<lambda>b. b < 256) (fst (random_bytes 16 ?w))" by (simp add: random_bytes_def list_all_iff)
  then obtain stored w' where h: "hash_password ?f (lit ''hunter2'') ?w = (Inr stored, w')"
    by (cases "random_bytes 16 ?w") (simp add: hash_password_def token_hex_def enc from_hex_hex)
  have "lit ''hunter3'' \<noteq> lit ''hunter2''" by simp
  then show ?thesis using password_roundtrip [OF h enc(2)] enc(1) h by auto
qed

text \<open>
  C9. A request is authenticated exactly when its \<open>Authorization\<close> header is a bearer token whose hash is the hash of
  a token that is not revoked, and then as that token; the database changes at most in the
  \<open>last_used_at\<close> of that token. In every other case the answer is 401 and nothing changes.
\<close>

theorem authenticate_exact:
  assumes "distinct (map tok_hash (api_tokens (db w)))" and "stamps_ok (db w)"
    and "\<And>token. bearer header = Some token \<Longrightarrow> \<exists>h. hash_token sha256 token = Inr h"
    and "authenticate sha256 header w = (r, w')"
  shows "case r of
      Inr current \<Rightarrow>
        (\<exists>token row. bearer header = Some token \<and> row \<in> set (api_tokens (db w)) \<and>
           hash_token sha256 token = Inr (tok_hash row) \<and> tok_revoked_at row = None \<and>
           current = \<lparr>ct_id = tok_id row, ct_label = tok_label row\<rparr>) \<and>
        (db w' = db w \<or> (\<exists>now. db w' = stamp_token (ct_id current) now (db w)))
    | Inl x \<Rightarrow>
        (\<exists>detail. x = HTTPException 401 detail) \<and> w' = w \<and>
        \<not> (\<exists>token row. bearer header = Some token \<and> row \<in> set (api_tokens (db w)) \<and>
           hash_token sha256 token = Inr (tok_hash row) \<and> tok_revoked_at row = None)"
proof (cases "bearer header")
  case None
  then show ?thesis using assms(4) by (auto simp: authenticate_def)
next
  case (Some token)
  then obtain h where h: "hash_token sha256 token = Inr h" using assms(3) by blast
  obtain v where v: "one_or_none (active_with_hash h (db w)) = Inr v"
    using one_or_none_unique [OF assms(1), of "\<lambda>t. tok_hash t = h \<and> tok_revoked_at t = None" h]
    by (auto simp: active_with_hash_def)
  show ?thesis
  proof (cases v)
    case None
    then have none: "active_with_hash h (db w) = []" using v one_or_none_NoneD by blast
    then have refused: "r = Inl (HTTPException 401 (lit ''invalid token''))" "w' = w"
      using assms(4) Some h by (simp_all add: authenticate_def)
    have absent: "\<not> (\<exists>row \<in> set (api_tokens (db w)). tok_hash row = h \<and> tok_revoked_at row = None)"
      using none by (simp add: active_with_hash_def filter_empty_conv)
    show ?thesis
      unfolding refused Some using h absent by auto
  next
    case row: (Some row)
    have "active_with_hash h (db w) = [row]" by (rule one_or_none_SomeD [OF v [unfolded row]])
    then have "row \<in> set (active_with_hash h (db w))" by simp
    then have in_db: "row \<in> set (api_tokens (db w))" "tok_hash row = h" "tok_revoked_at row = None"
      by (auto simp: active_with_hash_def)
    obtain b w1 where b: "needs_refresh (tok_last_used_at row) w = (Inr b, w1)"
      using needs_refresh_ok [OF assms(2) in_db(1), of w] by (metis prod.collapse)
    have w1: "db w1 = db w" using needs_refresh_world [of "tok_last_used_at row" w] b by auto
    have r: "r = Inr \<lparr>ct_id = tok_id row, ct_label = tok_label row\<rparr>"
      and w': "db w' = (if b then stamp_token (tok_id row) (fst (utc_now_iso w1)) (db w1) else db w1)"
      using assms(4) Some h v [unfolded row] b
      by (auto simp: authenticate_def utc_now_iso_def split: if_splits)
    show ?thesis
      unfolding r sum.case
    proof
      show "\<exists>token row'. bearer header = Some token \<and> row' \<in> set (api_tokens (db w)) \<and>
          hash_token sha256 token = Inr (tok_hash row') \<and> tok_revoked_at row' = None \<and>
          \<lparr>ct_id = tok_id row, ct_label = tok_label row\<rparr> = \<lparr>ct_id = tok_id row', ct_label = tok_label row'\<rparr>"
        using in_db h Some by (intro exI [of _ token] exI [of _ row]) simp
    qed (use w' w1 in auto)
  qed
qed

definition sample_token :: api_token where
  "sample_token = \<lparr>tok_id = lit ''tok_1'', tok_hash = lit ''sms_1'', tok_prefix = lit ''sms_1'', tok_label = None,
     tok_last_used_at = None, tok_revoked_at = None, tok_created_at = iso 0\<rparr>"

theorem authenticate_exact_witness:
  "fst (authenticate (\<lambda>b. b) (Some (lit ''Bearer sms_1'')) (sample_world (empty_db\<lparr>api_tokens := [sample_token]\<rparr>) ())) =
     Inr \<lparr>ct_id = lit ''tok_1'', ct_label = None\<rparr>"
proof -
  let ?w = "sample_world (empty_db\<lparr>api_tokens := [sample_token]\<rparr>) ()" and ?header = "Some (lit ''Bearer sms_1'')"
  have token: "bearer ?header = Some (lit ''sms_1'')"
    by (simp add: bearer_def to_lower_def strip_def lstrip_def rstrip_def py_space_def before_char_def
        after_char_def lit_def)
  have h: "hash_token (\<lambda>b. b) (lit ''sms_1'') = Inr (lit ''sms_1'')"
    by (simp add: hash_token_def utf8_encode_def scalar_def surrogate_def utf8_char.simps lit_def)
  obtain r w' where run: "authenticate (\<lambda>b. b) ?header ?w = (r, w')" by (metis prod.exhaust)
  have "case r of
      Inr current \<Rightarrow>
        (\<exists>token row. bearer ?header = Some token \<and> row \<in> set (api_tokens (db ?w)) \<and>
           hash_token (\<lambda>b. b) token = Inr (tok_hash row) \<and> tok_revoked_at row = None \<and>
           current = \<lparr>ct_id = tok_id row, ct_label = tok_label row\<rparr>) \<and>
        (db w' = db ?w \<or> (\<exists>now. db w' = stamp_token (ct_id current) now (db ?w)))
    | Inl x \<Rightarrow>
        (\<exists>detail. x = HTTPException 401 detail) \<and> w' = ?w \<and>
        \<not> (\<exists>token row. bearer ?header = Some token \<and> row \<in> set (api_tokens (db ?w)) \<and>
           hash_token (\<lambda>b. b) token = Inr (tok_hash row) \<and> tok_revoked_at row = None)"
    by (rule authenticate_exact [OF _ _ _ run]) (simp_all add: sample_world_def stamps_ok_def sample_token_def token h)
  then have "r = Inr \<lparr>ct_id = lit ''tok_1'', ct_label = None\<rparr>"
    using h by (cases r) (auto simp: token sample_world_def sample_token_def)
  then show ?thesis by (simp add: run)
qed

text \<open>
  C12. Login accepts exactly the password of the database user of that name, or the user name and
  (non-empty) password of the settings, whatever the database holds.
\<close>

theorem credentials_exact:
  assumes "distinct (map usr_username (admin_users d))"
    and "utf8_encode username = Inr u" and "utf8_encode password = Inr p"
    and "utf8_encode (st_admin_user st) = Inr a" and "utf8_encode (st_admin_password st) = Inr q"
    and "\<And>stored. stored = dummy \<or> stored \<in> usr_password_hash ` set (admin_users d) \<Longrightarrow>
      \<exists>v. verify_password pbkdf2 password stored = Inr v"
  shows "credentials_valid pbkdf2 dummy st username password d = Inr
    ((\<exists>user \<in> set (admin_users d). usr_username user = username \<and>
        verify_password pbkdf2 password (usr_password_hash user) = Inr True) \<or>
     username = st_admin_user st \<and> password = st_admin_password st \<and> st_admin_password st \<noteq> [])"
proof (cases "find (\<lambda>v. usr_username v = username) (admin_users d)")
  case None
  then have "\<forall>user \<in> set (admin_users d). usr_username user \<noteq> username" by (auto simp: find_None_iff)
  moreover obtain v where "verify_password pbkdf2 password dummy = Inr v" using assms(6) by blast
  ultimately show ?thesis
    by (auto simp: credentials_valid_def users_named_one [OF assms(1)] None fallback_valid_eq [OF assms(2-5)])
next
  case (Some user)
  then have user: "user \<in> set (admin_users d)" "usr_username user = username" by (auto simp: find_Some_iff)
  then have only: "user' \<in> set (admin_users d) \<Longrightarrow> usr_username user' = username \<Longrightarrow> user' = user" for user'
    using assms(1) by (metis distinct_map inj_onD)
  obtain v where v: "verify_password pbkdf2 password (usr_password_hash user) = Inr v"
    using assms(6) user(1) by blast
  have stored: "(\<exists>user \<in> set (admin_users d). usr_username user = username \<and>
      verify_password pbkdf2 password (usr_password_hash user) = Inr True) \<longleftrightarrow> v"
  proof
    assume "\<exists>user \<in> set (admin_users d). usr_username user = username \<and>
      verify_password pbkdf2 password (usr_password_hash user) = Inr True"
    then show v using only v by auto
  next
    assume v
    then show "\<exists>user \<in> set (admin_users d). usr_username user = username \<and>
      verify_password pbkdf2 password (usr_password_hash user) = Inr True"
      using user v by (intro bexI [of _ user]) simp_all
  qed
  show ?thesis
    unfolding stored credentials_valid_def users_named_one [OF assms(1)] Some
    by (cases v) (simp_all add: v fallback_valid_eq [OF assms(2-5)])
qed

theorem credentials_exact_witness:
  "credentials_valid (\<lambda>p s n. p) (lit ''x'') (default_settings\<lparr>st_admin_password := lit ''secret''\<rparr>)
     (lit ''admin'') (lit ''secret'') empty_db = Inr True"
proof -
  have enc: "utf8_encode (lit ''admin'') = Inr (lit ''admin'')" "utf8_encode (lit ''secret'') = Inr (lit ''secret'')"
    by (simp_all add: utf8_encode_def scalar_def surrogate_def utf8_char.simps lit_def)
  have "verify_password (\<lambda>p s n. p) (lit ''secret'') (lit ''x'') = Inr False"
    by (simp add: verify_password_def numeral_3_eq_3 lit_def)
  then show ?thesis
    using credentials_exact [of empty_db "lit ''admin''" "lit ''admin''" "lit ''secret''" "lit ''secret''"
        "default_settings\<lparr>st_admin_password := lit ''secret''\<rparr>" "lit ''admin''" "lit ''secret''" "lit ''x''" "\<lambda>p s n. p"]
    by (simp add: enc default_settings_def empty_db_def ex_bool_eq)
qed

text \<open>
  C11. A successful login had valid credentials, and its cookie opens the admin panel for twelve hours
  and for as long as the user exists: a request is let in exactly if the cookie is at most that old and
  its user is the one of the settings or still in the database.
\<close>

theorem login_session:
  assumes "login pbkdf2 dummy ss username password w = (Inr (LoggedIn cookie), w1)" and "signs ss"
    and "st = app_settings (drv w)"
    and "distinct (map usr_username (admin_users (db later)))"
    and "signed = seconds (wall (env w1) (tick (env w1) - 1))"
    and "now = seconds (wall (env later) (tick (env later)))"
  shows "credentials_valid pbkdf2 dummy st username password (db w) = Inr True \<and>
    fst (require_admin ss st (Some cookie) later) =
      (if signed \<le> now \<and> now - signed \<le> 43200 \<and>
          (username = st_admin_user st \<or> username \<in> usr_username ` set (admin_users (db later)))
       then Inr () else Inl AdminAuthRequired)"
proof -
  obtain ok rl w0 where w0: "limiter_allows (lit ''admin-login'') (app_login_limiter (drv w)) w = ((ok, rl), w0)"
    by (metis prod.exhaust)
  then have same: "db w0 = db w" "app_settings (drv w0) = app_settings (drv w)"
    by (auto simp: limiter_allows_def read_monotonic_def split: if_splits)
  have valid: "credentials_valid pbkdf2 dummy st username password (db w) = Inr True"
    and cookie: "cookie = ss_dumps ss (st_secret_key st) username signed"
    using assms(1,3,5) w0 same
    by (auto simp: login_def Let_def create_session_value_def now_utc_def split: if_splits sum.splits bool.splits)
  show ?thesis
    using valid require_admin_signed [OF assms(2,4,6), of st username signed]
    by (simp add: cookie SESSION_MAX_AGE_SECONDS_def)
qed

definition plain_sessions :: sessions where
  "plain_sessions = \<lparr>ss_dumps = (\<lambda>key u t. t # length key # key @ u),
     ss_loads = (\<lambda>key raw age now.
       if 2 \<le> length raw \<and> take (length key) (drop 2 raw) = key \<and> raw ! 1 = length key \<and>
          hd raw \<le> now \<and> now - hd raw \<le> age
       then Some (Some (drop (2 + length key) raw)) else None)\<rparr>"

theorem login_session_witness:
  "\<exists>cookie w1. login (\<lambda>p s n. p) (lit ''x'') plain_sessions (lit ''admin'') (lit ''secret'')
      (sample_world empty_db \<lparr>app_settings = default_settings\<lparr>st_admin_password := lit ''secret''\<rparr>,
        app_rate_limiter = new_limiter 0, app_login_limiter = new_limiter 10\<rparr>) = (Inr (LoggedIn cookie), w1) \<and>
    fst (require_admin plain_sessions (default_settings\<lparr>st_admin_password := lit ''secret''\<rparr>) (Some cookie) w1) = Inr ()"
proof -
  let ?st = "default_settings\<lparr>st_admin_password := lit ''secret''\<rparr>"
  let ?w = "sample_world empty_db \<lparr>app_settings = ?st, app_rate_limiter = new_limiter 0, app_login_limiter = new_limiter 10\<rparr>"
  have enc: "utf8_encode (lit ''admin'') = Inr (lit ''admin'')" "utf8_encode (lit ''secret'') = Inr (lit ''secret'')"
    by (simp_all add: utf8_encode_def scalar_def surrogate_def utf8_char.simps lit_def)
  have verify: "verify_password (\<lambda>p s n. p) (lit ''secret'') (lit ''x'') = Inr False"
    by (simp add: verify_password_def numeral_3_eq_3 lit_def)
  then have valid: "credentials_valid (\<lambda>p s n. p) (lit ''x'') ?st (lit ''admin'') (lit ''secret'') empty_db = Inr True"
    by (simp add: credentials_valid_def users_named_def empty_db_def fallback_valid_def enc default_settings_def)
  obtain cookie w1 where run: "login (\<lambda>p s n. p) (lit ''x'') plain_sessions (lit ''admin'') (lit ''secret'') ?w =
      (Inr (LoggedIn cookie), w1)" and w1: "db w1 = empty_db" "env w1 = sample_env\<lparr>tick := 2\<rparr>"
    using valid by (simp add: login_def limiter_allows_def new_limiter_def sample_world_def read_monotonic_def allow_def
        create_session_value_def now_utc_def advance_def sample_env_def)
  have "signs plain_sessions" by (simp add: signs_def plain_sessions_def)
  from login_session [OF run this refl, of w1, OF _ refl refl] have
    "fst (require_admin plain_sessions ?st (Some cookie) w1) = Inr ()"
    by (simp add: w1 sample_env_def sample_world_def empty_db_def default_settings_def seconds_def)
  then show ?thesis using run by blast
qed

end
