(* ===== verification/RestApi.thy ===== *)
theory RestApi
  imports Auth Worker Webhooks
begin

text \<open>
  The REST API: authorization, the message endpoints of \<^verbatim>\<open>gateway/api/routes_api.py\<close>, and the health
  endpoint and error answers of \<^verbatim>\<open>gateway/api/main.py\<close>. FastAPI's parsing of a request is not part of
  the repository: a handler gets the parsed parameters and checks the constraints that the code declares on
  them. A handler that raises returns the exception; \<open>error_response\<close> is the answer made of it.
\<close>

section \<open>Values of the answers and errors\<close>

datatype jval = JNull | JText str | JInt int

definition jtext :: "str option \<Rightarrow> jval" where
  "jtext v = (case v of None \<Rightarrow> JNull | Some s \<Rightarrow> JText s)"

definition ERROR_CODES :: "(nat \<times> str) list" where
  "ERROR_CODES = [(401, lit ''unauthorized''), (403, lit ''forbidden''), (404, lit ''not_found''),
     (422, lit ''validation_error''), (429, lit ''rate_limited'')]"

text \<open>A refused parameter: the exception carries the location of the first error.\<close>

definition RequestValidationError :: "str \<Rightarrow> exn" where
  "RequestValidationError location = OtherError (lit ''RequestValidationError'') location"

text \<open>
  The status, and the code and message of the body. \<open>wording\<close> is pydantic's text for the error at a
  location. The answer to any other exception is Starlette's 500.
\<close>

datatype error_answer = ErrorAnswer nat str str | RedirectToLogin | ServerError

fun error_response :: "(str \<Rightarrow> str) \<Rightarrow> exn \<Rightarrow> error_answer" where
  "error_response wording AdminAuthRequired = RedirectToLogin"
| "error_response wording (HTTPException status detail) =
     ErrorAnswer status (case map_of ERROR_CODES status of None \<Rightarrow> lit ''error'' | Some c \<Rightarrow> c) detail"
| "error_response wording (OtherError c location) =
     (if c = lit ''RequestValidationError''
      then ErrorAnswer 422 (lit ''validation_error'')
        (if location \<noteq> [] then location @ lit '': '' @ wording location else lit ''invalid request'')
      else ServerError)"
| "error_response wording _ = ServerError"

section \<open>Authorization\<close>

definition RATE_LIMIT_KEY :: str where "RATE_LIMIT_KEY = lit ''api''"

definition authorize ::
  "(bytes \<Rightarrow> str) \<Rightarrow> str option \<Rightarrow> app world \<Rightarrow> (exn + current_token) \<times> app world" where
  "authorize sha256 header w =
     (case authenticate sha256 header w of
        (Inl x, w1) \<Rightarrow> (Inl x, w1)
      | (Inr token, w1) \<Rightarrow>
          (case limiter_allows RATE_LIMIT_KEY (app_rate_limiter (drv w1)) w1 of ((ok, rl), w2) \<Rightarrow>
             let w3 = w2\<lparr>drv := (drv w2)\<lparr>app_rate_limiter := rl\<rparr>\<rparr>
             in if ok then (Inr token, w3)
                else (Inl (HTTPException 429 (lit ''rate limit exceeded'')), w3)))"

text \<open>A request to an endpoint with the dependency \<open>AuthToken\<close>.\<close>

definition authorized ::
  "(bytes \<Rightarrow> str) \<Rightarrow> str option \<Rightarrow> (app world \<Rightarrow> (exn + 'a) \<times> app world) \<Rightarrow> app world \<Rightarrow>
   (exn + 'a) \<times> app world" where
  "authorized sha256 header endpoint w =
     (case authorize sha256 header w of
        (Inl x, w1) \<Rightarrow> (Inl x, w1)
      | (Inr _, w1) \<Rightarrow> endpoint w1)"

section \<open>Sending\<close>

text \<open>\<open>^\+[1-9][0-9]{6,14}$\<close>, on the whole text.\<close>

definition e164 :: "str \<Rightarrow> bool" where
  "e164 s = (case s of
     p # d # ds \<Rightarrow> p = 43 \<and> 49 \<le> d \<and> d \<le> 57 \<and> list_all is_digit ds \<and> 6 \<le> length ds \<and> length ds \<le> 14
   | _ \<Rightarrow> False)"

text \<open>
  \<open>SendMessageRequest\<close>: the field the first error is in, if any; pydantic refuses texts that are not
  valid Unicode.
\<close>

definition send_request_error :: "str \<Rightarrow> str \<Rightarrow> str option" where
  "send_request_error recipient body =
     (if \<not> e164 recipient then Some (lit ''to'')
      else if \<not> list_all scalar body \<or> length body < 1 \<or> MAX_BODY_CHARS < length body then Some (lit ''body'')
      else None)"

text \<open>A new outbound row, with the identifier drawn first and the clock read last.\<close>

definition new_outbound :: "str \<Rightarrow> str \<Rightarrow> 'd world \<Rightarrow> (exn + message) \<times> 'd world" where
  "new_outbound recipient body w =
     (case message_id w of (k, w1) \<Rightarrow>
        (case count_segments body of
           Inl x \<Rightarrow> (Inl x, w1)
         | Inr n \<Rightarrow>
             (case utc_now_iso w1 of (now, w2) \<Rightarrow>
                (Inr \<lparr>msg_id = k, msg_direction = Outbound, msg_msisdn = recipient, msg_body = body,
                   msg_status = Queued, msg_segments = int n, msg_error = None, msg_modem_ref = None,
                   msg_created_at = now, msg_sent_at = None, msg_delivered_at = None,
                   msg_received_at = None\<rparr>, w2))))"

definition commit_message :: "message \<Rightarrow> 'd world \<Rightarrow> (exn + unit) \<times> 'd world" where
  "commit_message m w =
     (case add_message m (db w) of Inl x \<Rightarrow> (Inl x, w) | Inr d \<Rightarrow> (Inr (), w\<lparr>db := d\<rparr>))"

fun direction_str :: "direction \<Rightarrow> str" where
  "direction_str Outbound = lit ''outbound''"
| "direction_str Inbound = lit ''inbound''"

fun status_str :: "msg_status \<Rightarrow> str" where
  "status_str Queued = lit ''queued''"
| "status_str Sending = lit ''sending''"
| "status_str Sent = lit ''sent''"
| "status_str Delivered = lit ''delivered''"
| "status_str Failed = lit ''failed''"
| "status_str Received = lit ''received''"

definition post_message :: "str \<Rightarrow> str \<Rightarrow> 'd world \<Rightarrow> (exn + (str \<times> jval) list) \<times> 'd world" where
  "post_message recipient body w =
     (case send_request_error recipient body of
        Some field \<Rightarrow> (Inl (RequestValidationError field), w)
      | None \<Rightarrow>
          (case body_too_long body of
             Inl x \<Rightarrow> (Inl x, w)
           | Inr True \<Rightarrow>
               (Inl (HTTPException 422 (lit ''body exceeds '' @ nat_str MAX_SEGMENTS @ lit '' SMS segments'')), w)
           | Inr False \<Rightarrow>
               (case new_outbound recipient body w of
                  (Inl x, w1) \<Rightarrow> (Inl x, w1)
                | (Inr m, w1) \<Rightarrow>
                    (case commit_message m w1 of
                       (Inl x, w2) \<Rightarrow> (Inl x, w2)
                     | (Inr _, w2) \<Rightarrow>
                         (Inr [(lit ''id'', JText (msg_id m)), (lit ''status'', JText (status_str (msg_status m))),
                            (lit ''segments'', JInt (msg_segments m)),
                            (lit ''created_at'', JText (msg_created_at m))], w2)))))"

section \<open>Reading\<close>

definition serialize :: "message \<Rightarrow> (str \<times> jval) list" where
  "serialize m =
     [(lit ''id'', JText (msg_id m)),
      (lit ''direction'', JText (direction_str (msg_direction m))),
      (lit ''to'', if msg_direction m = Outbound then JText (msg_msisdn m) else JNull),
      (lit ''from'', if msg_direction m \<noteq> Outbound then JText (msg_msisdn m) else JNull),
      (lit ''body'', JText (msg_body m)),
      (lit ''status'', JText (status_str (msg_status m))),
      (lit ''segments'', JInt (msg_segments m)),
      (lit ''error'', jtext (msg_error m)),
      (lit ''created_at'', JText (msg_created_at m)),
      (lit ''sent_at'', jtext (msg_sent_at m)),
      (lit ''delivered_at'', jtext (msg_delivered_at m)),
      (lit ''received_at'', jtext (msg_received_at m))]"

definition encode_cursor :: "str \<Rightarrow> str \<Rightarrow> exn + str" where
  "encode_cursor created_at key =
     (case utf8_encode (created_at @ [124] @ key) of Inl x \<Rightarrow> Inl x | Inr bs \<Rightarrow> Inr (b64_encode bs))"

definition invalid_cursor :: exn where
  "invalid_cursor = HTTPException 422 (lit ''invalid cursor'')"

definition decode_cursor :: "str \<Rightarrow> exn + str \<times> str" where
  "decode_cursor cursor =
     (case utf8_encode cursor of
        Inl _ \<Rightarrow> Inl invalid_cursor
      | Inr bs \<Rightarrow>
          (case b64_decode bs of
             None \<Rightarrow> Inl invalid_cursor
           | Some raw \<Rightarrow>
               (case utf8_decode raw of
                  None \<Rightarrow> Inl invalid_cursor
                | Some s \<Rightarrow>
                    if 124 \<notin> set s \<or> before_char 124 s = [] \<or> after_char 124 s = [] then Inl invalid_cursor
                    else Inr (before_char 124 s, after_char 124 s))))"

record list_query =
  lq_direction :: "str option"
  lq_status :: "str option"
  lq_since :: "str option"
  lq_until :: "str option"
  lq_to :: "str option"
  lq_from :: "str option"
  lq_limit :: nat
  lq_cursor :: "str option"

text \<open>
  The patterns on the parameters. \<open>digit\<close> is the class \<open>\d\<close> of the regular expression engine pydantic uses.
\<close>

definition timestamp_pattern :: "(nat \<Rightarrow> bool) \<Rightarrow> str \<Rightarrow> bool" where
  "timestamp_pattern digit s \<longleftrightarrow> length s = 20 \<and>
     (\<forall>i \<in> set [0..<20]. if i = 4 \<or> i = 7 then s ! i = 45 else if i = 10 then s ! i = 84
        else if i = 13 \<or> i = 16 then s ! i = 58 else if i = 19 then s ! i = 90 else digit (s ! i))"

definition optional :: "('a \<Rightarrow> bool) \<Rightarrow> 'a option \<Rightarrow> bool" where
  "optional P v \<longleftrightarrow> (case v of None \<Rightarrow> True | Some x \<Rightarrow> P x)"

definition query_checks :: "(nat \<Rightarrow> bool) \<Rightarrow> list_query \<Rightarrow> (str \<times> bool) list" where
  "query_checks digit q =
     [(lit ''query.direction'', optional (\<lambda>s. s \<in> direction_str ` {Outbound, Inbound}) (lq_direction q)),
      (lit ''query.status'',
         optional (\<lambda>s. s \<in> status_str ` {Queued, Sending, Sent, Delivered, Failed, Received}) (lq_status q)),
      (lit ''query.since'', optional (timestamp_pattern digit) (lq_since q)),
      (lit ''query.until'', optional (timestamp_pattern digit) (lq_until q)),
      (lit ''query.to'', optional e164 (lq_to q)),
      (lit ''query.from'', optional e164 (lq_from q)),
      (lit ''query.limit'', 1 \<le> lq_limit q \<and> lq_limit q \<le> 200)]"

definition query_error :: "(nat \<Rightarrow> bool) \<Rightarrow> list_query \<Rightarrow> str option" where
  "query_error digit q = map_option fst (find (\<lambda>(_, ok). \<not> ok) (query_checks digit q))"

text \<open>A filter that is applied only \<open>if value:\<close>.\<close>

definition given :: "str option \<Rightarrow> (str \<Rightarrow> bool) \<Rightarrow> bool" where
  "given v P \<longleftrightarrow> (truthy v \<longrightarrow> P (the v))"

definition query_matches :: "list_query \<Rightarrow> message \<Rightarrow> bool" where
  "query_matches q m \<longleftrightarrow>
     given (lq_direction q) (\<lambda>s. direction_str (msg_direction m) = s) \<and>
     given (lq_status q) (\<lambda>s. status_str (msg_status m) = s) \<and>
     given (lq_since q) (\<lambda>s. s \<le> msg_created_at m) \<and>
     given (lq_until q) (\<lambda>s. msg_created_at m \<le> s) \<and>
     given (lq_to q) (\<lambda>s. msg_direction m = Outbound \<and> msg_msisdn m = s) \<and>
     given (lq_from q) (\<lambda>s. msg_direction m = Inbound \<and> msg_msisdn m = s)"

definition list_key :: "message \<Rightarrow> str \<times> str" where
  "list_key m = (msg_created_at m, msg_id m)"

definition after_cursor :: "list_query \<Rightarrow> exn + (message \<Rightarrow> bool)" where
  "after_cursor q =
     (if truthy (lq_cursor q)
      then (case decode_cursor (the (lq_cursor q)) of
              Inl x \<Rightarrow> Inl x
            | Inr (created, key) \<Rightarrow>
                Inr (\<lambda>m. created < msg_created_at m \<or> msg_created_at m = created \<and> key < msg_id m))
      else Inr (\<lambda>_. True))"

definition list_messages :: "list_query \<Rightarrow> database \<Rightarrow> exn + (str \<times> jval) list list \<times> str option" where
  "list_messages q d =
     (case after_cursor q of
        Inl x \<Rightarrow> Inl x
      | Inr later \<Rightarrow>
          let rows = take (lq_limit q)
                (sort_key list_key (filter (\<lambda>m. query_matches q m \<and> later m) (messages d)))
          in if length rows = lq_limit q
             then (case encode_cursor (msg_created_at (last rows)) (msg_id (last rows)) of
                     Inl x \<Rightarrow> Inl x
                   | Inr c \<Rightarrow> Inr (map serialize rows, Some c))
             else Inr (map serialize rows, None))"

text \<open>The endpoint: the parameters are checked before the handler runs.\<close>

definition get_messages ::
  "(nat \<Rightarrow> bool) \<Rightarrow> list_query \<Rightarrow> 'd world \<Rightarrow> (exn + (str \<times> jval) list list \<times> str option) \<times> 'd world" where
  "get_messages digit q w =
     (case query_error digit q of
        Some location \<Rightarrow> (Inl (RequestValidationError location), w)
      | None \<Rightarrow> (list_messages q (db w), w))"

definition get_message_by_id :: "str \<Rightarrow> database \<Rightarrow> exn + (str \<times> jval) list" where
  "get_message_by_id key d =
     (case get_message d key of
        None \<Rightarrow> Inl (HTTPException 404 (lit ''message not found''))
      | Some m \<Rightarrow> Inr (serialize m))"

section \<open>Health\<close>

definition HEARTBEAT_MAX_AGE_SECONDS :: int where "HEARTBEAT_MAX_AGE_SECONDS = 120"

record health =
  hl_status_code :: nat
  hl_status :: str
  hl_connected :: bool
  hl_signal_percent :: "int option"
  hl_operator :: "str option"
  hl_queue_depth :: nat
  hl_worker_seen_at :: "str option"

definition status_value :: "database \<Rightarrow> str \<Rightarrow> str option" where
  "status_value d k = map_option kv_value (gateway_status d k)"

definition or_none :: "str option \<Rightarrow> str option" where
  "or_none v = (if truthy v then v else None)"

definition heartbeat_fresh :: "str option \<Rightarrow> 'd world \<Rightarrow> (exn + bool) \<times> 'd world" where
  "heartbeat_fresh heartbeat w =
     (if \<not> truthy heartbeat then (Inr False, w)
      else (case now_utc w of (now, w1) \<Rightarrow>
              (case parse_iso (the heartbeat) of
                 Inl x \<Rightarrow> (Inl x, w1)
               | Inr t \<Rightarrow> (Inr (now - t \<le> HEARTBEAT_MAX_AGE_SECONDS * 1000000), w1))))"

definition signal_value :: "str option \<Rightarrow> exn + int option" where
  "signal_value signal =
     (case or_none signal of
        None \<Rightarrow> Inr None
      | Some s \<Rightarrow> (case py_int s of None \<Rightarrow> Inl (int_error s) | Some n \<Rightarrow> Inr (Some n)))"

definition healthz :: "'d world \<Rightarrow> (exn + health) \<times> 'd world" where
  "healthz w =
     (let d = db w
      in case heartbeat_fresh (status_value d (lit ''worker_heartbeat'')) w of
           (Inl x, w1) \<Rightarrow> (Inl x, w1)
         | (Inr fresh, w1) \<Rightarrow>
             (case signal_value (status_value d (lit ''signal_percent'')) of
                Inl x \<Rightarrow> (Inl x, w1)
              | Inr signal \<Rightarrow>
                  (Inr \<lparr>hl_status_code = (if fresh then 200 else 503),
                     hl_status = (if fresh then lit ''ok'' else lit ''degraded''),
                     hl_connected = (status_value d (lit ''modem_connected'') = Some (lit ''1'')),
                     hl_signal_percent = signal,
                     hl_operator = or_none (status_value d (lit ''operator'')),
                     hl_queue_depth = length (filter (\<lambda>m. msg_status m = Queued) (messages d)),
                     hl_worker_seen_at = status_value d (lit ''worker_heartbeat'')\<rparr>, w1)))"

section \<open>Lemmas\<close>

lemma after_cut: "c \<in> set s \<Longrightarrow> s = before_char c s @ c # after_char c s"
  by (induction s) (auto simp: before_char_def after_char_def)

lemma cursor_decodes:
  assumes "list_all scalar created" and "list_all scalar key" and "124 \<notin> set created"
    and "created \<noteq> []" and "key \<noteq> []"
  shows "\<exists>c. encode_cursor created key = Inr c \<and> c \<noteq> [] \<and> decode_cursor c = Inr (created, key)"
proof -
  let ?s = "created @ [124] @ key"
  have "list_all scalar ?s" using assms by (simp add: scalar_def surrogate_def)
  then obtain bs where bs: "utf8_encode ?s = Inr bs" by (simp add: utf8_encode_def)
  then have bytes: "list_all (\<lambda>b. b < 256) bs" by (rule utf8_encode_bytes)
  have "bs \<noteq> []" using bs utf8_decode_encode [OF bs] by (auto simp: utf8_decode.simps)
  moreover have "decode_cursor (b64_encode bs) = Inr (created, key)"
    using assms utf8_encode_ascii [OF b64_encode_ascii [OF bytes]]
    by (simp add: decode_cursor_def b64_decode_encode [OF bytes] utf8_decode_encode [OF bs])
  ultimately show ?thesis using bs by (simp add: encode_cursor_def)
qed

text \<open>What paging relies on: the primary key, and times and identifiers that make readable cursors.\<close>

definition listable :: "database \<Rightarrow> bool" where
  "listable d \<longleftrightarrow> distinct (map msg_id (messages d)) \<and>
     (\<forall>m \<in> set (messages d). list_all scalar (msg_created_at m) \<and> list_all scalar (msg_id m) \<and>
        124 \<notin> set (msg_created_at m) \<and> msg_created_at m \<noteq> [] \<and> msg_id m \<noteq> [])"

text \<open>The complete answer, in the order of the pages.\<close>

definition listing :: "list_query \<Rightarrow> database \<Rightarrow> message list" where
  "listing q d = sort_key list_key (filter (query_matches q) (messages d))"

text \<open>A client that follows \<open>next_cursor\<close> to the end; \<open>None\<close> when it has not reached it after \<open>n\<close> pages.\<close>

fun follow_pages :: "nat \<Rightarrow> list_query \<Rightarrow> database \<Rightarrow> (exn + (str \<times> jval) list list) option" where
  "follow_pages 0 q d = None"
| "follow_pages (Suc n) q d =
     (case list_messages q d of
        Inl x \<Rightarrow> Some (Inl x)
      | Inr (rows, None) \<Rightarrow> Some (Inr rows)
      | Inr (rows, Some c) \<Rightarrow> map_option (map_sum id ((@) rows)) (follow_pages n (q\<lparr>lq_cursor := Some c\<rparr>) d))"

lemma query_matches_cursor [simp]: "query_matches (q\<lparr>lq_cursor := c\<rparr>) = query_matches q"
  by (simp add: query_matches_def fun_eq_iff)

lemma listing_sorted:
  assumes "distinct (map msg_id (messages d))"
  shows "sorted (map list_key (listing q d))" and "distinct (map list_key (listing q d))"
proof -
  show "sorted (map list_key (listing q d))" by (simp add: listing_def)
  have "inj_on list_key (set (messages d))"
    using assms by (auto simp: list_key_def distinct_map inj_on_def)
  then show "distinct (map list_key (listing q d))"
    using assms by (auto simp: listing_def distinct_map inj_on_def)
qed

lemma listing_after:
  assumes "distinct (map msg_id (messages d))" and "listing q d = zs @ z # ys"
  shows "sort_key list_key (filter (\<lambda>m. query_matches q m \<and> list_key z < list_key m) (messages d)) = ys"
proof -
  have "filter (\<lambda>m. list_key z < list_key m) (listing q d) = ys"
    using listing_sorted [OF assms(1), of q] unfolding assms(2) by (rule sorted_key_drop_prefix)
  then show ?thesis by (simp add: listing_def filter_sort conj_commute)
qed

lemma follow_pages_suffix:
  assumes "listable d" and "1 \<le> lq_limit q"
  shows "\<lbrakk>listing q d = zs @ ys; length ys < n; after_cursor (q\<lparr>lq_cursor := c\<rparr>) = Inr later;
      sort_key list_key (filter (\<lambda>m. query_matches q m \<and> later m) (messages d)) = ys\<rbrakk> \<Longrightarrow>
    follow_pages n (q\<lparr>lq_cursor := c\<rparr>) d = Some (Inr (map serialize ys))"
proof (induction n arbitrary: zs ys c later)
  case (Suc n)
  let ?rows = "take (lq_limit q) ys"
  show ?case
  proof (cases "length ?rows = lq_limit q")
    case False
    then have "length ys \<noteq> lq_limit q" "?rows = ys" by auto
    then show ?thesis using Suc.prems(3,4) by (simp add: list_messages_def Let_def)
  next
    case True
    then have ne: "?rows \<noteq> []" using assms(2) by auto
    define z where "z = last ?rows"
    define rest where "rest = drop (lq_limit q) ys"
    have ys: "ys = butlast ?rows @ z # rest"
      using append_butlast_last_id [OF ne] append_take_drop_id [of "lq_limit q" ys]
      by (metis append_Cons append_Nil append_assoc rest_def z_def)
    then have split: "listing q d = (zs @ butlast ?rows) @ z # rest" using Suc.prems(1) by simp
    then have "z \<in> set (listing q d)" by simp
    then have "z \<in> set (messages d)" by (simp add: listing_def)
    then obtain c' where c': "encode_cursor (msg_created_at z) (msg_id z) = Inr c'" "c' \<noteq> []"
      "decode_cursor c' = Inr (msg_created_at z, msg_id z)"
      using cursor_decodes assms(1) unfolding listable_def by metis
    have page: "list_messages (q\<lparr>lq_cursor := c\<rparr>) d = Inr (map serialize ?rows, Some c')"
      using Suc.prems(3,4) True c'(1) by (simp add: list_messages_def Let_def z_def)
    have later: "after_cursor (q\<lparr>lq_cursor := Some c'\<rparr>) = Inr (\<lambda>m. list_key z < list_key m)"
      using c' by (auto simp: after_cursor_def list_key_def fun_eq_iff)
    have "length rest < n" using Suc.prems(2) True assms(2) by (simp add: rest_def)
    moreover have dist: "distinct (map msg_id (messages d))" using assms(1) by (simp add: listable_def)
    moreover have "listing q d = (zs @ butlast ?rows @ [z]) @ rest" using split by simp
    ultimately have "follow_pages n (q\<lparr>lq_cursor := Some c'\<rparr>) d = Some (Inr (map serialize rest))"
      by (intro Suc.IH [OF _ _ later listing_after [OF dist split]])
    then show ?thesis
      using page by (simp add: rest_def flip: map_append)
  qed
qed simp

section \<open>Properties\<close>

text \<open>
  C8. Following \<open>next_cursor\<close> page by page gives exactly the messages that match the filters, each once, in
  the order of creation time and identifier, whatever the page size.
\<close>

theorem pages_complete:
  assumes "listable d" and "1 \<le> lq_limit q" and "lq_cursor q = None" and "length (messages d) < n"
  shows "follow_pages n q d = Some (Inr (map serialize (listing q d)))"
proof -
  have q: "q\<lparr>lq_cursor := None\<rparr> = q" using assms(3) by simp
  have "length (listing q d) < n"
    using le_less_trans [OF length_filter_le assms(4)] by (simp add: listing_def)
  from follow_pages_suffix [OF assms(1,2), of "[]" "listing q d" n None "\<lambda>_. True", OF _ this] show ?thesis
    by (simp add: q listing_def after_cursor_def assms(3))
qed

definition sample_message :: "nat \<Rightarrow> message" where
  "sample_message i = \<lparr>msg_id = 109 # nat_str i, msg_direction = Inbound, msg_msisdn = lit ''+41790000000'',
     msg_body = lit ''hi'', msg_status = Received, msg_segments = 1, msg_error = None, msg_modem_ref = None,
     msg_created_at = lit ''2026-01-01T00:00:00Z'', msg_sent_at = None, msg_delivered_at = None,
     msg_received_at = None\<rparr>"

definition first_page :: list_query where
  "first_page = \<lparr>lq_direction = None, lq_status = None, lq_since = None, lq_until = None, lq_to = None,
     lq_from = None, lq_limit = 1, lq_cursor = None\<rparr>"

theorem pages_complete_witness:
  "follow_pages 3 first_page (empty_db\<lparr>messages := map sample_message [2, 1]\<rparr>) =
     Some (Inr (map serialize (map sample_message [1, 2])))"
proof -
  have digits: "nat_str (Suc 0) = [49]" "nat_str 2 = [50]" by (simp_all add: nat_str.simps)
  have ok: "listable (empty_db\<lparr>messages := map sample_message [2, 1]\<rparr>)"
    by (simp add: listable_def sample_message_def digits lit_def scalar_def surrogate_def)
  have "listing first_page (empty_db\<lparr>messages := map sample_message [2, 1]\<rparr>) = map sample_message [1, 2]"
    by (simp add: listing_def query_matches_def given_def first_page_def list_key_def sample_message_def digits)
  then show ?thesis
    using pages_complete [OF ok, of first_page 3] by (simp add: first_page_def)
qed

text \<open>
  C10. \<open>POST /messages\<close> queues exactly one outbound message with the given number and text and its number of
  segments, and answers with that row; a request with an invalid number or a text that is empty or too long is
  answered with 422 and changes nothing.
\<close>

theorem post_message_effect:
  assumes "get_message (db w) (lit ''msg'' @ lit ''_'' @ ulid (env w) (tick (env w))) = None"
    and "post_message recipient body w = (r, w')"
    and "valid \<longleftrightarrow> e164 recipient \<and> list_all scalar body \<and> body \<noteq> [] \<and> body_too_long body = Inr False"
  shows "case r of
      Inl x \<Rightarrow> \<not> valid \<and> w' = w \<and>
        (\<forall>wording. \<exists>detail. error_response wording x = ErrorAnswer 422 (lit ''validation_error'') detail)
    | Inr answer \<Rightarrow> valid \<and>
        (\<exists>m n. count_segments body = Inr n \<and> n \<le> MAX_SEGMENTS \<and> msg_segments m = int n \<and>
           queued m \<and> msg_msisdn m = recipient \<and> msg_body m = body \<and>
           db w' = (db w)\<lparr>messages := messages (db w) @ [m]\<rparr> \<and>
           answer = [(lit ''id'', JText (msg_id m)), (lit ''status'', JText (lit ''queued'')),
             (lit ''segments'', JInt (int n)), (lit ''created_at'', JText (msg_created_at m))])"
proof (cases "send_request_error recipient body")
  case (Some field)
  then have invalid: "\<not> (e164 recipient \<and> list_all scalar body \<and> body \<noteq> [] \<and> body_too_long body = Inr False)"
    by (auto simp: send_request_error_def body_too_long_def split: if_splits)
  have "field \<noteq> []" using Some by (auto simp: send_request_error_def split: if_splits)
  then show ?thesis
    using assms(2) Some invalid by (auto simp: assms(3) post_message_def RequestValidationError_def)
next
  case None
  then have fields: "e164 recipient" "list_all scalar body" "body \<noteq> []" "length body \<le> MAX_BODY_CHARS"
    by (auto simp: send_request_error_def split: if_splits)
  then have "\<not> list_ex surrogate body" by (auto simp: list_all_iff list_ex_iff scalar_def)
  then have "\<exists>n. count_segments body = Inr n" by (simp add: count_segments_units)
  then obtain n where n: "count_segments body = Inr n" by blast
  then have long: "body_too_long body = Inr (MAX_SEGMENTS < n)"
    using fields(4) by (simp add: body_too_long_def)
  show ?thesis
  proof (cases "MAX_SEGMENTS < n")
    case True
    then show ?thesis
      using assms(2) None long by (auto simp: assms(3) post_message_def ERROR_CODES_def)
  next
    case False
    define m where "m = \<lparr>msg_id = lit ''msg'' @ lit ''_'' @ ulid (env w) (tick (env w)), msg_direction = Outbound,
      msg_msisdn = recipient, msg_body = body, msg_status = Queued, msg_segments = int n, msg_error = None,
      msg_modem_ref = None, msg_created_at = iso (wall (env w) (Suc (tick (env w)))), msg_sent_at = None,
      msg_delivered_at = None, msg_received_at = None\<rparr>"
    have "get_message (db w) (msg_id m) = None" using assms(1) by (simp add: m_def)
    then have "r = Inr [(lit ''id'', JText (msg_id m)), (lit ''status'', JText (status_str (msg_status m))),
        (lit ''segments'', JInt (msg_segments m)), (lit ''created_at'', JText (msg_created_at m))] \<and>
      db w' = (db w)\<lparr>messages := messages (db w) @ [m]\<rparr>"
      using assms(2) None long n False
      by (auto simp: post_message_def new_outbound_def commit_message_def message_id_def new_id_def
          utc_now_iso_def add_message_def insert_row_def get_message_def m_def)
    then show ?thesis
      using n False long fields by (auto simp: assms(3) m_def queued_def intro!: exI [of _ m])
  qed
qed

theorem post_message_effect_witness:
  "\<exists>answer w'. post_message (lit ''+41790000000'') (lit ''hi'') (sample_world empty_db ()) = (Inr answer, w') \<and>
     length (messages (db w')) = 1"
proof -
  let ?w = "sample_world empty_db ()"
  obtain r w' where run: "post_message (lit ''+41790000000'') (lit ''hi'') ?w = (r, w')" by (metis prod.exhaust)
  have fresh: "get_message (db ?w) (lit ''msg'' @ lit ''_'' @ ulid (env ?w) (tick (env ?w))) = None"
    by (simp add: sample_world_def empty_db_def get_message_def)
  have valid: "e164 (lit ''+41790000000'') \<and> list_all scalar (lit ''hi'') \<and> lit ''hi'' \<noteq> [] \<and>
      body_too_long (lit ''hi'') = Inr False"
    by (simp add: e164_def is_digit_def scalar_def sms_eval)
  have "messages (db ?w) = []" by (simp add: sample_world_def empty_db_def)
  with post_message_effect [OF fresh run refl] valid obtain answer where "r = Inr answer" "length (messages (db w')) = 1"
    by (cases r) auto
  then show ?thesis using run by blast
qed



end
