(* ===== verification/Progress.thy ===== *)
theory Progress
  imports RestApi
begin

text \<open>
  That the queue moves. \<open>Outbox\<close> says what a round of \<open>process_outbox\<close> may do; here is what it must do, while the modem's
  connection holds: after the wait that the throttle asks for, a round settles the oldest message at least, so that a
  message is settled after as many rounds as there were messages before it, whatever is posted in between.
\<close>

section \<open>A round that was waited for\<close>

definition keeps_connection :: "'d modem_driver \<Rightarrow> bool" where
  "keeps_connection D \<longleftrightarrow> (\<forall>to body d e x. fst (dv_send_sms D to body d e) \<noteq> Inl (ModemConnectionError x))"

definition ready :: "token_bucket \<Rightarrow> 'd world \<Rightarrow> bool" where
  "ready b w \<longleftrightarrow> 1 \<le> tb_capacity b \<and> 0 < tb_rate b \<and>
     tb_last_refill b + (1 - tb_tokens b) / tb_rate b \<le> monotime (env w) (tick (env w))"

lemma retries_keep_connection:
  assumes "keeps_connection D" and "\<forall>x. l \<noteq> Some (ModemConnectionError x)"
  shows "fst (send_with_retries D to body n l w) \<noteq> Inl (ModemConnectionError x)"
  using assms(2)
proof (induction n arbitrary: l w)
  case (Suc n)
  obtain r w1 where r: "call (dv_send_sms D to body) w = (r, w1)" by (metis prod.exhaust)
  then have "\<forall>x. r \<noteq> Inl (ModemConnectionError x)"
    using assms(1) by (auto simp: keeps_connection_def call_def split: prod.splits) (metis fst_conv)
  then show ?case using Suc r by (auto split: sum.split)
qed (auto split: option.split)

lemma attempt_connected:
  assumes "keeps_connection D"
  shows "fst (attempt_send D n k w) \<noteq> Inl (ModemConnectionError x)"
  using retries_keep_connection [OF assms] by (auto simp: attempt_send_def ObjectDeletedError_def split: option.split)

text \<open>What the API process may commit meanwhile: it deletes nothing, and its messages go to the end of the queue.\<close>

definition posts :: "database \<Rightarrow> database \<Rightarrow> bool" where
  "posts d d' \<longleftrightarrow> keeps_rows d d' \<and> (ids_distinct d \<longrightarrow> (\<exists>new. outbox d' = outbox d @ new))"

lemma posts_rows: "\<forall>mo d. posts d (other mo d) \<Longrightarrow> \<forall>mo d. keeps_rows d (other mo d)"
  by (simp add: posts_def)

lemma posts_queue: "posts d d' \<Longrightarrow> ids_distinct d \<Longrightarrow> \<exists>new. outbox d' = outbox d @ new"
  by (simp add: posts_def)

text \<open>A message that is no longer queued leaves the queue, and the others keep their order.\<close>

lemma outbox_leave:
  assumes "\<forall>r \<in> set (messages d). msg_id r = k \<longrightarrow> \<not> queued (f r)"
  shows "outbox (with_message k f d) = filter (\<lambda>r. msg_id r \<noteq> k) (outbox d)"
proof -
  have "filter queued (map (\<lambda>r. if msg_id r = k then f r else r) rows) = filter (\<lambda>r. msg_id r \<noteq> k) (filter queued rows)"
    if "set rows \<subseteq> set (messages d)" for rows
    using that assms by (induction rows) auto
  then show ?thesis by (simp add: outbox_def messages_with_message filter_sort)
qed

lemma process_message_queue:
  assumes posts: "\<forall>mo d. posts d (other mo d)" and dist: "ids_distinct (db w)" and first: "outbox (db w) = m # ms"
    and run: "process_message other D n (msg_id m) w = (Inr (), w')"
  shows "\<exists>new. outbox (db w') = ms @ new"
proof -
  let ?k = "msg_id m"
  let ?marked = "with_message ?k (\<lambda>m. m\<lparr>msg_status := Sending\<rparr>) (other (Marking ?k) (db w))"
  note rows = posts_rows [OF posts]
  have m: "m \<in> set (messages (db w))" using first outbox_queued(3) [OF dist, of m] by simp
  have dist1: "ids_distinct (other (Marking ?k) (db w))" using rows dist by (simp add: settles_def)
  obtain n1 where n1: "outbox (other (Marking ?k) (db w)) = m # ms @ n1"
    using posts_queue [OF _ dist] posts first by fastforce
  have "\<forall>r \<in> set (ms @ n1). msg_id r \<noteq> ?k"
    using outbox_queued(1) [OF dist1] unfolding n1 by (simp, metis Un_iff image_eqI)
  then have marked: "outbox ?marked = ms @ n1"
    using outbox_leave [of "other (Marking ?k) (db w)" ?k "\<lambda>m. m\<lparr>msg_status := Sending\<rparr>"]
    by (simp add: n1 queued_def)
  have "ids_distinct ?marked" using dist1 by simp
  then obtain n2 where n2: "outbox (in_flight other ?k (db w)) = ms @ n1 @ n2"
    using posts_queue [of ?marked] posts_queue [of "other (Reading ?k) ?marked"] posts marked rows
    unfolding in_flight_def by (metis append.assoc settles_def)
  have distf: "ids_distinct (in_flight other ?k (db w))" by (rule in_flight_distinct [OF rows dist])
  have "m\<lparr>msg_status := Sending\<rparr> \<in> set (messages (in_flight other ?k (db w)))"
    using in_flight_keeps [OF rows dist m, of ?k] by simp
  then have sending: "msg_status r = Sending" if "r \<in> set (messages (in_flight other ?k (db w)))" "msg_id r = ?k" for r
    using same_row [OF distf _ that(1)] that(2) by fastforce
  from run show ?thesis
  proof (cases rule: process_message_cases)
    case (settled t)
    have "\<not> queued (turn_update t r)" for r
      using settled(2) by (cases t) (auto simp: queued_def mark_sent_def mark_failed_def)
    then have "outbox (db w') = filter (\<lambda>r. msg_id r \<noteq> ?k) (outbox (in_flight other ?k (db w)))"
      using outbox_leave by (simp add: settled(4))
    also have "msg_id r \<noteq> ?k" if "r \<in> set (outbox (in_flight other ?k (db w)))" for r
      using that outbox_queued(3) [OF distf, of r] sending [of r] by (auto simp: queued_def)
    then have "filter (\<lambda>r. msg_id r \<noteq> ?k) (outbox (in_flight other ?k (db w))) = outbox (in_flight other ?k (db w))"
      by (intro filter_True) simp
    finally show ?thesis using n2 by simp
  qed simp_all
qed

text \<open>
  The first messages of the queue are settled, the others stay in their order, and what is posted meanwhile is behind them.
\<close>

lemma outbox_loop_progress:
  assumes posts: "\<forall>mo d. posts d (other mo d)" and kept: "keeps_connection D"
  shows "\<lbrakk>ids_distinct (db w); outbox (db w) = ms @ later; outbox_loop other D n (map msg_id ms) b w = (r, b', w')\<rbrakk> \<Longrightarrow>
    r = Inr () \<and> (\<exists>j new. j \<le> length ms \<and> outbox (db w') = drop j ms @ later @ new \<and>
      settles (msg_id ` set (take j ms)) (db w) (db w') \<and> (ms \<noteq> [] \<and> ready b w \<longrightarrow> 1 \<le> j))"
proof (induction ms arbitrary: b w later)
  case (Cons m ms)
  let ?k = "msg_id m" and ?now = "monotime (env w) (tick (env w))"
  note rows = posts_rows [OF posts]
  have m: "m \<in> set (outbox (db w))" using Cons.prems(2) by simp
  then have row: "row_queued (db w) ?k" using outbox_queued(3) [OF Cons.prems(1)] by (auto simp: row_queued_def)
  then obtain c where c: "get_message (db w) ?k = Some c" using row_queued_get by blast
  obtain ok b1 where b1: "try_take (send_cost c) ?now b = (ok, b1)" by (metis prod.exhaust)
  show ?case
  proof (cases ok)
    case False
    then have "r = Inr ()" "db w' = db w"
      using Cons.prems(3) c b1 by (auto simp: read_monotonic_def)
    moreover have "\<not> ready b w"
      using bucket.granted_after_wait [of b ?now "send_cost c"] b1 False by (auto simp: ready_def)
    ultimately show ?thesis using Cons.prems(2) by (intro conjI exI [of _ 0] exI [of _ "[]"]) simp_all
  next
    case True
    obtain q w2 where pm: "process_message other D n ?k (advance 1 w) = (q, w2)" by (metis prod.exhaust)
    have now: "ids_distinct (db (advance 1 w))" "row_queued (db (advance 1 w)) ?k" "outbox (db (advance 1 w)) = m # ms @ later"
      using Cons.prems(1,2) row by simp_all
    from rows now(1,2) pm have q: "q = Inr ()" and s: "settles {?k} (db w) (db w2)"
      by (cases rule: process_message_settles; use attempt_connected [OF kept] in auto)+
    obtain n1 where n1: "outbox (db w2) = (ms @ later) @ n1"
      using process_message_queue [OF posts now(1,3)] pm q by blast
    let ?w3 = "meanwhile (other (Following ?k)) w2"
    have ids2: "ids_distinct (db w2)" using s Cons.prems(1) by (simp add: settles_def)
    obtain n2 where n2: "outbox (db ?w3) = ms @ later @ n1 @ n2"
      using posts_queue [OF _ ids2] posts n1 by fastforce
    have s3: "settles {?k} (db w) (db ?w3)" using settles_trans [OF s, of "{}" "db ?w3"] rows by simp
    then have ids3: "ids_distinct (db ?w3)" using Cons.prems(1) by (simp add: settles_def)
    have "outbox_loop other D n (map msg_id ms) b1 ?w3 = (r, b', w')"
      using Cons.prems(3) c b1 pm q True by (simp add: read_monotonic_def)
    from Cons.IH [OF ids3 _ this, of "later @ n1 @ n2"] n2 obtain j new where j: "r = Inr ()" "j \<le> length ms"
      "outbox (db w') = drop j ms @ (later @ n1 @ n2) @ new" "settles (msg_id ` set (take j ms)) (db ?w3) (db w')"
      by auto
    have "?k \<notin> msg_id ` set (take j ms)"
      using outbox_queued(1) [OF Cons.prems(1)] Cons.prems(2) by (auto dest: in_set_takeD)
    with settles_trans [OF s3 j(4)] have "settles (msg_id ` set (take (Suc j) (m # ms))) (db w) (db w')" by simp
    then show ?thesis using j(1-3) by (intro conjI exI [of _ "Suc j"] exI [of _ "n1 @ n2 @ new"]) simp_all
  qed
qed simp

lemma process_outbox_progress:
  assumes "\<forall>mo d. posts d (other mo d)" and "keeps_connection D" and "ids_distinct (db w)"
    and "process_outbox other D n b w = (r, b', w')"
  shows "r = Inr () \<and> (\<exists>j new. j \<le> length (outbox (db w)) \<and> outbox (db w') = drop j (outbox (db w)) @ new \<and>
      settles (msg_id ` set (take j (outbox (db w)))) (db w) (db w') \<and> (outbox (db w) \<noteq> [] \<and> ready b w \<longrightarrow> 1 \<le> j))"
  using outbox_loop_progress [OF assms(1-3), of "outbox (db w)" "[]"] assms(4) by (simp add: process_outbox_def)

section \<open>Who keeps the queue\<close>

text \<open>Changes by the contract of the worker's steps that at most append to the queue.\<close>

definition keeps_queue :: "database \<Rightarrow> database \<Rightarrow> bool" where
  "keeps_queue d d' \<longleftrightarrow> safe_step d d' \<and> (ids_distinct d \<longrightarrow> (\<exists>new. outbox d' = outbox d @ new))"

lemma keeps_queue_same: "messages d' = messages d \<Longrightarrow> keeps_queue d d'"
  by (simp add: keeps_queue_def safe_step_same outbox_def)

lemma keeps_queue_trans: "keeps_queue a b \<Longrightarrow> keeps_queue b c \<Longrightarrow> keeps_queue a c"
  by (fastforce simp: keeps_queue_def safe_step_def intro: db_evolves_trans)

lemma sort_key_snoc: "\<forall>x \<in> set xs. f x \<le> f m \<Longrightarrow> sort_key f (xs @ [m]) = sort_key f xs @ [m]"
proof (induction xs)
  case (Cons x xs)
  have "insort_key f x (ys @ [m]) = insort_key f x ys @ [m]" for ys
    using Cons.prems by (induction ys) auto
  then show ?case using Cons by simp
qed simp

lemma keeps_queue_append:
  assumes "messages d' = messages d @ [m]" and "get_message d (msg_id m) = None"
    and "\<not> queued m \<or> (\<forall>r \<in> set (outbox d). queue_key r \<le> queue_key m)"
  shows "keeps_queue d d'"
proof -
  have "sort_key queue_key (filter queued (messages d) @ [m]) = outbox d @ [m]" if "queued m"
    unfolding outbox_def by (rule sort_key_snoc) (use assms(3) that in \<open>simp add: outbox_def\<close>)
  then have "\<exists>new. outbox d' = outbox d @ new"
    by (cases "queued m") (auto simp: outbox_def assms(1))
  then show ?thesis using safe_step_append [OF assms(1,2)] by (simp add: keeps_queue_def)
qed

lemma keeps_queue_mark:
  assumes "keeps_queue d d'" and "m \<in> set (messages d)" and "msg_status m = Sent"
  shows "keeps_queue d (with_message (msg_id m) (mark_delivered ts) d')"
proof -
  have "outbox (with_message (msg_id m) (mark_delivered ts) d') = outbox d'" if ids: "ids_distinct d"
  proof -
    have ids': "ids_distinct d'" and "db_evolves d d'" using assms(1) ids by (auto simp: keeps_queue_def safe_step_def)
    then obtain m' where m': "m' \<in> set (messages d')" "row_evolves m m'" using assms(2) by (auto simp: db_evolves_def)
    then have "r = m'" if "r \<in> set (messages d')" "msg_id r = msg_id m" for r
      using ids' that by (auto simp: ids_distinct_def distinct_map inj_on_def row_evolves_def)
    moreover have "\<not> queued m'" using m'(2) assms(3) by (auto simp: row_evolves_def queued_def)
    ultimately have off: "\<not> queued r" if "r \<in> set (messages d')" "msg_id r = msg_id m" for r using that by blast
    have "\<not> queued (mark_delivered ts r)" for r by (simp add: queued_def mark_delivered_def)
    then have "filter queued (map (\<lambda>r. if msg_id r = msg_id m then mark_delivered ts r else r) rows) = filter queued rows"
      if "set rows \<subseteq> set (messages d')" for rows
      using that off by (induction rows) auto
    then show ?thesis by (simp add: outbox_def with_message_def)
  qed
  then show ?thesis using late_mark_delivered_safe [OF _ assms(2,3)] assms(1) by (simp add: keeps_queue_def)
qed

lemma posts_keeps_queue: "posts d d' \<Longrightarrow> keeps_queue d d'"
  by (simp add: posts_def keeps_queue_def keeps_rows_safe)

lemma posts_undisturbed: "posts d (undisturbed mo d)"
  by (simp add: posts_def undisturbed_apply)

interpretation queue: inbound_contract "\<lambda>_. True" keeps_queue
proof unfold_locales
qed (auto intro: keeps_queue_same keeps_queue_trans keeps_queue_append keeps_queue_mark)

section \<open>Iterations of the loop\<close>

text \<open>
  An iteration that starts and ends with the modem connected: the queue loses a first part, whose messages are settled,
  and may grow at its end.
\<close>

lemma iteration_progress:
  assumes run: "loop_iteration other D s w = (out, s', w')" and "out \<noteq> Exited" and "wk_connected s" and "wk_connected s'"
    and "keeps_connection D" and "ready (wk_bucket s) w" and posts: "\<forall>mo d. posts d (other mo d)"
    and ids: "ids_distinct (db w)" and "outbox (db w) \<noteq> []"
  shows "\<exists>j new d. 1 \<le> j \<and> outbox (db w') = drop j (outbox (db w)) @ new \<and> safe_step d (db w') \<and> ids_distinct d \<and>
    (\<forall>m \<in> set (take j (outbox (db w))). \<exists>m' \<in> set (messages d). settled_row m m')"
proof -
  let ?w0 = "meanwhile (other Querying) w"
  obtain r1 b w1 where 1: "process_outbox other D MAX_SEND_ATTEMPTS (wk_bucket s) ?w0 = (r1, b, w1)" by (metis prod.exhaust)
  let ?w1 = "meanwhile (other Receiving) w1"
  obtain r2 w2 where 2: "process_inbound other D ?w1 = (r2, w2)" by (metis prod.exhaust)
  obtain r3 w3 where 3: "call (dv_status D) w2 = (r3, w3)" by (metis prod.exhaust)
  have "db w3 = db w2" using call_db [of "dv_status D" w2] 3 by simp
  then have last: "messages (db w') = messages (db w2)"
    using run assms(2-4) 1 2 3
    by (auto simp: loop_iteration_def restart_requested_def worker_round_def ensure_connected_def Let_def
        split: sum.splits if_splits)
  obtain n0 where n0: "outbox (db ?w0) = outbox (db w) @ n0" using posts_queue [OF _ ids] posts by fastforce
  have ids0: "ids_distinct (db ?w0)" using posts ids by (simp add: posts_def settles_def)
  have "ready (wk_bucket s) ?w0" using assms(6) by (simp add: ready_def)
  with process_outbox_progress [OF posts assms(5) ids0 1] n0 assms(9) obtain j n1 where j: "1 \<le> j"
    "outbox (db w1) = drop j (outbox (db w) @ n0) @ n1"
    "settles (msg_id ` set (take j (outbox (db w) @ n0))) (db ?w0) (db w1)" by auto
  have ids1: "ids_distinct (db w1)" using j(3) ids0 by (simp add: settles_def)
  have settled: "\<exists>m' \<in> set (messages (db w1)). settled_row m m'" if m: "m \<in> set (take j (outbox (db w)))" for m
  proof -
    have "m \<in> set (messages (db ?w0))" using m outbox_queued(3) [OF ids0, of m] n0 by (auto dest: in_set_takeD)
    then show ?thesis using settles_settled [OF j(3) ids0] m by auto
  qed
  have "keeps_queue (db w1) (db ?w1)" "\<forall>mo d. keeps_queue d (other mo d)"
    using posts posts_keeps_queue by simp_all
  then have kq: "keeps_queue (db w1) (db w')"
    using queue.process_inbound [OF 2] keeps_queue_same [OF last] keeps_queue_trans by blast
  then obtain n2 where "outbox (db w') = drop j (outbox (db w)) @ drop (j - length (outbox (db w))) n0 @ n1 @ n2"
    using j(2) ids1 by (auto simp: keeps_queue_def)
  then show ?thesis using j(1) settled ids1 kq
    by (intro exI [of _ j] exI [of _ "drop (j - length (outbox (db w))) n0 @ n1 @ n2"] exI [of _ "db w1"])
      (auto simp: keeps_queue_def)
qed

text \<open>A run of such iterations, each at a time for which the throttle is ready, with commits of others in between.\<close>

inductive calm_run ::
  "interference \<Rightarrow> 'd modem_driver \<Rightarrow> nat \<Rightarrow> worker \<times> 'd world \<Rightarrow> worker \<times> 'd world \<Rightarrow> bool"
  for other :: interference and D :: "'d modem_driver" where
  rest: "calm_run other D 0 t t"
| iterate: "\<lbrakk>wk_connected s; ready (wk_bucket s) w; loop_iteration other D s w = (out, s1, w1); out \<noteq> Exited;
     wk_connected s1; keeps_queue (db w1) (db w2); calm_run other D n (s1, w2) t\<rbrakk> \<Longrightarrow> calm_run other D (Suc n) (s, w) t"

inductive_cases calm_run_SucE: "calm_run other D (Suc n) t t'"

lemma calm_run_safe:
  assumes "\<forall>mo d. posts d (other mo d)"
  shows "calm_run other D n t t' \<Longrightarrow> safe_step (db (snd t)) (db (snd t'))"
proof (induction rule: calm_run.induct)
  case (iterate s w out s1 w1 w2 n t)
  then have "safe_step (db w1) (db w2)" by (simp add: keeps_queue_def)
  with iterate loop_iteration_safe [OF iterate(3) posts_rows [OF assms]] show ?case
    by (auto intro: safe_step_trans)
qed simp

lemma final_status: "legal a b \<Longrightarrow> a \<in> {Sent, Failed} \<Longrightarrow> b \<in> {Sent, Delivered, Failed}"
  by (cases a) auto

lemma settled_stays:
  assumes "queued m" and "settled_row m m1" and "m1 \<in> set (messages d)" and "safe_step d d'" and "ids_distinct d"
  shows "\<exists>m' \<in> set (messages d'). row_evolves m m' \<and> msg_status m' \<in> {Sent, Delivered, Failed}"
proof -
  obtain m' where m': "m' \<in> set (messages d')" "row_evolves m1 m'"
    using assms(3-5) by (auto simp: safe_step_def db_evolves_def)
  have "row_evolves m m1"
    using assms(1,2) by (auto simp: settled_row_def row_evolves_def queued_def mark_sent_def mark_failed_def
        elim!: settled_turn.elims)
  moreover have "msg_status m' \<in> {Sent, Delivered, Failed}"
    using settled_row_status [OF assms(2)] m'(2) final_status by (auto simp: row_evolves_def)
  ultimately show ?thesis using m' row_evolves_trans by blast
qed

lemma calm_run_settles:
  assumes "calm_run other D n (s, w) (s', w')" and "keeps_connection D" and other: "\<forall>mo d. posts d (other mo d)"
    and "ids_distinct (db w)" and "i < length (outbox (db w))" and "i < n"
  shows "\<exists>m' \<in> set (messages (db w')). row_evolves (outbox (db w) ! i) m' \<and> msg_status m' \<in> {Sent, Delivered, Failed}"
  using assms(1,4-6)
proof (induction n arbitrary: s w i)
  case (Suc n)
  obtain out s1 w1 w2 where step: "wk_connected s" "ready (wk_bucket s) w" "loop_iteration other D s w = (out, s1, w1)"
    "out \<noteq> Exited" "wk_connected s1" "keeps_queue (db w1) (db w2)" and rest: "calm_run other D n (s1, w2) (s', w')"
    using Suc.prems(1) by (auto elim: calm_run_SucE)
  have ids: "ids_distinct (db w1)" "ids_distinct (db w2)"
    using loop_iteration_safe [OF step(3) posts_rows [OF other]] step(6) Suc.prems(2)
    by (auto simp: safe_step_def keeps_queue_def)
  have "outbox (db w) \<noteq> []" using Suc.prems(3) by auto
  from iteration_progress [OF step(3,4,1,5) assms(2) step(2) other Suc.prems(2) this]
  obtain j new d where j: "1 \<le> j" "outbox (db w1) = drop j (outbox (db w)) @ new" "safe_step d (db w1)" "ids_distinct d"
    "\<forall>m \<in> set (take j (outbox (db w))). \<exists>m' \<in> set (messages d). settled_row m m'" by blast
  obtain new' where new': "outbox (db w2) = drop j (outbox (db w)) @ new @ new'"
    using step(6) j(2) ids(1) by (auto simp: keeps_queue_def)
  show ?case
  proof (cases "i < j")
    case True
    then have "outbox (db w) ! i \<in> set (take j (outbox (db w)))" using Suc.prems(3) by (auto simp: in_set_conv_nth)
    then obtain m1 where m1: "m1 \<in> set (messages d)" "settled_row (outbox (db w) ! i) m1" using j(5) by blast
    have "outbox (db w) ! i \<in> set (outbox (db w))" using Suc.prems(3) by simp
    then have "queued (outbox (db w) ! i)" unfolding outbox_def by simp
    moreover have "safe_step d (db w')"
      using j(3) step(6) calm_run_safe [OF other rest] by (auto simp: keeps_queue_def intro: safe_step_trans)
    ultimately show ?thesis using settled_stays m1 j(4) by blast
  next
    case False
    then have "i - j < length (outbox (db w2))" "outbox (db w2) ! (i - j) = outbox (db w) ! i" "i - j < n"
      using Suc.prems(3,4) j(1) by (auto simp: new' nth_append)
    then show ?thesis using Suc.IH [OF rest ids(2), of "i - j"] by simp
  qed
qed simp

section \<open>The property\<close>

text \<open>
  C17. Every queued message gets its turn: while the modem keeps the connection, whatever a message costs and whatever is
  received, reported and posted meanwhile - also during the sends -, the message with \<open>i\<close> messages before it in the queue is sent or has failed
  for good after \<open>i + 1\<close> iterations of the loop that each waited for the throttle.
\<close>

theorem every_message_gets_its_turn:
  assumes "calm_run other D n (s, w) (s', w')" and "keeps_connection D" and "\<forall>mo d. posts d (other mo d)"
    and "distinct (map msg_id (messages (db w)))" and "i < length (outbox (db w))" and "i < n"
  shows "\<exists>m' \<in> set (messages (db w')). msg_id m' = msg_id (outbox (db w) ! i) \<and>
    msg_body m' = msg_body (outbox (db w) ! i) \<and> msg_msisdn m' = msg_msisdn (outbox (db w) ! i) \<and>
    msg_status m' \<in> {Sent, Delivered, Failed}"
  using calm_run_settles [OF assms(1-3) _ assms(5,6)] assms(4) by (auto simp: row_evolves_def ids_distinct_def)

text \<open>A post appends to the queue as long as the clock and the identifiers do not run backwards.\<close>

lemma post_message_keeps_queue:
  assumes "post_message recipient body w = (r, w')"
    and "\<forall>q \<in> set (outbox (db w)). queue_key q \<le>
      (iso (wall (env w) (Suc (tick (env w)))), lit ''msg'' @ lit ''_'' @ ulid (env w) (tick (env w)))"
  shows "keeps_queue (db w) (db w')"
proof (cases "db w' = db w")
  case False
  then obtain m where "messages (db w') = messages (db w) @ [m]" "get_message (db w) (msg_id m) = None"
    "queue_key m = (iso (wall (env w) (Suc (tick (env w)))), lit ''msg'' @ lit ''_'' @ ulid (env w) (tick (env w)))"
    using assms(1)
    by (auto simp: post_message_def new_outbound_def commit_message_def message_id_def new_id_def utc_now_iso_def
        add_message_def insert_row_def get_message_def queue_key_def split: option.splits sum.splits bool.splits if_splits)
  then show ?thesis using keeps_queue_append assms(2) by metis
qed (simp add: keeps_queue_same)

text \<open>Sending leaves the fake driver's inbound file alone.\<close>

lemma fake_outbox_inbound: "fd_inbound (drv (snd (snd (outbox_loop undisturbed FakeDriver n ks b w)))) = fd_inbound (drv w)"
proof -
  have send: "fd_inbound (drv (snd (send_with_retries FakeDriver to body k l w))) = fd_inbound (drv w)" for to body k l w
    by (induction k arbitrary: l w)
      (auto simp: call_def FakeDriver_def fake_send_sms_def Let_def split: option.split sum.splits prod.splits)
  have commit: "drv (snd (commit_update k f w)) = drv w" for k f and w :: "fake_driver world"
    by (simp add: commit_update_def split: sum.split)
  have settle: "drv (snd (settle k (r, w))) = drv w" for k r and w :: "fake_driver world"
  proof (cases r)
    case (Inl x)
    have failed: "\<nexists>y. x = ModemConnectionError y \<Longrightarrow> settle k (Inl x, w) = commit_update k (mark_failed x) w"
      by (cases x) (auto simp: settle_def)
    show ?thesis
    proof (cases "\<exists>y. x = ModemConnectionError y")
      case True
      then show ?thesis by (auto simp: Inl settle_def commit_update_def split: sum.split)
    qed (use failed commit Inl in simp)
  qed (simp add: settle_def utc_now_iso_def commit)
  then have settle: "drv (snd (settle k out)) = drv (snd out)" for k and out :: "(exn + send_result) \<times> fake_driver world"
    by (metis prod.collapse)
  have message: "fd_inbound (drv (snd (process_message undisturbed FakeDriver n k w))) = fd_inbound (drv w)" for k w
    using commit [of k "\<lambda>m. m\<lparr>msg_status := Sending\<rparr>" w]
    by (auto simp: process_message_def settle attempt_send_def send split: sum.split prod.split option.split)
  show ?thesis
  proof (induction ks arbitrary: b w)
    case (Cons k ks)
    show ?case
    proof (cases "get_message (db w) k")
      case (Some m)
      obtain ok b1 where b1: "try_take (send_cost m) (monotime (env w) (tick (env w))) b = (ok, b1)" by (metis prod.exhaust)
      obtain q w2 where w2: "process_message undisturbed FakeDriver n k (advance 1 w) = (q, w2)" by (metis prod.exhaust)
      then have "fd_inbound (drv w2) = fd_inbound (drv w)" using message [of k "advance 1 w"] by (simp add: advance_def)
      then show ?thesis
        using Some b1 w2 Cons.IH [of b1 w2] by (cases ok; cases q) (simp_all add: read_monotonic_def advance_def)
    qed simp
  qed simp
qed

definition patient_world :: "fake_driver world" where
  "patient_world = sample_world sample_db (new_fake_driver None)"

definition connected_worker :: worker where
  "connected_worker = \<lparr>wk_bucket = new_bucket 10 0, wk_backoff = None, wk_connected = True\<rparr>"

theorem every_message_gets_its_turn_witness:
  "\<exists>out s' w'. loop_iteration undisturbed FakeDriver connected_worker patient_world = (out, s', w') \<and>
     (\<exists>m' \<in> set (messages (db w')). msg_id m' = lit ''a'' \<and> msg_status m' \<in> {Sent, Delivered, Failed})"
proof -
  have db: "db patient_world = sample_db" by (simp add: patient_world_def sample_world_def)
  have kept: "keeps_connection FakeDriver"
    by (auto simp: keeps_connection_def FakeDriver_def fake_send_sms_def count_segments_def utf16_units_def Let_def
        split: sum.splits if_splits)
  have first: "outbox sample_db ! 0 = Outbox.sample_message (lit ''a'') Outbound Queued" "0 < length (outbox sample_db)"
    by (simp_all add: outbox_def sample_db_def Outbox.sample_message_def queued_def empty_db_def queue_key_def lit_def)
  have dist: "distinct (map msg_id (messages (db patient_world)))"
    by (simp add: db sample_db_def Outbox.sample_message_def empty_db_def lit_def)
  have ready: "ready (wk_bucket connected_worker) patient_world"
    by (simp add: ready_def new_bucket_def connected_worker_def patient_world_def sample_world_def sample_env_def)
  obtain r b w1 where 1: "process_outbox undisturbed FakeDriver MAX_SEND_ATTEMPTS (new_bucket 10 0) patient_world = (r, b, w1)"
    by (metis prod.exhaust)
  have r: "r = Inr ()"
    using process_outbox_progress [OF _ kept _ 1] posts_undisturbed dist by (simp add: ids_distinct_def)
  obtain out s' w' where run: "loop_iteration undisturbed FakeDriver connected_worker patient_world = (out, s', w')"
    by (metis prod.exhaust)
  have "truthy (get_config sample_db RESTART_WORKER) = False"
    by (simp add: get_config_def sample_db_def empty_db_def truthy_def)
  moreover have "fd_inbound (drv w1) = None"
    using fake_outbox_inbound [of MAX_SEND_ATTEMPTS "map msg_id (outbox (db patient_world))" "new_bucket 10 0" patient_world] 1
    by (simp add: process_outbox_def patient_world_def sample_world_def new_fake_driver_def)
  then have "process_inbound undisturbed FakeDriver w1 = (Inr (), w1)" "\<exists>st. call (dv_status FakeDriver) w1 = (Inr st, w1)"
    by (simp_all add: process_inbound_def call_def FakeDriver_def fake_fetch_inbound_def fake_status_def advance_def)
  ultimately have "out \<noteq> Exited \<and> wk_connected s'"
    using run 1 r
    by (auto simp: loop_iteration_def restart_requested_def worker_round_def ensure_connected_def connected_worker_def db
        Let_def split: sum.splits)
  then have "calm_run undisturbed FakeDriver (Suc 0) (connected_worker, patient_world) (s', w')"
    using calm_run.iterate [OF _ ready run _ _ _ calm_run.rest, of w'] keeps_queue_same
    by (simp add: connected_worker_def)
  from every_message_gets_its_turn [OF this kept _ dist, of 0] show ?thesis
    using first run posts_undisturbed by (auto simp: db Outbox.sample_message_def)
qed

end
