(* ===== verification/Admin.thy ===== *)
theory Admin
  imports RestApi
begin

text \<open>
  The admin panel, \<^verbatim>\<open>gateway/api/routes_admin.py\<close>: every handler that changes the database, and the
  queries behind the pages. A handler returns what its response is made of; the HTML templates and the
  redirect targets are output only. Handlers run after \<open>require_admin\<close>, see \<open>admin_route\<close>.
\<close>

definition admin_route ::
  "sessions \<Rightarrow> str option \<Rightarrow> (app world \<Rightarrow> (exn + 'a) \<times> app world) \<Rightarrow> app world \<Rightarrow> (exn + 'a) \<times> app world" where
  "admin_route ss cookie handler w =
     (case require_admin ss (app_settings (drv w)) cookie w of
        (Inl x, w1) \<Rightarrow> (Inl x, w1)
      | (Inr _, w1) \<Rightarrow> handler w1)"

definition http_error :: "nat \<Rightarrow> str \<Rightarrow> 'd world \<Rightarrow> (exn + 'a) \<times> 'd world" where
  "http_error status detail w = (Inl (HTTPException status detail), w)"

section \<open>API tokens\<close>

definition new_webhook_secret :: "'d world \<Rightarrow> str \<times> 'd world" where
  "new_webhook_secret w = (case token_hex 16 w of (h, w1) \<Rightarrow> (lit ''whsec_'' @ h, w1))"

definition new_api_token :: "'d world \<Rightarrow> str \<times> 'd world" where
  "new_api_token w = (case token_hex 16 w of (h, w1) \<Rightarrow> (lit ''sms_'' @ h, w1))"

definition tokens_page :: "database \<Rightarrow> api_token list" where
  "tokens_page d = sort_key tok_created_at (api_tokens d)"

text \<open>The primary key and the unique column of the table.\<close>

definition add_token :: "api_token \<Rightarrow> database \<Rightarrow> exn + database" where
  "add_token t d =
     (if tok_hash t \<in> tok_hash ` set (api_tokens d) then Inl IntegrityError
      else map_sum id (\<lambda>rows. d\<lparr>api_tokens := rows\<rparr>) (insert_row tok_id t (api_tokens d)))"

definition create_token_action :: "(bytes \<Rightarrow> str) \<Rightarrow> str \<Rightarrow> 'd world \<Rightarrow> (exn + str) \<times> 'd world" where
  "create_token_action sha256 label w =
     (case new_api_token w of (plaintext, w1) \<Rightarrow>
        case token_id w1 of (k, w2) \<Rightarrow>
          (case hash_token sha256 plaintext of
             Inl x \<Rightarrow> (Inl x, w2)
           | Inr h \<Rightarrow>
               (case utc_now_iso w2 of (now, w3) \<Rightarrow>
                  (case add_token \<lparr>tok_id = k, tok_hash = h, tok_prefix = take 8 plaintext,
                       tok_label = (if label \<noteq> [] then Some label else None), tok_last_used_at = None,
                       tok_revoked_at = None, tok_created_at = now\<rparr> (db w3) of
                     Inl x \<Rightarrow> (Inl x, w3)
                   | Inr d \<Rightarrow> (Inr plaintext, w3\<lparr>db := d\<rparr>)))))"

definition with_tokens :: "(api_token list \<Rightarrow> api_token list) \<Rightarrow> 'd world \<Rightarrow> 'd world" where
  "with_tokens f w = w\<lparr>db := (db w)\<lparr>api_tokens := f (api_tokens (db w))\<rparr>\<rparr>"

definition revoke_token :: "str \<Rightarrow> 'd world \<Rightarrow> (exn + unit) \<times> 'd world" where
  "revoke_token k w =
     (case find_row tok_id k (api_tokens (db w)) of
        None \<Rightarrow> http_error 404 (lit ''token not found'') w
      | Some t \<Rightarrow>
          if tok_revoked_at t = None
          then (case utc_now_iso w of (now, w1) \<Rightarrow>
                  (Inr (), with_tokens (map (\<lambda>t. if tok_id t = k then t\<lparr>tok_revoked_at := Some now\<rparr> else t)) w1))
          else (Inr (), w))"

definition delete_token :: "str \<Rightarrow> 'd world \<Rightarrow> (exn + unit) \<times> 'd world" where
  "delete_token k w =
     (case find_row tok_id k (api_tokens (db w)) of
        None \<Rightarrow> http_error 404 (lit ''token not found'') w
      | Some t \<Rightarrow>
          if tok_revoked_at t = None then http_error 422 (lit ''revoke the token before deleting it'') w
          else (Inr (), with_tokens (filter (\<lambda>t. tok_id t \<noteq> k)) w))"

section \<open>Settings\<close>

definition older_than :: "str \<Rightarrow> message \<Rightarrow> bool" where
  "older_than cutoff m \<longleftrightarrow> msg_created_at m < cutoff"

definition delete_older :: "str \<Rightarrow> database \<Rightarrow> database" where
  "delete_older cutoff d =
     (let old = filter (older_than cutoff) (messages d)
      in d\<lparr>deliveries := filter (\<lambda>r. whd_message_id r \<notin> set (map msg_id old)) (deliveries d),
           messages := filter (\<lambda>m. \<not> older_than cutoff m) (messages d)\<rparr>)"

definition purge_messages :: "int \<Rightarrow> 'd world \<Rightarrow> (exn + unit) \<times> 'd world" where
  "purge_messages n w =
     (if n \<notin> {30, 90, 365} then http_error 422 (lit ''days must be 30, 90 or 365'') w
      else (case now_utc w of (now, w1) \<Rightarrow>
        let cutoff = iso (now - days n);
            purged = length (filter (older_than cutoff) (messages (db w1)))
        in (Inr (), record_event (lit ''admin'') (lit ''info'')
              (lit ''purged '' @ nat_str purged @ lit '' messages older than '' @ int_str n @ lit '' days'')
              (w1\<lparr>db := delete_older cutoff (db w1)\<rparr>))))"

text \<open>\<open>re.sub(r"[\s\-/()]", "", s)\<close> and the \<open>00\<close> prefix.\<close>

definition clean_number :: "str \<Rightarrow> str" where
  "clean_number s =
     (let n = filter (\<lambda>c. \<not> (py_space c \<or> c \<in> {45, 47, 40, 41})) (strip s)
      in if starts_with (lit ''00'') n then 43 # drop 2 n else n)"

definition set_own_number :: "str \<Rightarrow> 'd world \<Rightarrow> (exn + unit) \<times> 'd world" where
  "set_own_number input w =
     (let own = clean_number input
      in if own \<noteq> [] \<and> \<not> e164 own
         then http_error 422 (lit ''number must be international, e.g. +41791234567'') w
         else (Inr (), set_config OWN_NUMBER (if own \<noteq> [] then Some own else None) w))"

definition set_webhook :: "str \<Rightarrow> 'd world \<Rightarrow> (exn + unit) \<times> 'd world" where
  "set_webhook input w =
     (let url = strip input
      in if url \<noteq> [] \<and> \<not> (starts_with (lit ''http://'') url \<or> starts_with (lit ''https://'') url)
         then http_error 422 (lit ''webhook url must start with http:// or https://'') w
         else if url \<noteq> []
         then (let w1 = set_config WEBHOOK_URL (Some url) w
               in if truthy (get_config (db w1) WEBHOOK_SECRET) then (Inr (), w1)
                  else (case new_webhook_secret w1 of (secret, w2) \<Rightarrow>
                          (Inr (), set_config WEBHOOK_SECRET (Some secret) w2)))
         else (Inr (), set_config WEBHOOK_SECRET None (set_config WEBHOOK_URL None w)))"

definition rotate_webhook_secret :: "'d world \<Rightarrow> (exn + unit) \<times> 'd world" where
  "rotate_webhook_secret w =
     (if \<not> truthy (get_config (db w) WEBHOOK_URL) then http_error 422 (lit ''configure a webhook URL first'') w
      else (case new_webhook_secret w of (secret, w1) \<Rightarrow>
              (Inr (), set_config WEBHOOK_SECRET (Some secret) w1)))"

section \<open>Conversations and messages\<close>

text \<open>\<open>_enqueue_outbound\<close> followed by the commit.\<close>

definition enqueue_outbound :: "str \<Rightarrow> str \<Rightarrow> 'd world \<Rightarrow> (exn + message) \<times> 'd world" where
  "enqueue_outbound recipient body w =
     (case new_outbound recipient body w of
        (Inl x, w1) \<Rightarrow> (Inl x, w1)
      | (Inr m, w1) \<Rightarrow>
          (case commit_message m w1 of (Inl x, w2) \<Rightarrow> (Inl x, w2) | (Inr _, w2) \<Rightarrow> (Inr m, w2)))"

record chat =
  chat_msisdn :: str
  chat_last :: message
  chat_count :: nat

fun count_chat :: "message \<Rightarrow> chat list \<Rightarrow> chat list" where
  "count_chat m [] = [\<lparr>chat_msisdn = msg_msisdn m, chat_last = m, chat_count = 1\<rparr>]"
| "count_chat m (c # cs) =
     (if chat_msisdn c = msg_msisdn m then c\<lparr>chat_count := chat_count c + 1\<rparr> # cs else c # count_chat m cs)"

text \<open>
  \<open>ORDER BY created_at DESC\<close> without a tie breaker: SQLite reads the index on \<open>created_at\<close>
  backwards, so that of rows of the same second the later row comes first.
\<close>

definition newest_first :: "database \<Rightarrow> message list" where
  "newest_first d = rev (sort_key msg_created_at (messages d))"

definition chats_page :: "database \<Rightarrow> chat list" where
  "chats_page d = fold count_chat (take 1000 (newest_first d)) []"

definition chat_context :: "str \<Rightarrow> database \<Rightarrow> message list \<times> str option" where
  "chat_context msisdn d =
     (rev (take 300 (rev (sort_key list_key (filter (\<lambda>m. msg_msisdn m = msisdn) (messages d))))),
      get_config d OWN_NUMBER)"

definition body_check :: "str \<Rightarrow> exn + unit" where
  "body_check body =
     (case body_too_long body of
        Inl x \<Rightarrow> Inl x
      | Inr long \<Rightarrow>
          if long then Inl (HTTPException 422 (lit ''message exceeds '' @ nat_str MAX_SEGMENTS @ lit '' SMS segments''))
          else Inr ())"

text \<open>The thread is returned to an htmx form (\<open>hx\<close>), other clients are redirected to it.\<close>

definition chat_send ::
  "bool \<Rightarrow> str \<Rightarrow> str \<Rightarrow> 'd world \<Rightarrow> (exn + (message list \<times> str option) option) \<times> 'd world" where
  "chat_send hx msisdn body w =
     (if \<not> e164 msisdn then http_error 422 (lit ''invalid number'') w
      else if strip body = [] then http_error 422 (lit ''message must not be empty'') w
      else (case body_check (strip body) of
              Inl x \<Rightarrow> (Inl x, w)
            | Inr _ \<Rightarrow>
                (case enqueue_outbound msisdn (strip body) w of
                   (Inl x, w1) \<Rightarrow> (Inl x, w1)
                 | (Inr _, w1) \<Rightarrow> (Inr (if hx then Some (chat_context msisdn (db w1)) else None), w1))))"

definition messages_page :: "str option \<Rightarrow> str option \<Rightarrow> str option \<Rightarrow> database \<Rightarrow> message list" where
  "messages_page dir status msisdn d =
     take 100 (rev (sort_key list_key (filter
       (\<lambda>m. given dir (\<lambda>s. direction_str (msg_direction m) = s) \<and>
            given status (\<lambda>s. status_str (msg_status m) = s) \<and>
            given msisdn (\<lambda>s. msg_msisdn m = s)) (messages d))))"

definition message_detail :: "str \<Rightarrow> database \<Rightarrow> exn + message \<times> delivery list" where
  "message_detail k d =
     (case get_message d k of
        None \<Rightarrow> Inl (HTTPException 404 (lit ''message not found''))
      | Some m \<Rightarrow> Inr (m, sort_key whd_created_at (filter (\<lambda>r. whd_message_id r = k) (deliveries d))))"

definition webhooks_page :: "database \<Rightarrow> delivery list" where
  "webhooks_page d = take 100 (rev (sort_key (\<lambda>r. (whd_created_at r, whd_id r)) (deliveries d)))"

definition retry_delivery :: "str \<Rightarrow> 'd world \<Rightarrow> (exn + unit) \<times> 'd world" where
  "retry_delivery k w =
     (case get_delivery (db w) k of
        None \<Rightarrow> http_error 404 (lit ''delivery not found'') w
      | Some r \<Rightarrow>
          if whd_status r \<noteq> WFailed then http_error 409 (lit ''only failed deliveries can be retried'') w
          else (case utc_now_iso w of (now, w1) \<Rightarrow>
                  (case update_delivery k (\<lambda>r. r\<lparr>whd_status := WPending, whd_next_retry_at := Some now\<rparr>) (db w1) of
                     Inl x \<Rightarrow> (Inl x, w1)
                   | Inr d \<Rightarrow> (Inr (), w1\<lparr>db := d\<rparr>))))"

definition send_test_sms :: "str \<Rightarrow> str \<Rightarrow> 'd world \<Rightarrow> (exn + unit) \<times> 'd world" where
  "send_test_sms recipient body w =
     (if \<not> e164 recipient then http_error 422 (lit ''recipient must be E.164 (+41'' @ [8230, 41]) w
      else let content = (if strip body \<noteq> [] then strip body else lit ''Test from Open SMS Gateway'')
           in case body_check content of
                Inl x \<Rightarrow> (Inl x, w)
              | Inr _ \<Rightarrow>
                  (case enqueue_outbound recipient content w of
                     (Inl x, w1) \<Rightarrow> (Inl x, w1)
                   | (Inr _, w1) \<Rightarrow>
                       (Inr (), record_event (lit ''admin'') (lit ''info'')
                          (lit ''test SMS queued to '' @ 8230 # last_n 4 recipient) w1)))"

section \<open>Admin users\<close>

definition users_page :: "database \<Rightarrow> admin_user list" where
  "users_page d = sort_key usr_created_at (admin_users d)"

definition user_event :: "str \<Rightarrow> str \<Rightarrow> str \<Rightarrow> str" where
  "user_event front username back = front @ [39] @ username @ [39] @ back"

definition add_user :: "admin_user \<Rightarrow> database \<Rightarrow> exn + database" where
  "add_user u d =
     (if usr_username u \<in> usr_username ` set (admin_users d) then Inl IntegrityError
      else map_sum id (\<lambda>rows. d\<lparr>admin_users := rows\<rparr>) (insert_row usr_id u (admin_users d)))"

text \<open>\<open>printable\<close> is \<open>str.isprintable\<close> of one character, a table of the Unicode database.\<close>

definition user_input_error :: "(nat \<Rightarrow> bool) \<Rightarrow> str \<Rightarrow> str \<Rightarrow> str \<Rightarrow> str option" where
  "user_input_error printable admin username password =
     (if username = [] \<or> length password < 8 then Some (lit ''username required, password min. 8 characters'')
      else if 64 < length username \<or> \<not> list_all printable username
      then Some (lit ''username too long or contains control characters'')
      else if username = admin then Some (lit ''username collides with the .env admin'')
      else None)"

definition create_user ::
  "(bytes \<Rightarrow> bytes \<Rightarrow> nat \<Rightarrow> bytes) \<Rightarrow> (nat \<Rightarrow> bool) \<Rightarrow> str \<Rightarrow> str \<Rightarrow> app world \<Rightarrow> (exn + unit) \<times> app world" where
  "create_user pbkdf2 printable input password w =
     (let username = strip input
      in case user_input_error printable (st_admin_user (app_settings (drv w))) username password of
           Some detail \<Rightarrow> http_error 422 detail w
         | None \<Rightarrow>
             (case one_or_none (users_named (Some username) (db w)) of
                Inl x \<Rightarrow> (Inl x, w)
              | Inr (Some _) \<Rightarrow> http_error 422 (lit ''username already exists'') w
              | Inr None \<Rightarrow>
                  (case token_hex 8 w of (h, w1) \<Rightarrow>
                     (case hash_password pbkdf2 password w1 of
                        (Inl x, w2) \<Rightarrow> (Inl x, w2)
                      | (Inr stored, w2) \<Rightarrow>
                          (case utc_now_iso w2 of (now, w3) \<Rightarrow>
                             (case add_user \<lparr>usr_id = lit ''usr_'' @ h, usr_username = username,
                                  usr_password_hash = stored, usr_created_at = now\<rparr> (db w3) of
                                Inl x \<Rightarrow> (Inl x, w3)
                              | Inr d \<Rightarrow>
                                  (Inr (), record_event (lit ''admin'') (lit ''info'')
                                     (user_event (lit ''admin user '') username (lit '' created''))
                                     (w3\<lparr>db := d\<rparr>))))))))"

definition change_user_password ::
  "(bytes \<Rightarrow> bytes \<Rightarrow> nat \<Rightarrow> bytes) \<Rightarrow> str \<Rightarrow> str \<Rightarrow> 'd world \<Rightarrow> (exn + unit) \<times> 'd world" where
  "change_user_password pbkdf2 k password w =
     (if length password < 8 then http_error 422 (lit ''password min. 8 characters'') w
      else (case find_row usr_id k (admin_users (db w)) of
              None \<Rightarrow> http_error 404 (lit ''user not found'') w
            | Some u \<Rightarrow>
                (case hash_password pbkdf2 password w of
                   (Inl x, w1) \<Rightarrow> (Inl x, w1)
                 | (Inr stored, w1) \<Rightarrow>
                     (Inr (), record_event (lit ''admin'') (lit ''info'')
                        (user_event (lit ''password changed for admin user '') (usr_username u) [])
                        (w1\<lparr>db := (db w1)\<lparr>admin_users :=
                           map (\<lambda>v. if usr_id v = k then v\<lparr>usr_password_hash := stored\<rparr> else v)
                             (admin_users (db w1))\<rparr>\<rparr>)))))"

definition delete_user :: "str \<Rightarrow> 'd world \<Rightarrow> (exn + unit) \<times> 'd world" where
  "delete_user k w =
     (case find_row usr_id k (admin_users (db w)) of
        None \<Rightarrow> http_error 404 (lit ''user not found'') w
      | Some u \<Rightarrow>
          (let w1 = record_event (lit ''admin'') (lit ''info'')
                 (user_event (lit ''admin user '') (usr_username u) (lit '' deleted'')) w
           in (Inr (), w1\<lparr>db := (db w1)\<lparr>admin_users := filter (\<lambda>v. usr_id v \<noteq> k) (admin_users (db w1))\<rparr>\<rparr>)))"

section \<open>Event log and restarts\<close>

definition events_context :: "str option \<Rightarrow> str option \<Rightarrow> database \<Rightarrow> event list" where
  "events_context level source d =
     take 200 (rev (sort_key ev_id (filter
       (\<lambda>e. given level (\<lambda>s. ev_level e = s) \<and> given source (\<lambda>s. ev_source e = s)) (events d))))"

definition restart_worker :: "'d world \<Rightarrow> (exn + unit) \<times> 'd world" where
  "restart_worker w =
     (case utc_now_iso w of (now, w1) \<Rightarrow>
        (Inr (), record_event (lit ''admin'') (lit ''warning'') (lit ''worker restart requested'')
           (set_config RESTART_WORKER (Some now) w1)))"

definition restart_api :: "'d world \<Rightarrow> (exn + unit) \<times> 'd world" where
  "restart_api w = (Inr (), record_event (lit ''admin'') (lit ''warning'') (lit ''api restart requested'') w)"

section \<open>The invariant of the database\<close>

text \<open>
  The keys of the tables, the reference from a delivery to its message, that the webhook has a secret exactly
  when it has a URL, and that no database user has the name of the permanent admin.
\<close>

definition keys_ok :: "database \<Rightarrow> bool" where
  "keys_ok d \<longleftrightarrow> distinct (map msg_id (messages d)) \<and> distinct (map tok_id (api_tokens d)) \<and>
     distinct (map tok_hash (api_tokens d)) \<and> distinct (map usr_id (admin_users d)) \<and>
     distinct (map usr_username (admin_users d))"

definition refs_ok :: "database \<Rightarrow> bool" where
  "refs_ok d \<longleftrightarrow> whd_message_id ` set (deliveries d) \<subseteq> msg_id ` set (messages d)"

definition hook_ok :: "database \<Rightarrow> bool" where
  "hook_ok d \<longleftrightarrow> (truthy (get_config d WEBHOOK_URL) \<longleftrightarrow> truthy (get_config d WEBHOOK_SECRET))"

definition admin_inv :: "app world \<Rightarrow> bool" where
  "admin_inv w \<longleftrightarrow> keys_ok (db w) \<and> refs_ok (db w) \<and> hook_ok (db w) \<and>
     st_admin_user (app_settings (drv w)) \<notin> usr_username ` set (admin_users (db w))"

lemma truthy_config: "truthy (get_config (db (set_config k v w)) j) = truthy (if j = k then v else get_config (db w) j)"
  by (simp add: cfg.get_put)

lemma record_event_config [simp]: "get_config (db (record_event s l t w)) k = get_config (db w) k"
  by (simp add: get_config_def)

text \<open>Clock and random readings, events and other configuration keys leave the invariant alone.\<close>

lemma inv_record_event [simp]: "admin_inv (record_event s l t w) = admin_inv w"
  by (simp add: admin_inv_def hook_ok_def keys_ok_def refs_ok_def)

lemma inv_advance [simp]: "admin_inv (advance n w) = admin_inv w"
  by (simp add: admin_inv_def)

lemma inv_set_config:
  "k \<noteq> WEBHOOK_URL \<Longrightarrow> k \<noteq> WEBHOOK_SECRET \<Longrightarrow> admin_inv (set_config k v w) = admin_inv w"
  by (simp add: admin_inv_def hook_ok_def truthy_config keys_ok_def refs_ok_def)

lemma inv_db_cong: "db w' = db w \<Longrightarrow> drv w' = drv w \<Longrightarrow> admin_inv w' = admin_inv w"
  by (simp add: admin_inv_def)

lemma hash_password_frame [simp]:
  "db (snd (hash_password f p w)) = db w" "drv (snd (hash_password f p w)) = drv w"
  by (simp_all add: hash_password_def token_hex_def random_bytes_def split: sum.splits option.splits)

lemma new_webhook_secret_frame:
  assumes "new_webhook_secret w = (secret, w')"
  shows "db w' = db w" "drv w' = drv w" "secret \<noteq> []"
  using assms by (auto simp: new_webhook_secret_def token_hex_def random_bytes_def)

lemma inv_add_message:
  assumes "admin_inv w" and "add_message m (db w) = Inr d"
  shows "admin_inv (w\<lparr>db := d\<rparr>)"
  using assms by (auto simp: admin_inv_def keys_ok_def refs_ok_def hook_ok_def get_config_def
      add_message_Inr get_message_None_iff)

lemma inv_commit_message: "admin_inv w \<Longrightarrow> admin_inv (snd (commit_message m w))"
  by (cases "add_message m (db w)") (simp_all add: commit_message_def inv_add_message)

lemma inv_new_outbound [simp]: "admin_inv (snd (new_outbound a b w)) = admin_inv w"
  by (cases "count_segments b")
    (simp_all add: new_outbound_def message_id_def new_id_def utc_now_iso_def)

lemma inv_enqueue: "admin_inv w \<Longrightarrow> admin_inv (snd (enqueue_outbound a b w))"
proof -
  assume inv: "admin_inv w"
  obtain r w1 where new: "new_outbound a b w = (r, w1)" by (metis prod.exhaust)
  then have "admin_inv w1" using inv inv_new_outbound [of a b w] by simp
  then have "admin_inv w2" if "commit_message m w1 = (q, w2)" for m q w2
    using inv_commit_message [of w1 m] by (simp add: that)
  then show ?thesis
    using \<open>admin_inv w1\<close> by (cases r) (auto simp: enqueue_outbound_def new split: prod.splits sum.splits)
qed

lemma inv_chat_send: "admin_inv w \<Longrightarrow> admin_inv (snd (chat_send hx a b w))"
  using inv_enqueue [of w a "strip b"]
  by (cases "enqueue_outbound a (strip b) w") (auto simp: chat_send_def http_error_def split: sum.splits)

lemma inv_test_sms: "admin_inv w \<Longrightarrow> admin_inv (snd (send_test_sms a b w))"
proof -
  assume inv: "admin_inv w"
  define content where "content = (if strip b \<noteq> [] then strip b else lit ''Test from Open SMS Gateway'')"
  show ?thesis
    using inv inv_enqueue [OF inv, of a content] unfolding send_test_sms_def content_def [symmetric] Let_def
    by (cases "enqueue_outbound a content w") (auto simp: http_error_def split: sum.splits)
qed

lemma inv_set_webhook: "admin_inv w \<Longrightarrow> admin_inv (snd (set_webhook s w))"
proof -
  assume inv: "admin_inv w"
  obtain secret w2 where new: "new_webhook_secret (set_config WEBHOOK_URL (Some (strip s)) w) = (secret, w2)"
    by (metis prod.exhaust)
  note frame = new_webhook_secret_frame [OF new]
  show ?thesis
    using inv frame
    by (auto simp: set_webhook_def http_error_def Let_def new admin_inv_def hook_ok_def truthy_config
        keys_ok_def refs_ok_def)
qed

lemma inv_rotate: "admin_inv w \<Longrightarrow> admin_inv (snd (rotate_webhook_secret w))"
proof -
  assume inv: "admin_inv w"
  obtain secret w1 where new: "new_webhook_secret w = (secret, w1)" by (metis prod.exhaust)
  note frame = new_webhook_secret_frame [OF new]
  show ?thesis
    using inv frame
    by (auto simp: rotate_webhook_secret_def http_error_def new admin_inv_def hook_ok_def truthy_config
        keys_ok_def refs_ok_def)
qed

lemma inv_own_number: "admin_inv w \<Longrightarrow> admin_inv (snd (set_own_number s w))"
  by (simp add: set_own_number_def http_error_def Let_def inv_set_config)

lemma inv_restarts: "admin_inv w \<Longrightarrow> admin_inv (snd (restart_worker w))" "admin_inv w \<Longrightarrow> admin_inv (snd (restart_api w))"
  by (simp_all add: restart_worker_def restart_api_def utc_now_iso_def inv_set_config)

lemma delete_older_inv:
  assumes "keys_ok d" and "refs_ok d"
  shows "keys_ok (delete_older cutoff d)" and "refs_ok (delete_older cutoff d)"
  using assms by (auto simp: keys_ok_def refs_ok_def delete_older_def distinct_map_filter)

lemma inv_purge: "admin_inv w \<Longrightarrow> admin_inv (snd (purge_messages n w))"
proof -
  assume inv: "admin_inv w"
  have "admin_inv (w'\<lparr>db := delete_older cutoff (db w')\<rparr>)" if "db w' = db w" "drv w' = drv w" for w' cutoff
    using inv delete_older_inv [of "db w" cutoff]
    by (auto simp: that admin_inv_def hook_ok_def get_config_def delete_older_def)
  then show ?thesis
    using inv by (simp add: purge_messages_def http_error_def now_utc_def Let_def)
qed

lemma inv_post_message: "admin_inv w \<Longrightarrow> admin_inv (snd (post_message a b w))"
proof -
  assume inv: "admin_inv w"
  obtain r w1 where new: "new_outbound a b w = (r, w1)" by (metis prod.exhaust)
  then have w1: "admin_inv w1" using inv inv_new_outbound [of a b w] by simp
  then have "admin_inv w2" if "commit_message m w1 = (q, w2)" for m q w2
    using inv_commit_message [of w1 m] by (simp add: that)
  then show ?thesis
    using inv w1 by (auto simp: post_message_def new split: option.splits sum.splits bool.splits prod.splits)
qed

lemma inv_with_tokens:
  assumes "admin_inv w" and "distinct (map tok_id (f (api_tokens (db w))))"
    and "distinct (map tok_hash (f (api_tokens (db w))))"
  shows "admin_inv (with_tokens f w)"
  using assms by (auto simp: with_tokens_def admin_inv_def keys_ok_def refs_ok_def hook_ok_def get_config_def)

lemma inv_revoke: "admin_inv w \<Longrightarrow> admin_inv (snd (revoke_token k w))"
proof -
  assume inv: "admin_inv w"
  have same: "map tok_id (map (\<lambda>t. if tok_id t = k then t\<lparr>tok_revoked_at := v\<rparr> else t) ts) = map tok_id ts"
    "map tok_hash (map (\<lambda>t. if tok_id t = k then t\<lparr>tok_revoked_at := v\<rparr> else t) ts) = map tok_hash ts" for v ts
    by simp_all
  have "admin_inv (advance 1 w)" "keys_ok (db w)" using inv by (simp_all add: admin_inv_def)
  then have "admin_inv (with_tokens (map (\<lambda>t. if tok_id t = k then t\<lparr>tok_revoked_at := v\<rparr> else t)) (advance 1 w))" for v
    by (intro inv_with_tokens) (simp_all only: same keys_ok_def advance_simps)
  then show ?thesis using inv by (auto simp: revoke_token_def http_error_def utc_now_iso_def split: option.splits)
qed

lemma inv_delete_token: "admin_inv w \<Longrightarrow> admin_inv (snd (delete_token k w))"
proof -
  assume inv: "admin_inv w"
  then have "admin_inv (with_tokens (filter (\<lambda>t. tok_id t \<noteq> k)) w)"
    by (intro inv_with_tokens) (simp_all add: admin_inv_def keys_ok_def distinct_map_filter)
  then show ?thesis using inv by (simp add: delete_token_def http_error_def split: option.splits)
qed

lemma add_token_Inr:
  "add_token t d = Inr d' \<longleftrightarrow> tok_hash t \<notin> tok_hash ` set (api_tokens d) \<and>
     tok_id t \<notin> tok_id ` set (api_tokens d) \<and> d' = d\<lparr>api_tokens := api_tokens d @ [t]\<rparr>"
  by (auto simp: add_token_def insert_row_def find_row_None_iff)

lemma inv_add_token:
  assumes "admin_inv w" and "add_token t (db w) = Inr d"
  shows "admin_inv (w\<lparr>db := d\<rparr>)"
  using assms by (auto simp: admin_inv_def keys_ok_def add_token_Inr hook_ok_def get_config_def refs_ok_def)

lemma new_api_token_frame:
  assumes "new_api_token w = (plaintext, w')"
  shows "db w' = db w" "drv w' = drv w"
  using assms by (auto simp: new_api_token_def token_hex_def random_bytes_def)

lemma inv_create_token: "admin_inv w \<Longrightarrow> admin_inv (snd (create_token_action f label w))"
proof -
  assume inv: "admin_inv w"
  obtain plaintext w1 where new: "new_api_token w = (plaintext, w1)" by (metis prod.exhaust)
  have w1: "admin_inv w1" using inv inv_db_cong [OF new_api_token_frame [OF new]] by simp
  have add: "admin_inv (advance (Suc 0) (advance (Suc 0) w1)\<lparr>db := d\<rparr>)" if "add_token t (db w1) = Inr d" for t d
    by (rule inv_add_token [of _ t]) (simp_all add: w1 that)
  show ?thesis
    using w1 add
    by (auto simp: create_token_action_def new token_id_def new_id_def utc_now_iso_def Let_def
        split: sum.splits)
qed

lemma inv_set_users:
  assumes "admin_inv w" and "distinct (map usr_id us)" and "distinct (map usr_username us)"
    and "st_admin_user (app_settings (drv w)) \<notin> set (map usr_username us)"
  shows "admin_inv (w\<lparr>db := (db w)\<lparr>admin_users := us\<rparr>\<rparr>)"
  using assms by (auto simp: admin_inv_def keys_ok_def refs_ok_def hook_ok_def get_config_def)

lemma inv_delete_user: "admin_inv w \<Longrightarrow> admin_inv (snd (delete_user k w))"
proof -
  assume inv: "admin_inv w"
  then have "admin_inv (w1\<lparr>db := (db w1)\<lparr>admin_users := filter (\<lambda>v. usr_id v \<noteq> k) (admin_users (db w1))\<rparr>\<rparr>)"
    if "w1 = record_event s l c w" for s l c w1
    using that inv by (intro inv_set_users) (simp, auto simp: admin_inv_def keys_ok_def distinct_map_filter)
  then show ?thesis using inv by (simp add: delete_user_def http_error_def Let_def split: option.splits)
qed

lemma inv_change_password: "admin_inv w \<Longrightarrow> admin_inv (snd (change_user_password f k p w))"
proof -
  assume inv: "admin_inv w"
  obtain r w1 where h: "hash_password f p w = (r, w1)" by (metis prod.exhaust)
  then have frame: "db w1 = db w" "drv w1 = drv w" using hash_password_frame [of f p w] by simp_all
  then have w1: "admin_inv w1" using inv by (simp add: inv_db_cong [of w1 w])
  let ?set = "\<lambda>stored us. map (\<lambda>v. if usr_id v = k then v\<lparr>usr_password_hash := stored\<rparr> else v) us"
  have same: "map usr_id (?set stored us) = map usr_id us" "map usr_username (?set stored us) = map usr_username us" for stored us
    by simp_all
  have "admin_inv (w1\<lparr>db := (db w1)\<lparr>admin_users := ?set stored (admin_users (db w1))\<rparr>\<rparr>)" for stored
    by (intro inv_set_users w1) (use w1 in \<open>simp_all only: same admin_inv_def keys_ok_def set_map not_False_eq_True\<close>)
  then show ?thesis
    using inv w1 by (auto simp: change_user_password_def http_error_def h split: option.splits sum.splits)
qed

lemma add_user_Inr:
  "add_user u d = Inr d' \<longleftrightarrow> usr_username u \<notin> usr_username ` set (admin_users d) \<and>
     usr_id u \<notin> usr_id ` set (admin_users d) \<and> d' = d\<lparr>admin_users := admin_users d @ [u]\<rparr>"
  by (auto simp: add_user_def insert_row_def find_row_None_iff)

lemma inv_create_user: "admin_inv w \<Longrightarrow> admin_inv (snd (create_user f printable name p w))"
proof -
  assume inv: "admin_inv w"
  obtain h w1 where h: "token_hex 8 w = (h, w1)" by (metis prod.exhaust)
  obtain r w2 where r: "hash_password f p w1 = (r, w2)" by (metis prod.exhaust)
  have frame: "db w2 = db w" "drv w2 = drv w" 
    using readings_preserve [of 8 w] hash_password_frame [of f p w1] by (simp_all add: h r)
  then have w2: "admin_inv w2" using inv by (simp add: inv_db_cong [of w2 w])
  have "admin_inv (advance 1 w2\<lparr>db := d\<rparr>)"
    if "add_user u (db w2) = Inr d" "usr_username u \<noteq> st_admin_user (app_settings (drv w))" for u d
    using w2 that frame
    by (auto simp: add_user_Inr admin_inv_def keys_ok_def refs_ok_def hook_ok_def get_config_def)
  then show ?thesis
    using inv w2 frame
    by (auto simp: create_user_def http_error_def Let_def h r utc_now_iso_def user_input_error_def
        split: option.splits sum.splits if_splits)
qed

lemma inv_retry: "admin_inv w \<Longrightarrow> admin_inv (snd (retry_delivery k w))"
proof -
  assume inv: "admin_inv w"
  have same: "map whd_message_id (map (\<lambda>r. if whd_id r = k then r\<lparr>whd_status := WPending, whd_next_retry_at := v\<rparr> else r) rs) =
      map whd_message_id rs" for v rs
    by simp
  have "whd_message_id ` set (map (\<lambda>r. if whd_id r = k then r\<lparr>whd_status := WPending, whd_next_retry_at := v\<rparr> else r) rs) =
      whd_message_id ` set rs" for v rs
    unfolding set_map [symmetric] same ..
  then have "admin_inv (advance 1 w\<lparr>db := d\<rparr>)"
    if "update_delivery k (\<lambda>r. r\<lparr>whd_status := WPending, whd_next_retry_at := v\<rparr>) (db w) = Inr d" for d v
    using inv that by (auto simp: update_delivery_Inr admin_inv_def keys_ok_def refs_ok_def hook_ok_def get_config_def)
  then show ?thesis
    using inv by (auto simp: retry_delivery_def http_error_def utc_now_iso_def split: option.splits sum.splits)
qed

text \<open>
  What a request can do: every handler of the panel that writes, and the REST endpoints, with any arguments.
\<close>

inductive api_step :: "app world \<Rightarrow> app world \<Rightarrow> bool" where
  step_create_token: "api_step w (snd (create_token_action sha256 label w))"
| step_revoke_token: "api_step w (snd (revoke_token k w))"
| step_delete_token: "api_step w (snd (delete_token k w))"
| step_purge: "api_step w (snd (purge_messages n w))"
| step_own_number: "api_step w (snd (set_own_number s w))"
| step_webhook: "api_step w (snd (set_webhook s w))"
| step_rotate: "api_step w (snd (rotate_webhook_secret w))"
| step_chat_send: "api_step w (snd (chat_send hx to body w))"
| step_test_sms: "api_step w (snd (send_test_sms to body w))"
| step_retry: "api_step w (snd (retry_delivery k w))"
| step_create_user: "api_step w (snd (create_user pbkdf2 printable name password w))"
| step_change_password: "api_step w (snd (change_user_password pbkdf2 k password w))"
| step_delete_user: "api_step w (snd (delete_user k w))"
| step_restart_worker: "api_step w (snd (restart_worker w))"
| step_restart_api: "api_step w (snd (restart_api w))"
| step_post_message: "api_step w (snd (post_message to body w))"

lemmas handler_inv =
  inv_create_token inv_revoke inv_delete_token inv_purge inv_own_number inv_set_webhook inv_rotate inv_chat_send
  inv_test_sms inv_retry inv_create_user inv_change_password inv_delete_user inv_restarts inv_post_message

lemma api_step_inv: "api_step w w' \<Longrightarrow> admin_inv w \<Longrightarrow> admin_inv w'"
  by (induction rule: api_step.induct) (simp_all add: handler_inv)

section \<open>Lemmas for the properties\<close>

lemma authenticate_hit:
  assumes "bearer header = Some token" and "hash_token sha256 token = Inr h"
    and "active_with_hash h (db w) = [row]" and "tok_last_used_at row = None"
  shows "fst (authenticate sha256 header w) = Inr \<lparr>ct_id = tok_id row, ct_label = tok_label row\<rparr>"
  using assms by (simp add: authenticate_def needs_refresh_def utc_now_iso_def)

lemma authenticate_miss:
  assumes "bearer header = Some token" and "hash_token sha256 token = Inr h"
    and "active_with_hash h (db w) = []"
  shows "fst (authenticate sha256 header w) = Inl (HTTPException 401 (lit ''invalid token''))"
  using assms by (simp add: authenticate_def)

lemma bearer_plain:
  assumes "token \<noteq> []" and "\<forall>c \<in> set token. \<not> py_space c"
  shows "bearer (Some (lit ''Bearer '' @ token)) = Some token"
proof -
  have "lit ''Bearer '' @ token = lit ''Bearer'' @ 32 # token" by (simp add: lit_def)
  moreover have "32 \<notin> set (lit ''Bearer'')" "to_lower (lit ''Bearer'') = lit ''bearer''"
    by (simp_all add: lit_def to_lower_def)
  moreover have "strip token = token" using assms by (intro strip_id) auto
  ultimately show ?thesis using assms(1) by (simp add: bearer_def)
qed

lemma api_token_chars:
  assumes "new_api_token w = (token, w')"
  shows "token \<noteq> []" and "\<forall>c \<in> set token. \<not> py_space c \<and> c < 128"
proof -
  let ?bs = "fst (random_bytes 16 w)"
  have token: "token = lit ''sms_'' @ hex ?bs"
    using assms by (auto simp: new_api_token_def token_hex_def split: prod.splits)
  then show "token \<noteq> []" by simp
  have "list_all (\<lambda>b. b < 256) ?bs" by (simp add: random_bytes_def list_all_iff)
  then have "\<forall>c \<in> set (hex ?bs). 48 \<le> c \<and> c \<le> 57 \<or> 97 \<le> c \<and> c \<le> 102" by (blast dest: hex_char_range)
  then show "\<forall>c \<in> set token. \<not> py_space c \<and> c < 128"
    by (fastforce simp: token lit_def py_space_def)
qed

text \<open>What creating a token does to the table.\<close>

lemma create_token_row:
  assumes "create_token_action sha256 label w = (Inr plaintext, w1)"
  obtains row where "hash_token sha256 plaintext = Inr (tok_hash row)"
    and "api_tokens (db w1) = api_tokens (db w) @ [row]"
    and "tok_hash row \<notin> tok_hash ` set (api_tokens (db w))" and "tok_id row \<notin> tok_id ` set (api_tokens (db w))"
    and "tok_last_used_at row = None" and "tok_revoked_at row = None"
    and "tok_label row = (if label \<noteq> [] then Some label else None)"
    and "bearer (Some (lit ''Bearer '' @ plaintext)) = Some plaintext"
proof -
  obtain token w0 where new: "new_api_token w = (token, w0)" by (metis prod.exhaust)
  have db0: "db w0 = db w" by (rule new_api_token_frame [OF new])
  obtain h where h: "hash_token sha256 token = Inr h"
    using assms by (cases "hash_token sha256 token") (simp_all add: create_token_action_def new token_id_def new_id_def)
  define row where "row = \<lparr>tok_id = lit ''tok'' @ lit ''_'' @ ulid (env w0) (tick (env w0)), tok_hash = h,
    tok_prefix = take 8 token, tok_label = (if label \<noteq> [] then Some label else None), tok_last_used_at = None,
    tok_revoked_at = None, tok_created_at = iso (wall (env w0) (Suc (tick (env w0))))\<rparr>"
  have "(case add_token row (db w0) of
      Inl x \<Rightarrow> (Inl x, advance (Suc 0) (advance (Suc 0) w0))
    | Inr d \<Rightarrow> (Inr token, advance (Suc 0) (advance (Suc 0) w0)\<lparr>db := d\<rparr>)) = (Inr plaintext, w1)"
    using assms by (simp add: create_token_action_def new token_id_def new_id_def utc_now_iso_def h row_def split del: if_split)
  then have added: "token = plaintext" "\<exists>d. add_token row (db w) = Inr d \<and> db w1 = d"
    by (auto simp: db0 split: sum.splits)
  have "bearer (Some (lit ''Bearer '' @ token)) = Some token"
    by (rule bearer_plain) (use api_token_chars [OF new] in auto)
  then show ?thesis
    using added h by (intro that [of row]) (auto simp: add_token_Inr row_def)
qed

text \<open>Counting one more message, and a whole list of them.\<close>

lemma count_chat_msisdns:
  "chat_msisdn ` set (count_chat m cs) = insert (msg_msisdn m) (chat_msisdn ` set cs)"
  "distinct (map chat_msisdn cs) \<Longrightarrow> distinct (map chat_msisdn (count_chat m cs))"
  by (induction cs) auto

lemma count_chat_entry:
  "c \<in> set (count_chat m cs) \<Longrightarrow> distinct (map chat_msisdn cs) \<Longrightarrow>
   (if chat_msisdn c \<noteq> msg_msisdn m then c \<in> set cs
    else if msg_msisdn m \<in> chat_msisdn ` set cs
    then \<exists>c' \<in> set cs. chat_msisdn c' = msg_msisdn m \<and> chat_last c = chat_last c' \<and> chat_count c = Suc (chat_count c')
    else chat_last c = m \<and> chat_count c = 1)"
  by (induction cs) (auto simp: image_iff split: if_splits)

lemma count_chats:
  fixes ms :: "message list"
  defines "of_number \<equiv> \<lambda>n. filter (\<lambda>m. msg_msisdn m = n)"
  shows "distinct (map chat_msisdn (fold count_chat ms [])) \<and>
    chat_msisdn ` set (fold count_chat ms []) = msg_msisdn ` set ms \<and>
    (\<forall>c \<in> set (fold count_chat ms []). chat_last c = hd (of_number (chat_msisdn c) ms) \<and>
       chat_count c = length (of_number (chat_msisdn c) ms))"
proof (induction ms rule: rev_induct)
  case (snoc m ms)
  let ?cs = "fold count_chat ms []"
  have "chat_last c = hd (of_number (chat_msisdn c) (ms @ [m])) \<and>
      chat_count c = length (of_number (chat_msisdn c) (ms @ [m]))" if c: "c \<in> set (count_chat m ?cs)" for c
  proof (cases "chat_msisdn c = msg_msisdn m")
    case False
    then have "c \<in> set ?cs" using count_chat_entry [OF c] snoc by auto
    moreover from this have "chat_msisdn c \<in> msg_msisdn ` set ms" using snoc by (metis imageI)
    then have "of_number (chat_msisdn c) ms \<noteq> []" by (auto simp: of_number_def filter_empty_conv)
    ultimately show ?thesis using snoc False by (auto simp: of_number_def)
  next
    case same: True
    show ?thesis
    proof (cases "msg_msisdn m \<in> chat_msisdn ` set ?cs")
      case True
      then obtain c' where c': "c' \<in> set ?cs" "chat_msisdn c' = msg_msisdn m" "chat_last c = chat_last c'"
        "chat_count c = Suc (chat_count c')"
        using count_chat_entry [OF c] snoc same by auto
      have "of_number (msg_msisdn m) ms \<noteq> []" using True snoc by (auto simp: of_number_def filter_empty_conv)
      then show ?thesis using c' snoc same by (auto simp: of_number_def)
    next
      case False
      then have "of_number (msg_msisdn m) ms = []" using snoc by (auto simp: of_number_def filter_empty_conv image_iff)
      then show ?thesis using count_chat_entry [OF c] snoc same False by (auto simp: of_number_def)
    qed
  qed
  then show ?case using snoc by (simp add: count_chat_msisdns)
qed simp

section \<open>Properties\<close>

text \<open>
  Whatever sequence of requests the API serves, the database stays consistent: identifiers, token hashes and
  user names are unique, every webhook delivery refers to a message, the webhook has a secret exactly when it
  has a URL, and no database user takes the name of the permanent admin.
\<close>

theorem requests_keep_database_consistent:
  assumes "api_step\<^sup>*\<^sup>* w w'" and "admin_inv w"
  shows "admin_inv w'"
  using assms by (induction rule: rtranclp_induct) (simp_all add: api_step_inv)

theorem requests_keep_database_consistent_witness:
  "admin_inv (snd (set_webhook (lit ''https://example.org'') (sample_world empty_db
     \<lparr>app_settings = default_settings, app_rate_limiter = new_limiter 0, app_login_limiter = new_limiter 10\<rparr>)))"
  by (rule requests_keep_database_consistent [OF r_into_rtranclp [where r = api_step, OF step_webhook]])
    (simp add: admin_inv_def keys_ok_def refs_ok_def hook_ok_def get_config_def sample_world_def empty_db_def)

text \<open>
  C4. The life of an API token: from its creation the plaintext shown once authenticates as the new token; after
  the token is revoked, and for as long as the token table stays like that, it is answered with 401.
\<close>

theorem token_lifecycle:
  assumes "create_token_action sha256 label w = (Inr plaintext, w1)"
    and "api_tokens (db w1) = tokens @ [row]"
    and "api_tokens (db w2) = api_tokens (db w1)" and "revoke_token (tok_id row) w2 = (r, w3)"
    and "api_tokens (db w4) = api_tokens (db w3)"
  shows "fst (authenticate sha256 (Some (lit ''Bearer '' @ plaintext)) w1) =
      Inr \<lparr>ct_id = tok_id row, ct_label = (if label \<noteq> [] then Some label else None)\<rparr> \<and>
    r = Inr () \<and>
    fst (authenticate sha256 (Some (lit ''Bearer '' @ plaintext)) w4) =
      Inl (HTTPException 401 (lit ''invalid token''))"
proof -
  obtain new where new: "hash_token sha256 plaintext = Inr (tok_hash new)"
    "api_tokens (db w1) = api_tokens (db w) @ [new]"
    "tok_hash new \<notin> tok_hash ` set (api_tokens (db w))" "tok_id new \<notin> tok_id ` set (api_tokens (db w))"
    "tok_last_used_at new = None" "tok_revoked_at new = None"
    "tok_label new = (if label \<noteq> [] then Some label else None)"
    "bearer (Some (lit ''Bearer '' @ plaintext)) = Some plaintext"
    by (rule create_token_row [OF assms(1)])
  then have row: "row = new" "tokens = api_tokens (db w)" using assms(2) by simp_all
  have only: "filter (\<lambda>t. tok_hash t = tok_hash new \<and> tok_revoked_at t = None) (api_tokens (db w)) = []"
    using new(3) by (auto simp: filter_empty_conv image_iff)
  then have "active_with_hash (tok_hash new) (db w1) = [new]"
    by (simp add: active_with_hash_def new)
  from authenticate_hit [OF new(8,1) this new(5)]
  have hit: "fst (authenticate sha256 (Some (lit ''Bearer '' @ plaintext)) w1) =
      Inr \<lparr>ct_id = tok_id row, ct_label = (if label \<noteq> [] then Some label else None)\<rparr>"
    by (simp add: row new)
  have "find_row tok_id (tok_id new) (api_tokens (db w2)) = Some new"
    using new(4) by (simp add: assms(3) new(2) find_row_append find_row_None_iff [THEN iffD2])
  then have r: "r = Inr ()" "w3 = with_tokens (map (\<lambda>t. if tok_id t = tok_id new
      then t\<lparr>tok_revoked_at := Some (iso (wall (env w2) (tick (env w2))))\<rparr> else t)) (advance 1 w2)"
    using assms(4) by (simp_all add: row revoke_token_def new(6) utc_now_iso_def)
  have "active_with_hash (tok_hash new) (db w4) = []"
    using only new(4)
    by (auto simp: active_with_hash_def assms(5) r(2) with_tokens_def assms(3) new(2) filter_empty_conv)
  from authenticate_miss [OF new(8,1) this] show ?thesis using hit r(1) by simp
qed

theorem token_lifecycle_witness:
  "\<exists>plaintext w1 k w3. create_token_action (\<lambda>b. b) [] (sample_world empty_db ()) = (Inr plaintext, w1) \<and>
     revoke_token k w1 = (Inr (), w3) \<and>
     fst (authenticate (\<lambda>b. b) (Some (lit ''Bearer '' @ plaintext)) w3) =
       Inl (HTTPException 401 (lit ''invalid token''))"
proof -
  let ?w = "sample_world empty_db ()"
  obtain token w0 where new: "new_api_token ?w = (token, w0)" by (metis prod.exhaust)
  have "list_all (\<lambda>c. c < 128) token"
    using api_token_chars(2) [OF new] by (simp add: list_all_iff)
  then have "hash_token (\<lambda>b. b) token = Inr token" by (simp add: hash_token_def utf8_encode_ascii)
  moreover have "api_tokens (db w0) = []"
    using new_api_token_frame(1) [OF new] by (simp add: sample_world_def empty_db_def)
  ultimately obtain plaintext w1 where run: "create_token_action (\<lambda>b. b) [] ?w = (Inr plaintext, w1)"
    using new by (simp add: create_token_action_def token_id_def new_id_def utc_now_iso_def Let_def add_token_def
        insert_row_def)
  obtain row where row: "api_tokens (db w1) = api_tokens (db ?w) @ [row]" by (rule create_token_row [OF run])
  obtain r w3 where revoke: "revoke_token (tok_id row) w1 = (r, w3)" by (metis prod.exhaust)
  from token_lifecycle [OF run row refl revoke refl] run revoke show ?thesis by blast
qed

text \<open>
  C5. Deleting an admin user ends the user's sessions at once: every cookie signed for that name, of whatever age,
  is refused by every page of the panel, without any effect.
\<close>

theorem delete_user_ends_sessions:
  assumes "delete_user k w = (r, w1)" and "find_row usr_id k (admin_users (db w)) = Some user"
    and "distinct (map usr_username (admin_users (db w)))" and "signs ss"
    and "admin_users (db later) = admin_users (db w1)"
    and "usr_username user \<noteq> st_admin_user (app_settings (drv later))"
    and "cookie = ss_dumps ss (st_secret_key (app_settings (drv later))) (usr_username user) signed"
  shows "r = Inr () \<and> (\<exists>later'. admin_route ss (Some cookie) handler later = (Inl AdminAuthRequired, later') \<and>
    db later' = db later \<and> drv later' = drv later)"
proof -
  have user: "user \<in> set (admin_users (db w))" "usr_id user = k" using find_row_SomeD [OF assms(2)] by auto
  have r: "r = Inr ()" and users: "admin_users (db w1) = filter (\<lambda>v. usr_id v \<noteq> k) (admin_users (db w))"
    using assms(1,2) by (auto simp: delete_user_def Let_def)
  have "distinct (map usr_username (admin_users (db later)))"
    using assms(3) by (simp add: assms(5) users distinct_map_filter)
  moreover have "usr_username user \<notin> usr_username ` set (admin_users (db later))"
    using assms(3) user by (auto simp: assms(5) users distinct_map inj_on_def)
  ultimately have refused: "fst (require_admin ss (app_settings (drv later)) (Some cookie) later) = Inl AdminAuthRequired"
    using require_admin_signed [OF assms(4), of later _ "app_settings (drv later)" "usr_username user" signed] assms(6)
    by (simp add: assms(7))
  obtain q later' where run: "require_admin ss (app_settings (drv later)) (Some cookie) later = (q, later')"
    by (metis prod.exhaust)
  then have "later' = later \<or> later' = advance 1 later"
    by (auto simp: require_admin_def now_utc_def split: option.splits sum.splits if_splits)
  then show ?thesis using refused r run by (auto simp: admin_route_def)
qed

definition sample_user :: admin_user where
  "sample_user = \<lparr>usr_id = lit ''usr_1'', usr_username = lit ''eve'', usr_password_hash = [], usr_created_at = iso 0\<rparr>"

definition sample_app :: app where
  "sample_app = \<lparr>app_settings = default_settings, app_rate_limiter = new_limiter 0, app_login_limiter = new_limiter 10\<rparr>"

theorem delete_user_ends_sessions_witness:
  "\<exists>w1 later. delete_user (lit ''usr_1'') (sample_world (empty_db\<lparr>admin_users := [sample_user]\<rparr>) sample_app) = (Inr (), w1) \<and>
     admin_route plain_sessions (Some (ss_dumps plain_sessions [] (lit ''eve'') 5)) restart_api w1 =
       (Inl AdminAuthRequired, later)"
proof -
  let ?w = "sample_world (empty_db\<lparr>admin_users := [sample_user]\<rparr>) sample_app"
  obtain r w1 where run: "delete_user (lit ''usr_1'') ?w = (r, w1)" by (metis prod.exhaust)
  then have st: "app_settings (drv w1) = default_settings"
    by (auto simp: delete_user_def Let_def http_error_def sample_world_def sample_app_def split: option.splits)
  have found: "find_row usr_id (lit ''usr_1'') (admin_users (db ?w)) = Some sample_user"
    and dist: "distinct (map usr_username (admin_users (db ?w)))"
    by (simp_all add: sample_world_def sample_user_def)
  have "signs plain_sessions" by (simp add: signs_def plain_sessions_def)
  from delete_user_ends_sessions [OF run found dist this refl, of _ 5 restart_api, OF _ refl] run show ?thesis
    by (auto simp: st sample_user_def default_settings_def)
qed

text \<open>
  C6. Purging removes exactly the messages created more than the given number of days ago and exactly the webhook
  deliveries of those; what is newer stays as it was, in order.
\<close>

theorem purge_exact:
  assumes "purge_messages n w = (r, w')" and "keys_ok (db w)" and "refs_ok (db w)"
    and "now = wall (env w) (tick (env w))"
  shows "if n \<in> {30, 90, 365}
    then r = Inr () \<and>
      messages (db w') = filter (\<lambda>m. \<not> msg_created_at m < iso (now - days n)) (messages (db w)) \<and>
      deliveries (db w') = filter (\<lambda>d. whd_message_id d \<in> msg_id ` set (messages (db w'))) (deliveries (db w)) \<and>
      gateway_config (db w') = gateway_config (db w) \<and> api_tokens (db w') = api_tokens (db w) \<and>
      admin_users (db w') = admin_users (db w)
    else r = Inl (HTTPException 422 (lit ''days must be 30, 90 or 365'')) \<and> w' = w"
proof (cases "n \<in> {30, 90, 365}")
  case True
  define cutoff where "cutoff = iso (now - days n)"
  have r: "r = Inr ()" and w': "messages (db w') = messages (delete_older cutoff (db w))"
    "deliveries (db w') = deliveries (delete_older cutoff (db w))"
    "gateway_config (db w') = gateway_config (db w)" "api_tokens (db w') = api_tokens (db w)"
    "admin_users (db w') = admin_users (db w)"
    using assms(1) True by (auto simp: purge_messages_def now_utc_def Let_def cutoff_def assms(4) delete_older_def)
  have "whd_message_id d \<notin> msg_id ` set (filter (older_than cutoff) (messages (db w))) \<longleftrightarrow>
      whd_message_id d \<in> msg_id ` set (filter (\<lambda>m. \<not> older_than cutoff m) (messages (db w)))"
    if d: "d \<in> set (deliveries (db w))" for d
  proof -
    obtain m where m: "m \<in> set (messages (db w))" "msg_id m = whd_message_id d"
      using subsetD [OF assms(3) [unfolded refs_ok_def] imageI [OF d]] by auto
    have "inj_on msg_id (set (messages (db w)))" using assms(2) by (simp add: keys_ok_def distinct_map)
    then have only: "\<forall>m' \<in> set (messages (db w)). msg_id m' = whd_message_id d \<longleftrightarrow> m' = m"
      using m by (metis inj_onD)
    show ?thesis
      using m only by (cases "older_than cutoff m") (simp_all add: image_iff Bex_def, metis+)
  qed
  then have "deliveries (delete_older cutoff (db w)) =
      filter (\<lambda>d. whd_message_id d \<in> msg_id ` set (messages (db w'))) (deliveries (db w))"
    unfolding w'(1) by (auto simp: delete_older_def intro!: filter_cong)
  then show ?thesis
    using True r w' by (simp add: delete_older_def older_than_def cutoff_def)
next
  case False
  then show ?thesis using assms(1) by (auto simp: purge_messages_def http_error_def)
qed

theorem purge_exact_witness:
  "messages (db (snd (purge_messages 30 (sample_world (empty_db\<lparr>messages := [sample_message 1]\<rparr>) ())))) = []"
proof -
  let ?w = "sample_world (empty_db\<lparr>messages := [sample_message 1]\<rparr>) ()"
  obtain r w' where run: "purge_messages 30 ?w = (r, w')" by (metis prod.exhaust)
  have ok: "keys_ok (db ?w)" "refs_ok (db ?w)" by (simp_all add: sample_world_def empty_db_def keys_ok_def refs_ok_def)
  have "iso (wall (env ?w) (tick (env ?w)) - days 30) = iso 63918763200000000"
    by (simp add: sample_world_def sample_env_def days_def)
  also have "\<dots> = lit ''2026-07-04T12:00:00Z''" by (simp add: iso_eval lit_def)
  finally have "messages (db w') = []" using purge_exact [OF run ok refl]
    by (simp add: sample_world_def sample_message_def lit_def)
  then show ?thesis using run by simp
qed



end
