(* ===== verification/Dashboard.thy ===== *)
theory Dashboard
  imports Admin
begin

text \<open>
  The figures of the dashboard and of the settings page, \<^verbatim>\<open>gateway/api/routes_admin.py\<close>: counts over the tables, the
  bounds of the local day, the messages per hour and per day behind the charts. What is computed of
  them in floating point, the geometry of the SVG charts and the percentages, is in \<^verbatim>\<open>Charts\<close>.
\<close>

text \<open>
  The time zone of the settings, the data behind \<open>ZoneInfo\<close>: the local reading of a moment and the moment of a
  local reading, both in microseconds. A local reading has calendar arithmetic of its own, as in \<open>datetime\<close>; a
  midnight that the zone repeats is read as its first occurrence.
\<close>

record zone =
  zn_local :: "datetime \<Rightarrow> int"
  zn_utc :: "int \<Rightarrow> datetime"

definition hour :: int where "hour = 3600000000"
definition day :: int where "day = 24 * hour"

text \<open>\<open>replace(hour=0, minute=0, second=0, microsecond=0)\<close>\<close>

definition midnight :: "int \<Rightarrow> int" where
  "midnight t = t div day * day"

definition today_bounds_utc :: "zone \<Rightarrow> 'd world \<Rightarrow> (str \<times> str) \<times> 'd world" where
  "today_bounds_utc z w =
     (case now_utc w of (now, w1) \<Rightarrow>
        let start_local = midnight (zn_local z now)
        in ((iso (zn_utc z start_local), iso (zn_utc z (start_local + day))), w1))"

section \<open>Displayed times\<close>

text \<open>\<open>strftime("%Y-%m-%d %H:%M")\<close> of a local reading.\<close>

definition minute_str :: "int \<Rightarrow> str" where
  "minute_str t =
     (case ymd (seconds t div 86400) of (y, m, d) \<Rightarrow>
        case clock_fields (seconds t mod 86400) of (hh, mm, _) \<Rightarrow>
          dig4 y @ [45] @ dig2 m @ [45] @ dig2 d @ [32] @ dig2 hh @ [58] @ dig2 mm)"

definition localdt :: "zone \<Rightarrow> str option \<Rightarrow> exn + str" where
  "localdt z v =
     (if \<not> truthy v then Inr [8212]
      else map_sum id (\<lambda>t. minute_str (zn_local z t)) (parse_iso (the v)))"

section \<open>Messages per hour and per day\<close>

text \<open>The rows a chart reads: \<open>created_at\<close> and \<open>direction\<close> from a moment on.\<close>

definition rows_since :: "str \<Rightarrow> database \<Rightarrow> (str \<times> direction) list" where
  "rows_since start d =
     map (\<lambda>m. (msg_created_at m, msg_direction m)) (filter (\<lambda>m. start \<le> msg_created_at m) (messages d))"

definition bump :: "direction \<Rightarrow> nat \<times> nat \<Rightarrow> nat \<times> nat" where
  "bump dir c = (if dir = Outbound then (fst c + 1, snd c) else (fst c, snd c + 1))"

text \<open>The loop over the rows, with the slot of a moment; a slot holds the outbound and the inbound count.\<close>

fun count_rows :: "(datetime \<Rightarrow> int) \<Rightarrow> (str \<times> direction) list \<Rightarrow> (nat \<times> nat) list \<Rightarrow> exn + (nat \<times> nat) list" where
  "count_rows slot [] counts = Inr counts"
| "count_rows slot ((created_at, dir) # rows) counts =
     (case parse_iso created_at of
        Inl x \<Rightarrow> Inl x
      | Inr t \<Rightarrow>
          count_rows slot rows
            (if 0 \<le> slot t \<and> slot t < int (length counts)
             then counts[nat (slot t) := bump dir (counts ! nat (slot t))] else counts))"

record bar =
  bar_out :: nat
  bar_inb :: nat
  bar_label :: str
  bar_show_label :: bool

definition list_max :: "nat list \<Rightarrow> nat" where
  "list_max ns = fold max ns 0"

definition chart_start :: "datetime \<Rightarrow> datetime" where
  "chart_start now = now div hour * hour - 23 * hour"

definition activity_chart :: "zone \<Rightarrow> 'd world \<Rightarrow> (exn + bar list \<times> nat) \<times> 'd world" where
  "activity_chart z w =
     (case now_utc w of (now, w1) \<Rightarrow>
        let start = chart_start now
        in (map_sum id (\<lambda>counts.
              let peak = list_max (map (\<lambda>c. fst c + snd c) counts)
              in (map (\<lambda>i.
                    \<lparr>bar_out = fst (counts ! i), bar_inb = snd (counts ! i),
                     bar_label = dig2 (seconds (zn_local z (start + int i * hour)) mod 86400 div 3600),
                     bar_show_label = (i mod 4 = 0 \<or> i = 23)\<rparr>) [0..<24],
                  if peak = 0 then 1 else peak))
             (count_rows (\<lambda>t. (t - start) div hour) (rows_since (iso start) (db w1)) (replicate 24 (0, 0))),
            w1))"

record trend_point =
  tp_out :: nat
  tp_inb :: nat
  tp_label :: str

text \<open>\<open>strftime("%d.%m")\<close>\<close>

definition day_month :: "int \<Rightarrow> str" where
  "day_month t = (case ymd (seconds t div 86400) of (_, m, d) \<Rightarrow> dig2 d @ [46] @ dig2 m)"

definition daily_trend :: "zone \<Rightarrow> 'd world \<Rightarrow> (exn + trend_point list \<times> nat) \<times> 'd world" where
  "daily_trend z w =
     (case now_utc w of (now, w1) \<Rightarrow>
        let today = midnight (zn_local z now);
            days = map (\<lambda>offset. today - int offset * day) (rev [0..<7])
        in (map_sum id (\<lambda>counts.
              (map (\<lambda>i. \<lparr>tp_out = fst (counts ! i), tp_inb = snd (counts ! i), tp_label = day_month (days ! i)\<rparr>) [0..<7],
               Max {list_max (map fst counts), list_max (map snd counts), 1}))
             (count_rows (\<lambda>t. zn_local z t div day - hd days div day) (rows_since (iso (zn_utc z (hd days))) (db w1))
               (replicate 7 (0, 0))),
            w1))"

section \<open>Counts\<close>

definition count_messages :: "(message \<Rightarrow> bool) \<Rightarrow> database \<Rightarrow> nat" where
  "count_messages p d = length (filter p (messages d))"

text \<open>The segments of the donut, those with no message left out.\<close>

definition status_donut :: "database \<Rightarrow> nat \<times> (string \<times> nat) list" where
  "status_donut d =
     (let counts =
        [(''delivered'', count_messages (\<lambda>m. msg_status m = Delivered) d),
         (''sent'', count_messages (\<lambda>m. msg_status m = Sent) d),
         (''queued'', count_messages (\<lambda>m. msg_status m \<in> {Queued, Sending}) d),
         (''failed'', count_messages (\<lambda>m. msg_status m = Failed) d)]
      in (sum_list (map snd counts), filter (\<lambda>(_, n). n \<noteq> 0) counts))"

text \<open>\<open>column >= start\<close> and \<open>column < end\<close>, both unknown on a null.\<close>

definition in_span :: "str \<times> str \<Rightarrow> str option \<Rightarrow> bool" where
  "in_span bounds v = (case v of None \<Rightarrow> False | Some s \<Rightarrow> fst bounds \<le> s \<and> s < snd bounds)"

definition SENT_STATUSES :: "msg_status set" where
  "SENT_STATUSES = {Sent, Delivered}"

record dashboard =
  db_status :: "str \<rightharpoonup> str"
  db_queue_depth :: nat
  db_sent_today :: nat
  db_received_today :: nat
  db_delivered_today :: nat
  db_failed_today :: nat
  db_total_messages :: nat
  db_sent_total :: nat
  db_received_total :: nat
  db_failed_total :: nat
  db_webhook_ok :: nat
  db_webhook_failed :: nat
  db_active_tokens :: nat
  db_webhook_configured :: bool
  db_own_number :: "str option"
  db_chart :: "bar list \<times> nat"
  db_donut :: "nat \<times> (string \<times> nat) list"
  db_trend :: "trend_point list \<times> nat"

definition own_number_shown :: "database \<Rightarrow> str option" where
  "own_number_shown d =
     (let manual = get_config d OWN_NUMBER;
          reported = map_option kv_value (gateway_status d (lit ''modem_own_number''))
      in if truthy manual then manual else if truthy reported then reported else None)"

definition dashboard_figures :: "str \<times> str \<Rightarrow> database \<Rightarrow> bar list \<times> nat \<Rightarrow> trend_point list \<times> nat \<Rightarrow> dashboard" where
  "dashboard_figures today d chart trend =
     \<lparr>db_status = (\<lambda>k. map_option kv_value (gateway_status d k)),
      db_queue_depth = count_messages (\<lambda>m. msg_status m = Queued) d,
      db_sent_today = count_messages (\<lambda>m. msg_status m \<in> SENT_STATUSES \<and> in_span today (msg_sent_at m)) d,
      db_received_today = count_messages (\<lambda>m. msg_direction m = Inbound \<and> in_span today (msg_received_at m)) d,
      db_delivered_today = count_messages (\<lambda>m. msg_status m = Delivered \<and> in_span today (msg_delivered_at m)) d,
      db_failed_today = count_messages (\<lambda>m. msg_status m = Failed \<and> in_span today (Some (msg_created_at m))) d,
      db_total_messages = length (messages d),
      db_sent_total = count_messages (\<lambda>m. msg_status m \<in> SENT_STATUSES) d,
      db_received_total = count_messages (\<lambda>m. msg_direction m = Inbound) d,
      db_failed_total = count_messages (\<lambda>m. msg_status m = Failed) d,
      db_webhook_ok = length (filter (\<lambda>r. whd_status r = WDelivered) (deliveries d)),
      db_webhook_failed = length (filter (\<lambda>r. whd_status r = WFailed) (deliveries d)),
      db_active_tokens = length (filter (\<lambda>t. tok_revoked_at t = None) (api_tokens d)),
      db_webhook_configured = truthy (get_config d WEBHOOK_URL),
      db_own_number = own_number_shown d,
      db_chart = chart, db_donut = status_donut d, db_trend = trend\<rparr>"

definition dashboard_context :: "zone \<Rightarrow> 'd world \<Rightarrow> (exn + dashboard) \<times> 'd world" where
  "dashboard_context z w =
     (case today_bounds_utc z w of (today, w1) \<Rightarrow>
        (case activity_chart z w1 of
           (Inl x, w2) \<Rightarrow> (Inl x, w2)
         | (Inr chart, w2) \<Rightarrow>
             (case daily_trend z w2 of
                (Inl x, w3) \<Rightarrow> (Inl x, w3)
              | (Inr trend, w3) \<Rightarrow> (Inr (dashboard_figures today (db w3) chart trend), w3))))"

text \<open>The settings page, without the size of the file and the values of the settings.\<close>

definition settings_page :: "database \<Rightarrow> str option \<times> str option \<times> str option \<times> nat" where
  "settings_page d =
     (get_config d WEBHOOK_URL, get_config d WEBHOOK_SECRET, get_config d OWN_NUMBER, length (messages d))"

section \<open>What the loop counts\<close>

text \<open>How many of the rows fall into slot \<open>i\<close>, by direction.\<close>

definition tally :: "(datetime \<Rightarrow> int) \<Rightarrow> (str \<times> direction) list \<Rightarrow> nat \<Rightarrow> direction \<Rightarrow> nat" where
  "tally slot rows i dir = length (filter (\<lambda>(s, d). d = dir \<and> slot (projr (parse_iso s)) = int i) rows)"

lemma count_rows_tally:
  "(\<forall>(s, _) \<in> set rows. \<not> isl (parse_iso s)) \<Longrightarrow>
   \<exists>counts'. count_rows slot rows counts = Inr counts' \<and> length counts' = length counts \<and>
     (\<forall>i < length counts. counts' ! i =
        (fst (counts ! i) + tally slot rows i Outbound, snd (counts ! i) + tally slot rows i Inbound))"
proof (induction slot rows counts rule: count_rows.induct)
  case (2 slot s dir rows counts)
  then obtain t where t: "parse_iso s = Inr t" by (cases "parse_iso s") auto
  let ?counts = "if 0 \<le> slot t \<and> slot t < int (length counts)
    then counts[nat (slot t) := bump dir (counts ! nat (slot t))] else counts"
  obtain counts' where counts': "count_rows slot rows ?counts = Inr counts'" "length counts' = length ?counts"
    "\<forall>i < length ?counts. counts' ! i =
      (fst (?counts ! i) + tally slot rows i Outbound, snd (?counts ! i) + tally slot rows i Inbound)"
    using "2.IH" [OF t] "2.prems" by auto
  have slot: "fst (?counts ! i) = fst (counts ! i) + (if dir = Outbound \<and> slot t = int i then 1 else 0)"
    "snd (?counts ! i) = snd (counts ! i) + (if dir = Inbound \<and> slot t = int i then 1 else 0)" if "i < length counts" for i
    using that by (cases dir; auto simp: bump_def nth_list_update)+
  have "counts' ! i = (fst (counts ! i) + tally slot ((s, dir) # rows) i Outbound,
      snd (counts ! i) + tally slot ((s, dir) # rows) i Inbound)" if i: "i < length counts" for i
  proof -
    have "counts' ! i = (fst (?counts ! i) + tally slot rows i Outbound, snd (?counts ! i) + tally slot rows i Inbound)"
      using counts'(3) i by simp
    then show ?thesis unfolding slot [OF i] by (cases dir) (auto simp: tally_def t)
  qed
  then show ?case using counts'(1,2) t by simp
qed (simp add: tally_def)

text \<open>A row with the timestamp of a moment, and the messages of a slot.\<close>

definition created :: "message \<Rightarrow> datetime" where
  "created m = projr (parse_iso (msg_created_at m))"

definition stamped :: "database \<Rightarrow> bool" where
  "stamped d \<longleftrightarrow> (\<forall>m \<in> set (messages d). \<exists>t. in_range t \<and> msg_created_at m = iso t)"

definition in_slot :: "datetime \<Rightarrow> int \<Rightarrow> message \<Rightarrow> bool" where
  "in_slot start width m \<longleftrightarrow> start \<le> created m \<and> created m < start + width"

lemma created_ge:
  assumes "in_range t" and "msg_created_at m = iso t" and "in_range start" and "1000000 dvd start"
  shows "iso start \<le> msg_created_at m \<longleftrightarrow> start \<le> created m"
proof -
  have "iso start \<le> msg_created_at m \<longleftrightarrow> start div 1000000 \<le> t div 1000000"
    using seconds_in_range(1) [OF assms(1)] seconds_in_range(1) [OF assms(3)] assms(2)
    by (metis iso_le_iff of_nat_le_iff)
  moreover have "created m = t div 1000000 * 1000000"
    by (simp add: created_def assms(2) parse_iso_iso [OF assms(1)])
  moreover obtain k where "start = 1000000 * k" using assms(4) by auto
  ultimately show ?thesis by simp
qed

lemma rows_since_parse: "stamped d \<Longrightarrow> \<forall>(s, _) \<in> set (rows_since start d). \<not> isl (parse_iso s)"
  using parse_iso_iso by (fastforce simp: stamped_def rows_since_def)

lemma tally_slots:
  assumes "stamped d" and "in_range start" and "1000000 dvd start"
  shows "tally (\<lambda>t. (t - start) div hour) (rows_since (iso start) d) i dir =
    length (filter (\<lambda>m. msg_direction m = dir \<and> in_slot (start + int i * hour) hour m) (messages d))"
proof -
  have "iso start \<le> msg_created_at m \<and> msg_direction m = dir \<and> (created m - start) div hour = int i \<longleftrightarrow>
      msg_direction m = dir \<and> in_slot (start + int i * hour) hour m" if m: "m \<in> set (messages d)" for m
  proof -
    obtain t where "in_range t" "msg_created_at m = iso t" using assms(1) m unfolding stamped_def by blast
    from created_ge [OF this assms(2,3)] show ?thesis
      by (auto simp: in_slot_def hour_def)
  qed
  then show ?thesis
    by (simp add: tally_def rows_since_def filter_map comp_def created_def conj_commute conj_left_commute
        cong: filter_cong)
qed

text \<open>
  C24. The activity chart counts every message of the last twenty-four hours once, in the bar of the hour it was created
  in and under its direction, and no other message; the newest bar is the current hour.
\<close>

theorem activity_chart_exact:
  assumes "stamped (db w)" and "now = wall (env w) (tick (env w))" and "in_range (chart_start now)"
  shows "\<exists>bars peak. fst (activity_chart z w) = Inr (bars, peak) \<and> length bars = 24 \<and>
    (\<forall>i < 24. let start = chart_start now + int i * hour in
       bar_out (bars ! i) = length (filter (\<lambda>m. msg_direction m = Outbound \<and> in_slot start hour m) (messages (db w))) \<and>
       bar_inb (bars ! i) = length (filter (\<lambda>m. msg_direction m = Inbound \<and> in_slot start hour m) (messages (db w)))) \<and>
    chart_start now + 23 * hour \<le> now \<and> now < chart_start now + 24 * hour"
proof -
  have dvd: "1000000 dvd chart_start now" by (simp add: chart_start_def hour_def)
  let ?rows = "rows_since (iso (chart_start now)) (db w)" and ?slot = "\<lambda>t. (t - chart_start now) div hour"
  obtain counts where counts: "count_rows ?slot ?rows (replicate 24 (0, 0)) = Inr counts"
    "\<forall>i < 24. counts ! i = (tally ?slot ?rows i Outbound, tally ?slot ?rows i Inbound)"
    using count_rows_tally [OF rows_since_parse [OF assms(1)], where slot = ?slot and counts = "replicate 24 (0, 0)"] by auto
  have "chart_start now + 23 * hour \<le> now \<and> now < chart_start now + 24 * hour"
    by (simp add: chart_start_def hour_def) linarith
  then show ?thesis
    using counts tally_slots [OF assms(1,3) dvd]
    by (auto simp: activity_chart_def now_utc_def Let_def assms(2) [symmetric])
qed

definition recent_message :: message where
  "recent_message = (sample_message 1)\<lparr>msg_created_at := iso 63921355200000000\<rparr>"

theorem activity_chart_exact_witness:
  "\<exists>bars peak. fst (activity_chart \<lparr>zn_local = id, zn_utc = id\<rparr>
       (sample_world (empty_db\<lparr>messages := [recent_message, sample_message 2]\<rparr>) ())) = Inr (bars, peak) \<and>
     bar_inb (bars ! 23) = 1"
proof -
  let ?w = "sample_world (empty_db\<lparr>messages := [recent_message, sample_message 2]\<rparr>) ()"
  have now: "63921355200000000 = wall (env ?w) (tick (env ?w))" by (simp add: sample_world_def sample_env_def)
  have range: "in_range 63921355200000000" "in_range 63902822400000000" "in_range (chart_start 63921355200000000)"
    by (simp_all add: in_range_def days_before_year_def chart_start_def hour_def)
  have old: "lit ''2026-01-01T00:00:00Z'' = iso 63902822400000000" by (simp add: iso_eval lit_def)
  have ok: "stamped (db ?w)"
    using range old by (auto simp: stamped_def sample_world_def empty_db_def recent_message_def sample_message_def)
  have created: "created recent_message = 63921355200000000" "created (sample_message 2) = 63902822400000000"
    using parse_iso_iso [OF range(1)] parse_iso_iso [OF range(2)]
    by (simp_all add: created_def recent_message_def sample_message_def old)
  from activity_chart_exact [OF ok now range(3), of "\<lparr>zn_local = id, zn_utc = id\<rparr>"]
  obtain bars peak where "fst (activity_chart \<lparr>zn_local = id, zn_utc = id\<rparr> ?w) = Inr (bars, peak)"
    "bar_inb (bars ! 23) = length (filter (\<lambda>m. msg_direction m = Inbound \<and>
       in_slot (chart_start 63921355200000000 + int 23 * hour) hour m) (messages (db ?w)))"
    unfolding Let_def by fastforce
  then show ?thesis
    by (simp add: sample_world_def empty_db_def in_slot_def created chart_start_def hour_def)
      (simp add: recent_message_def sample_message_def)
qed

text \<open>No chart fails on a row with the timestamp of a moment.\<close>

lemma chart_returns:
  assumes "stamped (db w)"
  shows "\<exists>v w'. activity_chart z w = (Inr v, w') \<and> db w' = db w" and "\<exists>v w'. daily_trend z w = (Inr v, w') \<and> db w' = db w"
proof -
  have counted: "\<exists>counts. count_rows slot (rows_since start (db w)) zeros = Inr counts" for slot start zeros
    using count_rows_tally [OF rows_since_parse [OF assms], where slot = slot and counts = zeros] by blast
  show "\<exists>v w'. activity_chart z w = (Inr v, w') \<and> db w' = db w"
    using counted [of "\<lambda>t. (t - chart_start (wall (env w) (tick (env w)))) div hour"
        "iso (chart_start (wall (env w) (tick (env w))))" "replicate 24 (0, 0)"]
    by (auto simp: activity_chart_def now_utc_def Let_def)
  define today where "today = midnight (zn_local z (wall (env w) (tick (env w))))"
  define week where "week = map (\<lambda>offset. today - int offset * day) (rev [0..<7])"
  show "\<exists>v w'. daily_trend z w = (Inr v, w') \<and> db w' = db w"
    using counted [of "\<lambda>t. zn_local z t div day - hd week div day" "iso (zn_utc z (hd week))" "replicate 7 (0, 0)"]
    unfolding daily_trend_def now_utc_def Let_def prod.case today_def [symmetric] week_def [symmetric] by auto
qed

lemma stamped_dashboard_returns:
  assumes "stamped (db w)"
  shows "\<exists>v. fst (dashboard_context z w) = Inr v"
proof -
  obtain today w1 where today: "today_bounds_utc z w = (today, w1)" "db w1 = db w"
    by (simp add: today_bounds_utc_def now_utc_def Let_def)
  obtain v w2 where chart: "activity_chart z w1 = (Inr v, w2)" "db w2 = db w1"
    using chart_returns(1) [of w1 z] assms today(2) by auto
  obtain u w3 where "daily_trend z w2 = (Inr u, w3)"
    using chart_returns(2) [of w2 z] assms today(2) chart(2) by auto
  then show ?thesis using today chart by (simp add: dashboard_context_def)
qed

end
