(* ===== verification/Floats.thy ===== *)
theory Floats
  imports Prelude
begin

text \<open>
  Python's \<open>float\<close>, IEEE 754 double precision, on the numbers of the dashboard's charts. A float is the rational
  number it stands for: \<open>double\<close> rounds an exact result to the nearest float, ties to even, so that an operation on
  floats is \<open>double\<close> of the exact operation, as the standard requires, and the quotient of two Python integers is
  \<open>double\<close> of the exact quotient. Zero has one sign; overflow and subnormal numbers, which the figures of the charts
  never reach, are left out.
\<close>

section \<open>Rounding\<close>

text \<open>To the nearest integer, ties to even: Python's \<open>round(x)\<close>.\<close>

definition half_even :: "rat \<Rightarrow> int" where
  "half_even x = (let n = \<lfloor>x + 1 / 2\<rfloor> in if x + 1 / 2 = of_int n \<and> odd n then n - 1 else n)"

lemma half_even_of_int [simp]: "half_even (of_int n) = n"
proof -
  have "\<lfloor>(of_int n :: rat) + 1 / 2\<rfloor> = n" by linarith
  moreover have "(of_int n :: rat) + 1 / 2 \<noteq> of_int n" by simp
  ultimately show ?thesis by (simp add: half_even_def)
qed

lemma half_even_near: "\<bar>of_int (half_even x) - x\<bar> \<le> 1 / 2"
proof -
  obtain n where n: "\<lfloor>x + 1 / 2\<rfloor> = n" by simp
  then have floor: "of_int n \<le> x + 1 / 2" "x + 1 / 2 < of_int n + 1" by linarith+
  show ?thesis
  proof (cases "x + 1 / 2 = of_int n \<and> odd n")
    case True
    then have "half_even x = n - 1" by (simp add: half_even_def n)
    with True show ?thesis by simp
  next
    case False
    then have "half_even x = n" by (auto simp: half_even_def n)
    with floor show ?thesis by linarith
  qed
qed

lemma half_even_mono:
  assumes "x \<le> y"
  shows "half_even x \<le> half_even y"
proof (rule ccontr)
  assume "\<not> half_even x \<le> half_even y"
  then have "of_int (half_even y) + 1 \<le> (of_int (half_even x) :: rat)" by linarith
  then have "x = y" using assms half_even_near [of x] half_even_near [of y] by linarith
  with \<open>\<not> half_even x \<le> half_even y\<close> show False by simp
qed

lemma half_even_eqI:
  assumes "\<bar>x - of_int n\<bar> < 1 / 2"
  shows "half_even x = n"
proof -
  have "\<bar>of_int (half_even x) - (of_int n :: rat)\<bar> < 1"
    using half_even_near [of x] assms by linarith
  then have "\<bar>half_even x - n\<bar> < 1" by linarith
  then show ?thesis by simp
qed

text \<open>
  A positive number lies in one binade; scaled into the binade from \<open>2\<^sup>5\<^sup>2\<close> to \<open>2\<^sup>5\<^sup>3\<close>, the floats are the integers.
\<close>

function round_pos :: "rat \<Rightarrow> rat" where
  "round_pos x =
     (if x \<le> 0 then 0
      else if x < 2 ^ 52 then round_pos (2 * x) / 2
      else if 2 ^ 53 \<le> x then 2 * round_pos (x / 2)
      else of_int (half_even x))"
  by auto

lemma floor_half_less: "1 \<le> y \<Longrightarrow> nat \<lfloor>y / 2\<rfloor> < nat \<lfloor>y\<rfloor>" for y :: rat
proof -
  assume "1 \<le> y"
  then have "1 \<le> \<lfloor>y\<rfloor>" by simp
  moreover from this have "\<lfloor>y / 2\<rfloor> < \<lfloor>y\<rfloor>" by linarith
  ultimately show ?thesis by linarith
qed

definition binade_distance :: "rat \<Rightarrow> nat" where
  "binade_distance x = (if x < 2 ^ 52 then nat \<lfloor>2 ^ 53 / x\<rfloor> else nat \<lfloor>x / 2 ^ 52\<rfloor> - 1)"

termination round_pos
proof (relation "measure binade_distance")
  fix x :: rat
  assume x: "\<not> x \<le> 0" "x < 2 ^ 52"
  then have big: "2 < 2 ^ 53 / x" by (simp add: field_simps)
  show "(2 * x, x) \<in> measure binade_distance"
  proof (cases "2 * x < 2 ^ 52")
    case True
    then show ?thesis using floor_half_less [of "2 ^ 53 / x"] big x by (simp add: binade_distance_def)
  next
    case False
    have "binade_distance (2 * x) = 0" using False x by (simp add: binade_distance_def nat_le_iff floor_le_iff)
    moreover have "0 < binade_distance x" using big x by (simp add: binade_distance_def)
    ultimately show ?thesis by simp
  qed
next
  fix x :: rat
  assume x: "\<not> x \<le> 0" "\<not> x < 2 ^ 52" "2 ^ 53 \<le> x"
  then have "1 \<le> nat \<lfloor>x / 2 ^ 52 / 2\<rfloor>" by (simp add: le_nat_iff)
  then have "nat \<lfloor>x / 2 ^ 52 / 2\<rfloor> - 1 < nat \<lfloor>x / 2 ^ 52\<rfloor> - 1"
    using floor_half_less [of "x / 2 ^ 52"] x by (intro diff_less_mono) simp_all
  moreover have "x / 2 / 2 ^ 52 = x / 2 ^ 52 / 2" by simp
  ultimately show "(x / 2, x) \<in> measure binade_distance"
    using x by (simp only: in_measure binade_distance_def) simp
qed simp

declare round_pos.simps [simp del]

lemma round_pos_cases:
  "x \<le> 0 \<Longrightarrow> round_pos x = 0"
  "0 < x \<Longrightarrow> x < 2 ^ 52 \<Longrightarrow> round_pos x = round_pos (2 * x) / 2"
  "2 ^ 53 \<le> x \<Longrightarrow> round_pos x = 2 * round_pos (x / 2)"
  "2 ^ 52 \<le> x \<Longrightarrow> x < 2 ^ 53 \<Longrightarrow> round_pos x = of_int (half_even x)"
  by (simp_all add: round_pos.simps [of x])

text \<open>The result is within half a unit in the last place.\<close>

lemma round_pos_near: "0 < x \<Longrightarrow> \<bar>round_pos x - x\<bar> \<le> x / 2 ^ 53"
proof (induction x rule: round_pos.induct)
  case (1 x)
  consider "x < 2 ^ 52" | "2 ^ 53 \<le> x" | "2 ^ 52 \<le> x" "x < 2 ^ 53" by linarith
  then show ?case
  proof cases
    case 1
    then have "\<bar>round_pos (2 * x) - 2 * x\<bar> \<le> 2 * x / 2 ^ 53" using "1.IH"(1) "1.prems" by simp
    then show ?thesis using round_pos_cases(2) [of x] 1 "1.prems" by linarith
  next
    case 2
    then have "\<bar>round_pos (x / 2) - x / 2\<bar> \<le> x / 2 / 2 ^ 53" using "1.IH"(2) "1.prems" by simp
    then show ?thesis using round_pos_cases(3) [of x] 2 by linarith
  next
    case 3
    then have "round_pos x = of_int (half_even x)" by (rule round_pos_cases(4))
    moreover have "1 / 2 \<le> x / 2 ^ 53" using 3 by simp
    ultimately show ?thesis using half_even_near [of x] by linarith
  qed
qed

lemma round_pos_of_nat: "n < 2 ^ 53 \<Longrightarrow> round_pos (of_nat n) = of_nat n"
proof (induction "2 ^ 53 - n" arbitrary: n rule: less_induct)
  case less
  show ?case
  proof (cases "n = 0 \<or> 2 ^ 52 \<le> n")
    case True
    then show ?thesis
    proof
      assume "2 ^ 52 \<le> n"
      then have "(2 ^ 52 :: rat) \<le> of_nat n" "(of_nat n :: rat) < 2 ^ 53"
        using of_nat_mono [of "2 ^ 52" n, where 'a = rat] of_nat_less_iff [of n "2 ^ 53", where 'a = rat] less.prems
        by simp_all
      then show ?thesis using round_pos_cases(4) [of "of_nat n"] half_even_of_int [of "int n"] by simp
    qed (simp add: round_pos_cases(1))
  next
    case False
    then have n: "0 < n" "n < 2 ^ 52" by auto
    then have "(0 :: rat) < of_nat n" "(of_nat n :: rat) < 2 ^ 52"
      using of_nat_less_iff [of n "2 ^ 52", where 'a = rat] by simp_all
    moreover have "round_pos (of_nat (2 * n)) = of_nat (2 * n)" by (rule less.hyps) (use n in simp_all)
    ultimately show ?thesis using round_pos_cases(2) [of "of_nat n"] by simp
  qed
qed

definition double :: "rat \<Rightarrow> rat" where
  "double x = (if x < 0 then - round_pos (- x) else round_pos x)"

lemma double_near: "\<bar>double x - x\<bar> \<le> \<bar>x\<bar> / 2 ^ 53"
  using round_pos_near [of x] round_pos_near [of "- x"]
  by (cases x "0 :: rat" rule: linorder_cases) (auto simp: double_def round_pos_cases(1))

lemma double_of_nat: "n < 2 ^ 53 \<Longrightarrow> double (of_nat n) = of_nat n"
  by (simp add: double_def round_pos_of_nat)

text \<open>The rounding of a given number: its place among the floats, found by scaling it into the binade of the integers.\<close>

lemma round_pos_double: "0 < x \<Longrightarrow> round_pos (2 * x) = 2 * round_pos x"
  using round_pos_cases(2) [of x] round_pos_cases(3) [of "2 * x"] by (cases "x < 2 ^ 52") simp_all

lemma round_pos_scale: "0 < x \<Longrightarrow> round_pos (2 ^ k * x) = 2 ^ k * round_pos x"
  by (induction k) (simp_all add: round_pos_double mult.assoc)

lemma double_eqI:
  assumes "2 ^ 52 \<le> 2 ^ k * x" and "2 ^ k * x < 2 ^ 53" and "\<bar>2 ^ k * x - of_int n\<bar> < 1 / 2"
  shows "double x = of_int n / 2 ^ k"
proof -
  have "0 < 2 ^ k * x" using assms(1) by simp
  then have "0 < x" by (simp add: zero_less_mult_iff)
  then show ?thesis
    using round_pos_scale [of x k] round_pos_cases(4) [OF assms(1,2)] half_even_eqI [OF assms(3)]
    by (simp add: double_def field_simps)
qed

text \<open>
  \<open>round(x, 1)\<close> is the float nearest to a number of tenths; the model keeps that number, and \<open>tenth\<close> is the float.
\<close>

definition tenths :: "rat \<Rightarrow> int" where
  "tenths x = half_even (10 * x)"

definition tenth :: "int \<Rightarrow> rat" where
  "tenth n = double (of_int n / 10)"

lemma tenth_near: "\<bar>tenth n - of_int n / 10\<bar> \<le> \<bar>of_int n\<bar> / 10 / 2 ^ 53"
  using double_near [of "of_int n / 10"] by (simp add: tenth_def)

lemma tenths_eqI: "\<bar>10 * x - of_int n\<bar> < 1 / 2 \<Longrightarrow> tenths x = n"
  by (simp add: tenths_def half_even_eqI)

lemma tenths_near_eq: "\<bar>x - y\<bar> \<le> 1 / 1000 \<Longrightarrow> 10 * y = of_int n \<Longrightarrow> tenths x = n"
  by (rule tenths_eqI) linarith

lemma tenths_near: "\<bar>of_int (tenths x) - 10 * x\<bar> \<le> 1 / 2"
  using half_even_near [of "10 * x"] by (simp add: tenths_def)

lemma tenths_mono: "x \<le> y \<Longrightarrow> tenths x \<le> tenths y"
  by (simp add: tenths_def half_even_mono)

lemma rounded_range:
  fixes x :: rat
  assumes "\<bar>of_int n - x\<bar> \<le> 1 / 2 + 1 / 100000000000" and "0 \<le> x" and "x \<le> of_int m"
  shows "0 \<le> n \<and> n \<le> m"
proof -
  have "- 1 < (of_int n :: rat)" "(of_int n :: rat) < of_int (m + 1)" using assms unfolding of_int_add of_int_1 by linarith+
  then show ?thesis by linarith
qed

lemma double_difference_near:
  assumes "\<bar>x\<bar> \<le> 101" and "\<bar>y - x\<bar> \<le> e" and "e \<le> 1"
  shows "\<bar>double y - x\<bar> \<le> e + 1 / 10000000000000"
proof -
  have "\<bar>y\<bar> \<le> 102" using assms by linarith
  then have "\<bar>y\<bar> / 2 ^ 53 \<le> 102 / 2 ^ 53" by simp
  then have "\<bar>double y - y\<bar> \<le> 1 / 10000000000000" using double_near [of y] by simp
  with assms(2) show ?thesis by linarith
qed

lemma tenth_near_small: "\<bar>n\<bar> \<le> 1000 \<Longrightarrow> \<bar>tenth n - of_int n / 10\<bar> \<le> 1 / 1000000000000"
proof -
  assume "\<bar>n\<bar> \<le> 1000"
  then have "\<bar>of_int n :: rat\<bar> \<le> 1000" by (simp flip: of_int_abs)
  then show ?thesis using tenth_near [of n] by simp
qed

end
