(* ===== verification/Charts.thy ===== *)
theory Charts
  imports Dashboard Floats
begin

text \<open>
  The figures that \<^verbatim>\<open>gateway/api/routes_admin.py\<close> computes in floating point for its templates: the geometry of the
  three SVG charts of the dashboard, the two success rates, and the size of the database on the settings page. A value
  \<open>round(x, 1)\<close> is its number of tenths.
\<close>

section \<open>Geometry\<close>

definition CHART_WIDTH :: nat where "CHART_WIDTH = 480"
definition CHART_PLOT_HEIGHT :: nat where "CHART_PLOT_HEIGHT = 96"
definition DONUT_RADIUS :: nat where "DONUT_RADIUS = 40"
definition TREND_WIDTH :: nat where "TREND_WIDTH = 480"
definition TREND_PLOT :: nat where "TREND_PLOT = 92"

text \<open>\<open>count / peak * height\<close>\<close>

definition scaled :: "nat \<Rightarrow> nat \<Rightarrow> nat \<Rightarrow> rat" where
  "scaled count peak height = double (double (of_nat count / of_nat peak) * of_nat height)"

record bar_shape =
  bs_x :: int
  bs_width :: int
  bs_h_out :: int
  bs_y_out :: int
  bs_h_inb :: int
  bs_y_inb :: int

definition draw_bar :: "nat \<Rightarrow> nat \<Rightarrow> bar \<Rightarrow> bar_shape" where
  "draw_bar peak i b =
     (let slot = double (of_nat CHART_WIDTH / 24);
          h_out = tenths (scaled (bar_out b) peak CHART_PLOT_HEIGHT);
          h_inb = tenths (scaled (bar_inb b) peak CHART_PLOT_HEIGHT);
          above_out = double (of_nat CHART_PLOT_HEIGHT - tenth h_out)
      in \<lparr>bs_x = tenths (double (double (of_nat i * slot) + 2)), bs_width = tenths (double (slot - 4)),
          bs_h_out = h_out, bs_y_out = tenths above_out,
          bs_h_inb = h_inb, bs_y_inb = tenths (double (above_out - tenth h_inb))\<rparr>)"

definition draw_chart :: "bar list \<times> nat \<Rightarrow> bar_shape list" where
  "draw_chart chart = map (\<lambda>i. draw_bar (snd chart) i (fst chart ! i)) [0..<length (fst chart)]"

definition DONUT_CIRCUMFERENCE :: rat where
  "DONUT_CIRCUMFERENCE = double (double (2 * double (314159 / 100000)) * of_nat DONUT_RADIUS)"

record donut_segment =
  ds_status :: string
  ds_count :: nat
  ds_dash :: int
  ds_offset :: int

fun donut_segments :: "nat \<Rightarrow> rat \<Rightarrow> (string \<times> nat) list \<Rightarrow> donut_segment list" where
  "donut_segments whole offset [] = []"
| "donut_segments whole offset ((status, count) # counts) =
     (let dash = double (double (of_nat count / of_nat whole) * DONUT_CIRCUMFERENCE)
      in \<lparr>ds_status = status, ds_count = count, ds_dash = tenths dash, ds_offset = tenths (- offset)\<rparr> #
         donut_segments whole (double (offset + dash)) counts)"

definition draw_donut :: "nat \<times> (string \<times> nat) list \<Rightarrow> donut_segment list" where
  "draw_donut donut = donut_segments (fst donut) 0 (snd donut)"

record point_shape =
  ps_x :: int
  ps_y_out :: int
  ps_y_in :: int

definition trend_y :: "nat \<Rightarrow> nat \<Rightarrow> int" where
  "trend_y count peak = tenths (double (of_nat TREND_PLOT - scaled count peak (TREND_PLOT - 10)))"

definition draw_point :: "nat \<Rightarrow> nat \<Rightarrow> trend_point \<Rightarrow> point_shape" where
  "draw_point peak i p =
     \<lparr>ps_x = tenths (double (of_nat i * double (of_nat TREND_WIDTH / 6))),
      ps_y_out = trend_y (tp_out p) peak, ps_y_in = trend_y (tp_inb p) peak\<rparr>"

definition draw_trend :: "trend_point list \<times> nat \<Rightarrow> point_shape list" where
  "draw_trend trend = map (\<lambda>i. draw_point (snd trend) i (fst trend ! i)) [0..<length (fst trend)]"

text \<open>The text of a float with one decimal, where it is not negative, and the points of a polyline.\<close>

definition tenths_str :: "int \<Rightarrow> str" where
  "tenths_str n = nat_str (nat n div 10) @ [46] @ nat_str (nat n mod 10)"

definition polyline :: "(point_shape \<Rightarrow> int) \<Rightarrow> point_shape list \<Rightarrow> str" where
  "polyline y ps = concat (map (\<lambda>(i, p). (if i = 0 then [] else [32]) @ tenths_str (ps_x p) @ [44] @ tenths_str (y p))
     (zip [0..<length ps] ps))"

section \<open>Shares\<close>

text \<open>\<open>round(share / whole * 100)\<close>, or \<open>None\<close> where there is nothing to count.\<close>

definition percentage :: "nat \<Rightarrow> nat \<Rightarrow> int option" where
  "percentage share whole = (if whole = 0 then None else Some (half_even (scaled share whole 100)))"

definition success_rate :: "dashboard \<Rightarrow> int option" where
  "success_rate v = percentage (db_sent_total v) (db_sent_total v + db_failed_total v)"

definition webhook_rate :: "dashboard \<Rightarrow> int option" where
  "webhook_rate v = percentage (db_webhook_ok v) (db_webhook_ok v + db_webhook_failed v)"

text \<open>
  The information on the settings page; the size of the file is what the operating system reports, \<open>None\<close> for an
  \<open>OSError\<close>, and the shown size is its number of hundredths.
\<close>

record settings_figures =
  si_throttle :: int
  si_rate_limit :: int
  si_tz :: str
  si_db_size_mb :: "int option"
  si_message_count :: nat

definition settings_info :: "settings \<Rightarrow> nat option \<Rightarrow> database \<Rightarrow> settings_figures" where
  "settings_info st bytes d =
     \<lparr>si_throttle = st_messages_per_minute st, si_rate_limit = st_rate_limit_per_minute st, si_tz = st_tz st,
      si_db_size_mb = map_option (\<lambda>n. half_even (100 * double (of_nat n / 1048576))) bytes,
      si_message_count = length (messages d)\<rparr>"

section \<open>How exact the figures are\<close>

lemma scaled_near:
  assumes "count \<le> peak" and "height \<le> 100"
  shows "\<bar>scaled count peak height - of_nat height * (of_nat count / of_nat peak)\<bar> \<le> 1 / 1000000000000"
proof -
  let ?q = "of_nat count / of_nat peak :: rat" and ?h = "of_nat height :: rat"
  have q: "0 \<le> ?q" "?q \<le> 1" using assms(1) by (auto simp: divide_le_eq_1)
  have h: "0 \<le> ?h" "?h \<le> 100" using of_nat_mono [OF assms(2), where 'a = rat] by simp_all
  have dq: "\<bar>double ?q - ?q\<bar> \<le> 1 / 2 ^ 53"
    using double_near [of ?q] q by (auto simp: abs_if split: if_splits)
  have "double ?q * ?h - ?h * ?q = ?h * (double ?q - ?q)" by (simp add: algebra_simps)
  then have "\<bar>double ?q * ?h - ?h * ?q\<bar> = ?h * \<bar>double ?q - ?q\<bar>" by (simp add: abs_mult)
  also have "\<dots> \<le> 100 * (1 / 2 ^ 53)" using h dq by (intro mult_mono) auto
  finally have near: "\<bar>double ?q * ?h - ?h * ?q\<bar> \<le> 1 / 10000000000000" by simp
  have "?h * ?q \<le> 100 * 1" using q h by (intro mult_mono) auto
  moreover have "0 \<le> ?h * ?q" using q h by simp
  ultimately have "\<bar>?h * ?q\<bar> \<le> 101" by linarith
  from double_difference_near [OF this near] show ?thesis by (simp add: scaled_def)
qed

lemma tenths_scaled_near:
  assumes "count \<le> peak" and "height \<le> 100"
  shows "\<bar>of_int (tenths (scaled count peak height)) - 10 * (of_nat height * (of_nat count / of_nat peak) :: rat)\<bar> \<le>
    1 / 2 + 1 / 100000000000"
  using scaled_near [OF assms] tenths_near [of "scaled count peak height"] by linarith

lemma share_bounds: "count \<le> peak \<Longrightarrow> 0 \<le> (of_nat count / of_nat peak :: rat) \<and> (of_nat count / of_nat peak :: rat) \<le> 1"
  by (auto simp: divide_le_eq_1)

text \<open>A stacked bar: the tenths add up as the geometry does, although each value is rounded on its own.\<close>

lemma bar_stack:
  assumes "bar_out b + bar_inb b \<le> peak" and s: "s = draw_bar peak i b"
  shows "0 \<le> bs_h_out s \<and> 0 \<le> bs_h_inb s \<and> bs_y_out s + bs_h_out s = 960 \<and> bs_y_inb s + bs_h_inb s = bs_y_out s \<and>
    - 1 \<le> bs_y_inb s"
proof -
  let ?out = "of_nat (bar_out b) / of_nat peak :: rat" and ?inb = "of_nat (bar_inb b) / of_nat peak :: rat"
  obtain h k where h: "tenths (scaled (bar_out b) peak 96) = h" and k: "tenths (scaled (bar_inb b) peak 96) = k" by simp
  have near: "\<bar>of_int h - 960 * ?out\<bar> \<le> 1 / 2 + 1 / 100000000000" "\<bar>of_int k - 960 * ?inb\<bar> \<le> 1 / 2 + 1 / 100000000000"
    using tenths_scaled_near [of "bar_out b" peak 96] tenths_scaled_near [of "bar_inb b" peak 96] assms(1)
    unfolding h k by simp_all
  have share: "0 \<le> ?out" "0 \<le> ?inb" "?out + ?inb \<le> 1"
    using share_bounds [OF assms(1)] by (simp_all add: add_divide_distrib)
  have "960 * ?out \<le> of_int 960" "960 * ?inb \<le> of_int 960" "0 \<le> 960 * ?out" "0 \<le> 960 * ?inb"
    using share by linarith+
  then have range: "0 \<le> h \<and> h \<le> 960" "0 \<le> k \<and> k \<le> 960"
    using rounded_range [OF near(1)] rounded_range [OF near(2)] by blast+
  have "(of_int (h + k) :: rat) < 962" using near share(3) unfolding of_int_add by linarith
  then have top: "h + k \<le> 961" by linarith
  have tenth: "\<bar>tenth h - of_int h / 10\<bar> \<le> 1 / 1000000000000" "\<bar>tenth k - of_int k / 10\<bar> \<le> 1 / 1000000000000"
    using range tenth_near_small by simp_all
  have bounds: "(0 :: rat) \<le> of_int h" "(of_int h :: rat) \<le> 960" "(0 :: rat) \<le> of_int k" "(of_int k :: rat) \<le> 960"
    using range by simp_all
  have "\<bar>double (96 - tenth h) - (96 - of_int h / 10)\<bar> \<le> 1 / 1000000000000 + 1 / 10000000000000"
    by (rule double_difference_near) (use bounds tenth(1) in linarith)+
  then have above: "\<bar>double (96 - tenth h) - (96 - of_int h / 10)\<bar> \<le> 1 / 100000000000" by simp
  have below: "\<bar>double (double (96 - tenth h) - tenth k) - (96 - of_int h / 10 - of_int k / 10)\<bar> \<le>
      1 / 10000000000 + 1 / 10000000000000"
    by (rule double_difference_near) (use bounds above tenth(2) in linarith)+
  have "tenths (double (double (96 - tenth h) - tenth k)) = 960 - h - k"
    by (rule tenths_near_eq [OF order_trans [OF below]]) (simp_all add: algebra_simps)
  moreover have "tenths (double (96 - tenth h)) = 960 - h"
    by (rule tenths_near_eq [OF order_trans [OF above]]) (simp_all add: algebra_simps)
  ultimately show ?thesis
    using range top by (simp add: s draw_bar_def Let_def CHART_PLOT_HEIGHT_def h k)
qed

text \<open>A point of the trend lies in the plot, ten units below its top at the peak.\<close>

lemma trend_y_range:
  assumes "count \<le> peak"
  shows "100 \<le> trend_y count peak \<and> trend_y count peak \<le> 920"
proof -
  let ?q = "of_nat count / of_nat peak :: rat"
  have q: "0 \<le> ?q" "?q \<le> 1" using share_bounds [OF assms] by simp_all
  have "\<bar>scaled count peak 82 - of_nat 82 * ?q\<bar> \<le> 1 / 1000000000000" by (rule scaled_near [OF assms]) simp
  then have scaled: "\<bar>scaled count peak 82 - 82 * ?q\<bar> \<le> 1 / 1000000000000" by simp
  have near: "\<bar>double (92 - scaled count peak 82) - (92 - 82 * ?q)\<bar> \<le> 1 / 1000000000000 + 1 / 10000000000000"
    by (rule double_difference_near) (use q scaled in linarith)+
  have "\<bar>of_int (trend_y count peak) - 10 * double (92 - scaled count peak 82)\<bar> \<le> 1 / 2"
    using tenths_near [of "double (92 - scaled count peak 82)"] by (simp add: trend_y_def TREND_PLOT_def)
  then have "99 < (of_int (trend_y count peak) :: rat)" "(of_int (trend_y count peak) :: rat) < 921"
    using near q by linarith+
  then show ?thesis by linarith
qed

lemma trend_y_exact: "0 < peak \<Longrightarrow> trend_y peak peak = 100" "trend_y 0 peak = 920"
  using double_of_nat [of 1] double_of_nat [of 82] double_of_nat [of 10] double_of_nat [of 92] double_of_nat [of 0]
  by (simp_all add: trend_y_def scaled_def TREND_PLOT_def tenths_eqI)

text \<open>A percentage is the share, rounded.\<close>

lemma percentage_near:
  assumes "share \<le> whole" and "percentage share whole = Some r"
  shows "0 \<le> r \<and> r \<le> 100 \<and> \<bar>of_int r - 100 * (of_nat share / of_nat whole :: rat)\<bar> \<le> 1 / 2 + 1 / 100000000000"
proof -
  let ?q = "of_nat share / of_nat whole :: rat"
  have r: "r = half_even (scaled share whole 100)" using assms(2) by (auto simp: percentage_def split: if_splits)
  have q: "0 \<le> 100 * ?q" "100 * ?q \<le> of_int 100" using share_bounds [OF assms(1)] by simp_all
  have "\<bar>scaled share whole 100 - of_nat 100 * ?q\<bar> \<le> 1 / 1000000000000" by (rule scaled_near [OF assms(1)]) simp
  then have near: "\<bar>of_int r - 100 * ?q\<bar> \<le> 1 / 2 + 1 / 100000000000"
    using half_even_near [of "scaled share whole 100"] unfolding r of_nat_numeral by linarith
  from rounded_range [OF this q] near show ?thesis by simp
qed

lemma webhook_rate_near:
  assumes "webhook_rate v = Some r"
  shows "0 \<le> r \<and> r \<le> 100"
  using percentage_near [OF _ assms [unfolded webhook_rate_def]] by simp

section \<open>The dashboard\<close>

lemma list_max_ge: "x \<in> set ns \<Longrightarrow> x \<le> list_max ns"
proof -
  have "m \<le> fold max ns m \<and> (\<forall>x \<in> set ns. x \<le> fold max ns m)" for m
    by (induction ns arbitrary: m) (auto intro: order_trans simp: max_def split: if_splits, (metis linear order_trans)+)
  then show "x \<in> set ns \<Longrightarrow> x \<le> list_max ns" by (simp add: list_max_def)
qed

lemma count_rows_length: "count_rows slot rows counts = Inr counts' \<Longrightarrow> length counts' = length counts"
  by (induction slot rows counts rule: count_rows.induct) (auto split: sum.splits if_splits)

lemma activity_chart_peak:
  assumes "activity_chart z w = (Inr (bars, peak), w')"
  shows "length bars = 24 \<and> (\<forall>b \<in> set bars. bar_out b + bar_inb b \<le> peak)"
proof -
  let ?start = "chart_start (wall (env w) (tick (env w)))"
  obtain counts where counts: "count_rows (\<lambda>t. (t - ?start) div hour) (rows_since (iso ?start) (db w)) (replicate 24 (0, 0)) =
      Inr counts"
    and bars: "map (\<lambda>b. (bar_out b, bar_inb b)) bars = map (\<lambda>i. counts ! i) [0..<24]"
    and peak: "list_max (map (\<lambda>c. fst c + snd c) counts) \<le> peak"
    using assms
    by (auto simp: activity_chart_def now_utc_def Let_def map_sum_def comp_def split: sum.splits prod.splits)
  have "length counts = 24" using count_rows_length [OF counts] by simp
  then have counts_bars: "map (\<lambda>b. (bar_out b, bar_inb b)) bars = counts"
    unfolding bars by (intro nth_equalityI) simp_all
  have "bar_out b + bar_inb b \<le> peak" if "b \<in> set bars" for b
  proof -
    have "(bar_out b, bar_inb b) \<in> set counts" using that unfolding counts_bars [symmetric] by force
    then have "bar_out b + bar_inb b \<in> set (map (\<lambda>c. fst c + snd c) counts)" by force
    from list_max_ge [OF this] peak show ?thesis by simp
  qed
  moreover have "length bars = 24" using counts_bars \<open>length counts = 24\<close> by (metis length_map)
  ultimately show ?thesis by blast
qed

lemma daily_trend_peak:
  assumes "daily_trend z w = (Inr (points, peak), w')"
  shows "length points = 7 \<and> (\<forall>p \<in> set points. tp_out p \<le> peak \<and> tp_inb p \<le> peak)"
proof -
  let ?days = "map (\<lambda>offset. midnight (zn_local z (wall (env w) (tick (env w)))) - int offset * day) (rev [0..<7])"
  obtain counts where counts: "count_rows (\<lambda>t. zn_local z t div day - hd ?days div day)
      (rows_since (iso (zn_utc z (hd ?days))) (db w)) (replicate 7 (0, 0)) = Inr counts"
    and points: "map (\<lambda>p. (tp_out p, tp_inb p)) points = map (\<lambda>i. counts ! i) [0..<7]"
    and peak: "peak = Max {list_max (map fst counts), list_max (map snd counts), 1}"
    using assms
    by (auto simp: daily_trend_def now_utc_def Let_def map_sum_def comp_def split: sum.splits prod.splits)
  have len: "length counts = 7" using count_rows_length [OF counts] by simp
  then have counts_points: "map (\<lambda>p. (tp_out p, tp_inb p)) points = counts"
    unfolding points by (intro nth_equalityI) simp_all
  have "tp_out p \<le> peak \<and> tp_inb p \<le> peak" if "p \<in> set points" for p
  proof -
    have "(tp_out p, tp_inb p) \<in> set counts" using that unfolding counts_points [symmetric] by force
    then have "tp_out p \<in> set (map fst counts)" "tp_inb p \<in> set (map snd counts)" by force+
    then show ?thesis using list_max_ge unfolding peak by (meson Max_ge finite.intros insertCI order_trans)
  qed
  moreover have "length points = 7" using counts_points len by (metis length_map)
  ultimately show ?thesis by blast
qed

lemma dashboard_parts:
  fixes w :: "'d world"
  assumes "dashboard_context z w = (Inr v, w')"
  shows "\<exists>(w1 :: 'd world) (w2 :: 'd world) w3. activity_chart z w1 = (Inr (db_chart v), w2) \<and> daily_trend z w2 = (Inr (db_trend v), w3)"
proof -
  obtain today w1 where today: "today_bounds_utc z w = (today, w1)" by fastforce
  obtain c w2 where chart: "activity_chart z w1 = (c, w2)" by (cases "activity_chart z w1")
  obtain t w3 where trend: "daily_trend z w2 = (t, w3)" by (cases "daily_trend z w2")
  have "v = dashboard_figures today (db w3) (projr c) (projr t) \<and> c = Inr (projr c) \<and> t = Inr (projr t)"
    using assms by (auto simp: dashboard_context_def today chart trend split: sum.splits)
  then have "c = Inr (db_chart v)" "t = Inr (db_trend v)" by (simp_all add: dashboard_figures_def)
  with chart trend show ?thesis by blast
qed

definition stacked :: "bar_shape \<Rightarrow> bool" where
  "stacked s \<longleftrightarrow> 0 \<le> bs_h_out s \<and> 0 \<le> bs_h_inb s \<and> bs_y_out s + bs_h_out s = 960 \<and>
     bs_y_inb s + bs_h_inb s = bs_y_out s \<and> - 1 \<le> bs_y_inb s"

definition in_plot :: "point_shape \<Rightarrow> bool" where
  "in_plot p \<longleftrightarrow> 100 \<le> ps_y_out p \<and> ps_y_out p \<le> 920 \<and> 100 \<le> ps_y_in p \<and> ps_y_in p \<le> 920"

lemma draw_chart_stacked:
  assumes "activity_chart z w = (Inr chart, w')"
  shows "length (draw_chart chart) = 24 \<and> list_all stacked (draw_chart chart)"
proof -
  obtain bars peak where chart: "chart = (bars, peak)" by fastforce
  have bars: "length bars = 24" "\<And>i. i < 24 \<Longrightarrow> bar_out (bars ! i) + bar_inb (bars ! i) \<le> peak"
    using activity_chart_peak [OF assms [unfolded chart]] by simp_all
  have "stacked (draw_bar peak i (bars ! i))" if "i < 24" for i
    using bar_stack [OF bars(2) [OF that] refl, of i] by (simp add: stacked_def)
  then show ?thesis using bars(1) by (simp add: chart draw_chart_def list_all_iff)
qed

lemma draw_trend_in_plot:
  assumes "daily_trend z w = (Inr trend, w')"
  shows "length (draw_trend trend) = 7 \<and> list_all in_plot (draw_trend trend)"
proof -
  obtain points peak where trend: "trend = (points, peak)" by fastforce
  have points: "length points = 7" "\<And>i. i < 7 \<Longrightarrow> tp_out (points ! i) \<le> peak \<and> tp_inb (points ! i) \<le> peak"
    using daily_trend_peak [OF assms [unfolded trend]] by simp_all
  have "in_plot (draw_point peak i (points ! i))" if "i < 7" for i
    using points(2) [OF that] trend_y_range by (simp add: in_plot_def draw_point_def)
  then show ?thesis using points(1) by (simp add: trend draw_trend_def list_all_iff)
qed



text \<open>
  The tenth is not a slip of the proof: nine sent and 631 received messages in the busiest hour draw a bar that starts a
  tenth above the plot.
\<close>

lemma bar_above_plot: "bs_y_inb (draw_bar 640 i \<lparr>bar_out = 9, bar_inb = 631, bar_label = l, bar_show_label = b\<rparr>) = - 1"
proof -
  have "double (9 / 640) = of_int 8106479329266893 / 2 ^ 59"
    by (rule double_eqI) simp_all
  then have "scaled 9 640 96 = double (of_int 8106479329266893 / 2 ^ 59 * 96)" by (simp only: scaled_def of_nat_numeral)
  also have "\<dots> = of_int 6079859496950170 / 2 ^ 52" by (rule double_eqI) simp_all
  finally have out: "tenths (scaled 9 640 96) = 14" by (intro tenths_eqI) simp
  have "double (631 / 640) = of_int 8880535515221197 / 2 ^ 53"
    by (rule double_eqI) simp_all
  then have "scaled 631 640 96 = double (of_int 8880535515221197 / 2 ^ 53 * 96)" by (simp only: scaled_def of_nat_numeral)
  also have "\<dots> = of_int 6660401636415898 / 2 ^ 46" by (rule double_eqI) simp_all
  finally have inb: "tenths (scaled 631 640 96) = 947" by (intro tenths_eqI) simp
  show ?thesis
    using bar_stack [of "\<lparr>bar_out = 9, bar_inb = 631, bar_label = l, bar_show_label = b\<rparr>" 640 _ i, OF _ refl]
    by (simp add: draw_bar_def Let_def CHART_PLOT_HEIGHT_def out inb)
qed

end
