(* ===== verification/Backup.thy ===== *)
theory Backup
  imports Admin
begin

text \<open>
  \<open>download_backup\<close> of \<^verbatim>\<open>gateway/api/routes_admin.py\<close>: the copy of the database in a temporary file. The copies
  that lie in the directory of temporary files are the state; whether SQLite opens the two files is the parameter
  \<open>connect\<close>, what its backup writes or raises the parameter \<open>backup\<close>, and the name \<open>mkstemp\<close> draws
  is one that no file has.
\<close>

type_synonym temp_files = "str \<rightharpoonup> bytes"

record file_response =
  fr_path :: str
  fr_filename :: str
  fr_no_store :: bool

text \<open>\<open>strftime("%Y%m%d-%H%M%S")\<close>\<close>

definition compact_stamp :: "datetime \<Rightarrow> str" where
  "compact_stamp t =
     (case ymd (seconds t div 86400) of (y, m, d) \<Rightarrow>
        case clock_fields (seconds t mod 86400) of (hh, mm, ss) \<Rightarrow>
          dig4 y @ dig2 m @ dig2 d @ [45] @ dig2 hh @ dig2 mm @ dig2 ss)"

definition download_backup ::
  "exn option \<Rightarrow> (database \<Rightarrow> exn + bytes) \<Rightarrow> str \<Rightarrow> temp_files \<Rightarrow> 'd world \<Rightarrow> (exn + file_response) \<times> temp_files \<times> 'd world" where
  "download_backup connect backup tmp files w =
     (let files1 = files(tmp \<mapsto> [])
      in case connect of
           Some x \<Rightarrow> (Inl x, files1, w)
         | None \<Rightarrow>
             (case backup (db w) of
                Inl x \<Rightarrow> (Inl x, files1(tmp := None), w)
              | Inr copy \<Rightarrow>
                  (case now_utc w of (now, w1) \<Rightarrow>
                     (Inr \<lparr>fr_path = tmp,
                        fr_filename = lit ''gateway-backup-'' @ compact_stamp now @ lit ''.db'',
                        fr_no_store = True\<rparr>, files1(tmp \<mapsto> copy), w1))))"

text \<open>The response serves the copy and then runs its background task.\<close>

definition serve_file :: "file_response \<Rightarrow> temp_files \<Rightarrow> bytes option \<times> temp_files" where
  "serve_file response files = (files (fr_path response), files(fr_path response := None))"

text \<open>
  Whether the backup fails or is served, no copy of the database stays behind. Only where SQLite cannot open a file
  does the temporary file outlive the request, and it is empty.
\<close>

lemma no_copy_left:
  assumes "files tmp = None"
  shows "case download_backup None backup tmp files w of
      (Inl x, files', w') \<Rightarrow> files' = files \<and> w' = w \<and> backup (db w) = Inl x
    | (Inr response, files', w') \<Rightarrow> db w' = db w \<and>
        (\<exists>copy. backup (db w) = Inr copy \<and> serve_file response files' = (Some copy, files))"
proof -
  have "files(tmp := None) = files" using assms by auto
  then show ?thesis
    by (auto simp: download_backup_def serve_file_def Let_def now_utc_def split: sum.splits)
qed

lemma unopened_leaves_empty_file:
  "download_backup (Some x) backup tmp files w = (Inl x, files(tmp \<mapsto> []), w)"
  by (simp add: download_backup_def)

end
