(* ===== verification/Startup.thy ===== *)
theory Startup
  imports Admin
begin

text \<open>
  How the two processes come up: the lifespan of \<^verbatim>\<open>gateway/api/main.py\<close> and \<open>run\<close> with its \<open>__main__\<close> guard in
  \<^verbatim>\<open>gateway/worker/main.py\<close>. Both load the settings and migrate the database, each on its own; \<open>loaded\<close> is what
  \<open>get_settings\<close> returned. The rows \<open>w\<close> that the worker starts on are those of the migrated database, which the scripts of
  the repository leave alone.
\<close>

definition LOGIN_ATTEMPTS_PER_MINUTE :: int where "LOGIN_ATTEMPTS_PER_MINUTE = 10"

definition start_api ::
  "settings option \<Rightarrow> str + settings \<Rightarrow> (str \<Rightarrow> 's \<Rightarrow> exn option \<times> 's) \<Rightarrow> (int \<Rightarrow> str) \<Rightarrow> (str \<times> str) list \<Rightarrow>
   's migrated \<Rightarrow> (exn + app) \<times> 's migrated" where
  "start_api passed loaded exec clock dir m =
     (case (case passed of Some st \<Rightarrow> Inr st | None \<Rightarrow> loaded) of
        Inl reason \<Rightarrow> (Inl (OtherError (lit ''ConfigError'') reason), m)
      | Inr st \<Rightarrow>
          (case run_migrations exec clock dir m of
             (Inl x, m1) \<Rightarrow> (Inl x, m1)
           | (Inr _, m1) \<Rightarrow>
               (Inr \<lparr>app_settings = st, app_rate_limiter = new_limiter (st_rate_limit_per_minute st),
                  app_login_limiter = new_limiter LOGIN_ATTEMPTS_PER_MINUTE\<rparr>, m1)))"

text \<open>A process is up, ends with an exit code, or dies of an exception.\<close>

datatype 'a startup = Started 'a | ExitCode nat | Died exn

text \<open>The worker starts with the fake driver or the real one.\<close>

definition start_worker_process ::
  "str + settings \<Rightarrow> (str \<Rightarrow> 's \<Rightarrow> exn option \<times> 's) \<Rightarrow> (int \<Rightarrow> str) \<Rightarrow> (str \<times> str) list \<Rightarrow> 's migrated \<Rightarrow> 'd world \<Rightarrow>
   (bool \<times> worker) startup \<times> 's migrated \<times> 'd world" where
  "start_worker_process loaded exec clock dir m w =
     (case loaded of
        Inl reason \<Rightarrow> (ExitCode 2, m, w)
      | Inr st \<Rightarrow>
          (case run_migrations exec clock dir m of
             (Inl x, m1) \<Rightarrow> (Died x, m1, w)
           | (Inr _, m1) \<Rightarrow>
               (case start_worker (nat (st_messages_per_minute st)) w of
                  (s, w1) \<Rightarrow> (Started (st_modem_fake st, s), m1, w1))))"

section \<open>One process after the other\<close>

text \<open>A process that is up has all scripts of its directory recorded, and the other executes none of them again.\<close>

lemma second_process_migrates_nothing:
  assumes "start_api passed loaded exec clock dir m = (Inr app, m')"
  shows "\<exists>s w1. start_worker_process (Inr st) exec clock dir m' w = (Started (st_modem_fake st, s), m', w1)"
proof -
  obtain versions where "run_migrations exec clock dir m = (Inr versions, m')"
    using assms by (auto simp: start_api_def split: sum.splits option.splits prod.splits)
  then have "run_migrations exec clock dir m' = (Inr [], m')"
    unfolding run_migrations_def [of _ _ _ m'] by (intro migrate_done ballI) (rule migrated_recorded)
  then show ?thesis by (simp add: start_worker_process_def split: prod.split)
qed

lemma settings_error_stops_both:
  "start_api None (Inl reason) exec clock dir m = (Inl (OtherError (lit ''ConfigError'') reason), m)"
  "start_worker_process (Inl reason) exec clock dir m w = (ExitCode 2, m, w)"
  by (simp_all add: start_api_def start_worker_process_def)

section \<open>Both at once, and an interrupted script\<close>

text \<open>
  The two processes do not exclude each other: one that read the recorded versions before the other had recorded its
  scripts executes a script a second time, and dies of it.
\<close>

lemma apply_script_recorded:
  "v \<in> fst ` set (mg_versions m) \<Longrightarrow> \<exists>x m1. apply_script exec now v script m = (Some x, m1)"
  by (auto simp: apply_script_def split: prod.split option.split)

lemma migrate_repeated:
  assumes "pending applied scripts \<noteq> []"
    and "\<forall>s \<in> set scripts. \<exists>v. script_version (fst s) = Inr v"
    and "\<forall>s \<in> set (pending applied scripts). projr (script_version (fst s)) \<in> fst ` set (mg_versions m)"
  shows "\<exists>x m1. migrate exec clock applied scripts m = (Inl x, m1)"
  using assms
proof (induction scripts)
  case (Cons script scripts)
  then obtain v where v: "script_version (fst script) = Inr v" by auto
  show ?case
  proof (cases "v \<in> applied")
    case True
    then show ?thesis using Cons v by (simp add: pending_def)
  next
    case False
    then have "v \<in> fst ` set (mg_versions m)" using Cons.prems(3) v by (simp add: pending_def)
    from apply_script_recorded [OF this, of exec "clock v" script] show ?thesis using v False by fastforce
  qed
qed (simp add: pending_def)

lemma concurrent_start_fails:
  assumes "run_migrations exec clock dir m = (Inr versions, m')" and "versions \<noteq> []"
  shows "\<exists>x m1. migrate exec clock (fst ` set (mg_versions m)) (scripts_of dir) m' = (Inl x, m1)"
proof (rule migrate_repeated)
  have result: "migrate exec clock (fst ` set (mg_versions m)) (scripts_of dir) m = (Inr versions, m')"
    using assms(1) by (simp add: run_migrations_def)
  show "pending (fst ` set (mg_versions m)) (scripts_of dir) \<noteq> []"
    using migrate_result(1) [OF result] assms(2) by auto
  show "\<forall>s \<in> set (scripts_of dir). \<exists>v. script_version (fst s) = Inr v" by (rule migrate_result(3) [OF result])
  show "\<forall>s \<in> set (pending (fst ` set (mg_versions m)) (scripts_of dir)).
      projr (script_version (fst s)) \<in> fst ` set (mg_versions m')"
    using migrated_recorded [OF assms(1)] by (force simp: pending_def)
qed

text \<open>
  A script that fails half-way keeps what it has done and is not recorded: the next start executes it again, on
  the schema it left. A script that creates a table unconditionally then fails at every start.
\<close>

lemma interrupted_script_repeated:
  assumes "run_migrations exec clock dir \<lparr>mg_versions = vs, mg_schema = s\<rparr> = (Inl x, m')"
    and "scripts_of dir = script # scripts" and "script_version (fst script) = Inr v" and "v \<notin> fst ` set vs"
    and "exec (snd script) s = (Some x, s')" and "\<exists>y. exec (snd script) s' = (Some y, s')"
  shows "m' = \<lparr>mg_versions = vs, mg_schema = s'\<rparr> \<and> (\<exists>y. run_migrations exec clock' dir m' = (Inl y, m'))"
  using assms by (auto simp: run_migrations_def apply_script_def)

end
