(* ===== verification/Logs.thy ===== *)
theory Logs
  imports Encoding Clock
begin

text \<open>
  \<^verbatim>\<open>gateway/shared/logs.py\<close>: the line that a log record becomes, and the handlers of the root logger. The text of a
  record and of its traceback, which the standard library formats, are fields of the record.
\<close>

record log_record =
  lr_created :: datetime
  lr_level :: str
  lr_logger :: str
  lr_message :: str
  lr_exception :: "str option"

definition log_entry :: "log_record \<Rightarrow> (str \<times> str) list" where
  "log_entry r =
     [(lit ''ts'', iso (lr_created r)), (lit ''level'', lr_level r), (lit ''logger'', lr_logger r),
      (lit ''message'', lr_message r)] @
     (case lr_exception r of None \<Rightarrow> [] | Some s \<Rightarrow> [(lit ''exc'', s)])"

text \<open>\<open>json.dumps\<close> of a flat object of texts with the default separators.\<close>

fun spaced_members :: "(str \<times> str) list \<Rightarrow> str" where
  "spaced_members [] = []"
| "spaced_members [(k, v)] = json_string k @ [58, 32] @ json_string v"
| "spaced_members ((k, v) # kv # kvs) = json_string k @ [58, 32] @ json_string v @ [44, 32] @ spaced_members (kv # kvs)"

definition format_record :: "log_record \<Rightarrow> str" where
  "format_record r = [123] @ spaced_members (log_entry r) @ [125]"

text \<open>A record is one line, whatever its message and its traceback contain.\<close>

lemma json_string_printable: "c \<in> set (json_string s) \<Longrightarrow> 32 \<le> c"
proof -
  have "32 \<le> d" if "d \<in> set (json_char c)" for c d
    using that by (auto simp: json_char_def hex_digit_def split: if_splits)
  then show "c \<in> set (json_string s) \<Longrightarrow> 32 \<le> c"
    by (auto simp: json_string_def)
qed

lemma spaced_members_printable: "c \<in> set (spaced_members kvs) \<Longrightarrow> 32 \<le> c"
  by (induction kvs rule: spaced_members.induct) (auto dest: json_string_printable)

lemma record_is_one_line: "10 \<notin> set (format_record r)" "13 \<notin> set (format_record r)"
  by (auto simp: format_record_def dest: spaced_members_printable)

section \<open>The root logger\<close>

datatype formatter = JsonFormatter | OtherFormatter nat

record root_logger =
  lg_level :: nat
  lg_handlers :: "formatter list"

definition setup_logging :: "nat \<Rightarrow> root_logger \<Rightarrow> root_logger" where
  "setup_logging level lg =
     lg\<lparr>lg_level := level, lg_handlers := filter (\<lambda>f. f \<noteq> JsonFormatter) (lg_handlers lg) @ [JsonFormatter]\<rparr>"

lemma setup_logging_idempotent: "setup_logging level (setup_logging level lg) = setup_logging level lg"
  by (simp add: setup_logging_def)

lemma setup_logging_handlers:
  "length (filter (\<lambda>f. f = JsonFormatter) (lg_handlers (setup_logging level lg))) = 1"
  "filter (\<lambda>f. f \<noteq> JsonFormatter) (lg_handlers (setup_logging level lg)) = filter (\<lambda>f. f \<noteq> JsonFormatter) (lg_handlers lg)"
  by (simp_all add: setup_logging_def filter_empty_conv)

end
