(* ===== verification/Markdown.thy ===== *)
theory Markdown
  imports Encoding
begin

text \<open>
  \<^verbatim>\<open>gateway/shared/markdown.py\<close>: the renderer of the built-in manual. Each regular expression of the module
  is a matcher written out with the order in which Python's engine tries its alternatives and
  repetitions. The position in the text or in the list of lines is the part that is left of it. The tables of
  the Unicode database that the code reaches through \<open>\w\<close>, \<open>\d\<close> and \<open>str.lower\<close> are the parameter \<open>unicode\<close>.
\<close>

record unicode =
  uc_word :: "nat \<Rightarrow> bool"
  uc_digit :: "nat \<Rightarrow> bool"
  uc_lower :: "str \<Rightarrow> str"

type_synonym link_resolver = "(str \<Rightarrow> str) option"

definition nl :: str where "nl = [10]"

definition split_char :: "nat \<Rightarrow> str \<Rightarrow> str list" where
  "split_char c s = foldr (\<lambda>x acc. if x = c then [] # acc else (x # hd acc) # tl acc) s [[]]"

fun join_str :: "str \<Rightarrow> str list \<Rightarrow> str" where
  "join_str sep [] = []"
| "join_str sep [x] = x"
| "join_str sep (x # y # xs) = x @ sep @ join_str sep (y # xs)"

definition strip_prefix :: "str \<Rightarrow> str \<Rightarrow> str option" where
  "strip_prefix p s = (if starts_with p s then Some (drop (length p) s) else None)"

definition strip_chars :: "nat \<Rightarrow> str \<Rightarrow> str" where
  "strip_chars c s = rev (dropWhile (\<lambda>x. x = c) (rev (dropWhile (\<lambda>x. x = c) s)))"

section \<open>Escaping, links and slugs\<close>

text \<open>\<open>html.escape\<close> replaces \<open>&\<close> first, so that it works character by character.\<close>

definition escape_char :: "bool \<Rightarrow> nat \<Rightarrow> str" where
  "escape_char quote c =
     (if c = 38 then lit ''&amp;'' else if c = 60 then lit ''&lt;'' else if c = 62 then lit ''&gt;''
      else if quote \<and> c = 34 then lit ''&quot;'' else if quote \<and> c = 39 then lit ''&#x27;'' else [c])"

definition text_escape :: "str \<Rightarrow> str" where
  "text_escape s = concat (map (escape_char False) s)"

definition attr_escape :: "str \<Rightarrow> str" where
  "attr_escape s = concat (map (escape_char True) s)"

definition SAFE_LINK_SCHEMES :: "str list" where
  "SAFE_LINK_SCHEMES = [lit ''http://'', lit ''https://'', lit ''mailto:'']"

definition safe_href :: "str \<Rightarrow> str" where
  "safe_href href =
     (if list_ex (\<lambda>p. starts_with p href) ([lit ''#'', lit ''/''] @ SAFE_LINK_SCHEMES) then href else lit ''#'')"

text \<open>\<open>re.sub(r"[^a-z0-9]+", "-", s)\<close>: one hyphen for each run of other characters.\<close>

definition slug_char :: "nat \<Rightarrow> bool" where
  "slug_char c \<longleftrightarrow> 97 \<le> c \<and> c \<le> 122 \<or> 48 \<le> c \<and> c \<le> 57"

fun hyphenate :: "bool \<Rightarrow> str \<Rightarrow> str" where
  "hyphenate in_run [] = []"
| "hyphenate in_run (c # cs) =
     (if slug_char c then c # hyphenate False cs
      else if in_run then hyphenate True cs else 45 # hyphenate True cs)"

definition slugify :: "unicode \<Rightarrow> str \<Rightarrow> str" where
  "slugify uc s =
     (let slug = strip_chars 45 (hyphenate False (uc_lower uc s))
      in if slug \<noteq> [] then slug else lit ''section'')"

section \<open>Inline markup\<close>

text \<open>
  \<open>.*?\<close> followed by \<open>fin\<close>: the shortest skip after which \<open>fin\<close> matches. The result is the text up to the end
  of what \<open>fin\<close> keeps, and the rest.
\<close>

fun lazy_any :: "(str \<Rightarrow> (str \<times> str) option) \<Rightarrow> str \<Rightarrow> (str \<times> str) option" where
  "lazy_any fin s =
     (case fin s of
        Some r \<Rightarrow> Some r
      | None \<Rightarrow> (case s of [] \<Rightarrow> None | c # cs \<Rightarrow> map_option (apfst ((#) c)) (lazy_any fin cs)))"

declare lazy_any.simps [simp del]

definition nothing_then :: "(str \<Rightarrow> str option) \<Rightarrow> str \<Rightarrow> (str \<times> str) option" where
  "nothing_then fin s = map_option (Pair []) (fin s)"

definition nonspace_then :: "(str \<Rightarrow> str option) \<Rightarrow> str \<Rightarrow> (str \<times> str) option" where
  "nonspace_then fin s =
     (case s of [] \<Rightarrow> None | d # ds \<Rightarrow> if py_space d then None else map_option (Pair [d]) (fin ds))"

text \<open>\<open>(`+)(.+?)\1\<close>, from the longest run of back-ticks down.\<close>

fun code_match :: "nat \<Rightarrow> str \<Rightarrow> (str \<times> str) option" where
  "code_match 0 s = None"
| "code_match (Suc n) s =
     (case drop (Suc n) s of
        [] \<Rightarrow> code_match n s
      | c # cs \<Rightarrow>
          (case lazy_any (nothing_then (strip_prefix (replicate (Suc n) 96))) cs of
             Some (code, rest) \<Rightarrow> Some (c # code, rest)
           | None \<Rightarrow> code_match n s))"

text \<open>\<open>\S(?:.*?\S)?\<close> followed by \<open>fin\<close>: the longer form is tried first.\<close>

definition emphasized :: "(str \<Rightarrow> str option) \<Rightarrow> str \<Rightarrow> (str \<times> str) option" where
  "emphasized fin s =
     (case s of
        [] \<Rightarrow> None
      | c # cs \<Rightarrow>
          if py_space c then None
          else (case lazy_any (nonspace_then fin) cs of
                  Some (content, rest) \<Rightarrow> Some (c # content, rest)
                | None \<Rightarrow> map_option (Pair [c]) (fin cs)))"

text \<open>A closing mark that no character of the class follows.\<close>

definition closing :: "str \<Rightarrow> (nat \<Rightarrow> bool) \<Rightarrow> str \<Rightarrow> str option" where
  "closing mark bad s =
     (case strip_prefix mark s of
        None \<Rightarrow> None
      | Some rest \<Rightarrow> (case rest of [] \<Rightarrow> Some rest | c # _ \<Rightarrow> if bad c then None else Some rest))"

datatype inline = Code str | Link str str | Autolink str | Strong str | Em str

definition link_match :: "str \<Rightarrow> (inline \<times> str) option" where
  "link_match s =
     (case strip_prefix (lit ''['') s of
        None \<Rightarrow> None
      | Some s1 \<Rightarrow>
          (case strip_prefix (lit '']('') (dropWhile (\<lambda>c. c \<noteq> 93) s1) of
             None \<Rightarrow> None
           | Some s2 \<Rightarrow>
               (case strip_prefix (lit '')'') (dropWhile (\<lambda>c. c \<noteq> 41 \<and> \<not> py_space c) s2) of
                  None \<Rightarrow> None
                | Some s3 \<Rightarrow>
                    Some (Link (takeWhile (\<lambda>c. c \<noteq> 93) s1) (takeWhile (\<lambda>c. c \<noteq> 41 \<and> \<not> py_space c) s2), s3))))"

definition autolink_match :: "str \<Rightarrow> (inline \<times> str) option" where
  "autolink_match s =
     (case strip_prefix (lit ''<'') s of
        None \<Rightarrow> None
      | Some s1 \<Rightarrow>
          (let url = takeWhile (\<lambda>c. c \<noteq> 62 \<and> \<not> py_space c) s1;
               prefixes = filter (\<lambda>p. starts_with p s1) SAFE_LINK_SCHEMES
           in case (prefixes, strip_prefix (lit ''>'') (drop (length url) s1)) of
                (p # _, Some s2) \<Rightarrow> if length p < length url then Some (Autolink url, s2) else None
              | _ \<Rightarrow> None))"

definition strong_match :: "str \<Rightarrow> (inline \<times> str) option" where
  "strong_match s =
     (case strip_prefix (lit ''**'') s of
        None \<Rightarrow> None
      | Some s1 \<Rightarrow> map_option (apfst Strong) (emphasized (strip_prefix (lit ''**'')) s1))"

text \<open>An emphasis mark with the class of characters that may stand on neither side.\<close>

definition em_match :: "str \<Rightarrow> (nat \<Rightarrow> bool) \<Rightarrow> nat option \<Rightarrow> str \<Rightarrow> (inline \<times> str) option" where
  "em_match mark bad prev s =
     (if (case prev of None \<Rightarrow> False | Some c \<Rightarrow> bad c) then None
      else (case strip_prefix mark s of
              None \<Rightarrow> None
            | Some s1 \<Rightarrow> map_option (apfst Em) (emphasized (closing mark bad) s1)))"

fun first_of :: "'a option list \<Rightarrow> 'a option" where
  "first_of [] = None"
| "first_of (x # xs) = (case x of None \<Rightarrow> first_of xs | Some v \<Rightarrow> Some v)"

text \<open>\<open>_INLINE_RE\<close> at one position, with the character before it.\<close>

definition inline_match :: "unicode \<Rightarrow> nat option \<Rightarrow> str \<Rightarrow> (inline \<times> str) option" where
  "inline_match uc prev s = first_of
     [map_option (apfst Code) (code_match (length (takeWhile (\<lambda>c. c = 96) s)) s),
      link_match s, autolink_match s, strong_match s,
      em_match (lit ''*'') (\<lambda>c. uc_word uc c \<or> c = 42) prev s,
      em_match (lit ''_'') (uc_word uc) prev s]"

text \<open>What a match has inside, and that everything a match leaves is shorter.\<close>

fun inside :: "inline \<Rightarrow> str" where
  "inside (Code s) = s"
| "inside (Link label href) = label"
| "inside (Autolink s) = s"
| "inside (Strong s) = s"
| "inside (Em s) = s"

lemma strip_prefix_length: "strip_prefix p s = Some r \<Longrightarrow> length s = length p + length r"
proof -
  assume "strip_prefix p s = Some r"
  then have "take (length p) s = p" "r = drop (length p) s"
    by (auto simp: strip_prefix_def starts_with_def split: if_splits)
  then show ?thesis by (metis append_take_drop_id length_append)
qed

definition shrinks :: "(str \<Rightarrow> (str \<times> str) option) \<Rightarrow> bool" where
  "shrinks f \<longleftrightarrow> (\<forall>s a r. f s = Some (a, r) \<longrightarrow> length a + length r \<le> length s)"

lemma lazy_any_shrinks:
  assumes "shrinks fin"
  shows "shrinks (lazy_any fin)"
proof -
  have "lazy_any fin s = Some (a, r) \<Longrightarrow> length a + length r \<le> length s" for s a r
  proof (induction s arbitrary: a)
    case Nil
    then have "fin [] = Some (a, r)" by (simp add: lazy_any.simps split: option.splits)
    then show ?case using assms unfolding shrinks_def by blast
  next
    case (Cons c cs)
    then show ?case
      using assms by (auto simp: lazy_any.simps [of fin "c # cs"] shrinks_def split: option.splits)
        fastforce+
  qed
  then show ?thesis by (simp add: shrinks_def)
qed

lemma then_shrinks:
  assumes "\<And>s r. fin s = Some r \<Longrightarrow> length r \<le> length s"
  shows "shrinks (nothing_then fin)" "shrinks (nonspace_then fin)"
  using assms by (auto simp: shrinks_def nothing_then_def nonspace_then_def split: list.splits if_splits)

lemma emphasized_shrinks:
  assumes "\<And>s r. fin s = Some r \<Longrightarrow> length r \<le> length s"
  shows "shrinks (emphasized fin)"
  using lazy_any_shrinks [OF then_shrinks(2) [of fin]] assms
  by (auto simp: shrinks_def emphasized_def split: list.splits if_splits option.splits)

lemma code_match_shrinks: "code_match n s = Some (a, r) \<Longrightarrow> length a + length r < length s"
proof (induction n)
  case (Suc n)
  have fin: "shrinks (lazy_any (nothing_then (strip_prefix (replicate (Suc n) 96))))"
    by (intro lazy_any_shrinks then_shrinks) (auto dest: strip_prefix_length)
  show ?case
  proof (cases "drop (Suc n) s")
    case (Cons c cs)
    then have "length s = Suc n + Suc (length cs)" by (metis length_Cons length_drop add_diff_inverse_nat drop_all list.distinct(1) not_le less_imp_le)
    then show ?thesis
      using Suc Cons fin by (auto simp: shrinks_def split: option.splits) fastforce+
  qed (use Suc in simp)
qed simp

lemma take_drop_while: "length (takeWhile P xs) + length (dropWhile P xs) = length xs"
  by (metis length_append takeWhile_dropWhile_id)

lemma link_match_shrinks: "link_match s = Some (m, r) \<Longrightarrow> length (inside m) + length r < length s"
proof -
  assume "link_match s = Some (m, r)"
  then obtain s1 s2 where s: "strip_prefix (lit ''['') s = Some s1"
    "strip_prefix (lit '']('') (dropWhile (\<lambda>c. c \<noteq> 93) s1) = Some s2"
    "strip_prefix (lit '')'') (dropWhile (\<lambda>c. c \<noteq> 41 \<and> \<not> py_space c) s2) = Some r"
    and m: "inside m = takeWhile (\<lambda>c. c \<noteq> 93) s1"
    by (auto simp: link_match_def split: option.splits)
  show ?thesis
    unfolding m
    using s [THEN strip_prefix_length] take_drop_while [of "\<lambda>c. c \<noteq> 93" s1]
      take_drop_while [of "\<lambda>c. c \<noteq> 41 \<and> \<not> py_space c" s2] by simp
qed

lemma autolink_match_shrinks: "autolink_match s = Some (m, r) \<Longrightarrow> length (inside m) + length r < length s"
proof -
  assume "autolink_match s = Some (m, r)"
  then obtain s1 where s: "strip_prefix (lit ''<'') s = Some s1"
    "strip_prefix (lit ''>'') (drop (length (inside m)) s1) = Some r"
    and m: "inside m = takeWhile (\<lambda>c. c \<noteq> 62 \<and> \<not> py_space c) s1"
    by (auto simp: autolink_match_def Let_def split: option.splits list.splits if_splits)
  have "length (inside m) \<le> length s1" by (simp add: m length_takeWhile_le)
  then show ?thesis using s [THEN strip_prefix_length] by simp
qed

lemma emphasized_within:
  assumes "emphasized fin s1 = Some (a, r)" and "strip_prefix mark s = Some s1" and "mark \<noteq> []"
    and "\<And>s r. fin s = Some r \<Longrightarrow> length r \<le> length s"
  shows "length a + length r < length s"
proof -
  have "length a + length r \<le> length s1"
    using emphasized_shrinks [of fin] assms(1,4) by (auto simp: shrinks_def)
  moreover have "length s1 < length s" using strip_prefix_length [OF assms(2)] assms(3) by (cases mark) auto
  ultimately show ?thesis by simp
qed

lemma closing_shorter: "closing mark bad s = Some r \<Longrightarrow> length r \<le> length s"
  by (auto simp: closing_def split: option.splits list.splits if_splits dest: strip_prefix_length)

lemma strip_prefix_shorter: "strip_prefix p s = Some r \<Longrightarrow> length r \<le> length s"
  by (auto dest: strip_prefix_length)

lemma strong_match_shrinks: "strong_match s = Some (m, r) \<Longrightarrow> length (inside m) + length r < length s"
  by (auto simp: strong_match_def split: option.splits elim!: emphasized_within dest: strip_prefix_shorter)

lemma em_match_shrinks:
  "em_match mark bad prev s = Some (m, r) \<Longrightarrow> mark \<noteq> [] \<Longrightarrow> length (inside m) + length r < length s"
  by (auto simp: em_match_def split: option.splits if_splits elim!: emphasized_within dest: closing_shorter)

lemma first_of_SomeD: "first_of xs = Some v \<Longrightarrow> Some v \<in> set xs"
  by (induction xs) (auto split: option.splits)

lemma inline_match_shrinks:
  assumes "inline_match uc prev s = Some (m, rest)"
  shows "length rest < length s" and "length (inside m) < length s"
proof -
  consider a where "code_match (length (takeWhile (\<lambda>c. c = 96) s)) s = Some (a, rest)" "m = Code a"
    | "link_match s = Some (m, rest)" | "autolink_match s = Some (m, rest)" | "strong_match s = Some (m, rest)"
    | mark bad where "em_match mark bad prev s = Some (m, rest)" "mark \<noteq> []"
    using first_of_SomeD [OF assms [unfolded inline_match_def]] by (auto simp: apfst_def dest: sym)
  then have "length (inside m) + length rest < length s"
    by cases (auto dest: code_match_shrinks link_match_shrinks autolink_match_shrinks strong_match_shrinks em_match_shrinks)
  then show "length rest < length s" "length (inside m) < length s" by simp_all
qed

section \<open>Rendering inline markup\<close>

text \<open>
  The text between two matches is escaped character by character. \<open>prev\<close> is the character the lookbehinds see.
\<close>

definition last_consumed :: "str \<Rightarrow> str \<Rightarrow> nat option" where
  "last_consumed s rest = Some (s ! (length s - length rest - 1))"

function inline_from :: "unicode \<Rightarrow> link_resolver \<Rightarrow> nat option \<Rightarrow> str \<Rightarrow> str" where
  "inline_from uc resolve prev s =
     (case inline_match uc prev s of
        None \<Rightarrow> (case s of [] \<Rightarrow> [] | c # cs \<Rightarrow> escape_char False c @ inline_from uc resolve (Some c) cs)
      | Some (m, rest) \<Rightarrow>
          (case m of
             Code code \<Rightarrow> lit ''<code>'' @ text_escape (strip code) @ lit ''</code>''
           | Link label href \<Rightarrow>
               lit ''<a href='' @ [34] @ attr_escape (safe_href (case resolve of None \<Rightarrow> href | Some f \<Rightarrow> f href)) @
               [34] @ lit ''>'' @ inline_from uc resolve None label @ lit ''</a>''
           | Autolink url \<Rightarrow>
               lit ''<a href='' @ [34] @ attr_escape url @ [34] @ lit ''>'' @ text_escape url @ lit ''</a>''
           | Strong content \<Rightarrow> lit ''<strong>'' @ inline_from uc resolve None content @ lit ''</strong>''
           | Em content \<Rightarrow> lit ''<em>'' @ inline_from uc resolve None content @ lit ''</em>'') @
          inline_from uc resolve (last_consumed s rest) rest)"
  by pat_completeness auto
termination
  by (relation "measure (\<lambda>(_, _, _, s). length s)") (auto dest: inline_match_shrinks)

declare inline_from.simps [simp del]

definition render_inline :: "unicode \<Rightarrow> link_resolver \<Rightarrow> str \<Rightarrow> str" where
  "render_inline uc resolve s = inline_from uc resolve None s"

section \<open>Lines that open a block\<close>

text \<open>\<open>\s*#*\s*$\<close>, and the shortest title (at least one character) that leaves it.\<close>

definition only_closing :: "str \<Rightarrow> bool" where
  "only_closing s \<longleftrightarrow> dropWhile py_space (dropWhile (\<lambda>c. c = 35) (dropWhile py_space s)) = []"

fun shortest_title :: "str \<Rightarrow> str" where
  "shortest_title [] = []"
| "shortest_title (c # cs) = (if only_closing cs then [c] else c # shortest_title cs)"

text \<open>\<open>_HEADING_RE\<close>. With nothing but blanks after the hashes the last blank becomes the title.\<close>

definition heading_match :: "str \<Rightarrow> (nat \<times> str) option" where
  "heading_match line =
     (let n = length (takeWhile (\<lambda>c. c = 35) line);
          blanks = takeWhile py_space (drop n line);
          body = dropWhile py_space (drop n line)
      in if n < 1 \<or> 6 < n \<or> blanks = [] then None
         else if body \<noteq> [] then Some (n, shortest_title body)
         else if 2 \<le> length blanks then Some (n, [last blanks]) else None)"

definition language_char :: "nat \<Rightarrow> bool" where
  "language_char c \<longleftrightarrow> 65 \<le> c \<and> c \<le> 90 \<or> 97 \<le> c \<and> c \<le> 122 \<or> is_digit c \<or> c \<in> {95, 43, 46, 45}"

definition fence_match :: "str \<Rightarrow> str option" where
  "fence_match line =
     (case strip_prefix [96, 96, 96] line of
        None \<Rightarrow> None
      | Some s \<Rightarrow>
          (let info = dropWhile py_space s
           in if dropWhile py_space (dropWhile language_char info) = [] then Some (takeWhile language_char info)
              else None))"

definition rule_line :: "str \<Rightarrow> bool" where
  "rule_line s \<longleftrightarrow> 3 \<le> length s \<and> list_ex (\<lambda>c. list_all (\<lambda>x. x = c) s) [45, 42, 95]"

definition after_blanks :: "str \<Rightarrow> str option" where
  "after_blanks s = (case s of [] \<Rightarrow> None | c # _ \<Rightarrow> if py_space c then Some (dropWhile py_space s) else None)"

definition ul_match :: "str \<Rightarrow> (nat \<times> str) option" where
  "ul_match line =
     (case dropWhile py_space line of
        [] \<Rightarrow> None
      | c # cs \<Rightarrow>
          if c \<in> {45, 42, 43} then map_option (Pair (length (takeWhile py_space line))) (after_blanks cs) else None)"

definition ol_match :: "unicode \<Rightarrow> str \<Rightarrow> (nat \<times> str) option" where
  "ol_match uc line =
     (let s = dropWhile py_space line
      in case dropWhile (uc_digit uc) s of
           [] \<Rightarrow> None
         | c # cs \<Rightarrow>
             if takeWhile (uc_digit uc) s \<noteq> [] \<and> c \<in> {46, 41}
             then map_option (Pair (length (takeWhile py_space line))) (after_blanks cs) else None)"

definition li_match :: "unicode \<Rightarrow> str \<Rightarrow> (nat \<times> str) option" where
  "li_match uc line = (case ul_match line of None \<Rightarrow> ol_match uc line | Some m \<Rightarrow> Some m)"

definition quote_match :: "str \<Rightarrow> str option" where
  "quote_match line =
     (case strip_prefix [62] line of
        None \<Rightarrow> None
      | Some s \<Rightarrow> Some (case s of [] \<Rightarrow> [] | c # cs \<Rightarrow> if py_space c then cs else s))"

definition split_row :: "str \<Rightarrow> str list" where
  "split_row line = map strip (split_char 124 (strip_chars 124 (strip line)))"

text \<open>\<open>:?-{2,}:?\<close> on a whole cell.\<close>

definition divider_cell :: "str \<Rightarrow> bool" where
  "divider_cell cell \<longleftrightarrow>
     (let s = (if starts_with [58] cell then drop 1 cell else cell);
          dashes = (if s \<noteq> [] \<and> last s = 58 then butlast s else s)
      in 2 \<le> length dashes \<and> list_all (\<lambda>c. c = 45) dashes)"

definition is_table_divider :: "str \<Rightarrow> bool" where
  "is_table_divider line \<longleftrightarrow> split_row line \<noteq> [] \<and> list_all divider_cell (split_row line)"

definition alignments :: "str \<Rightarrow> str list" where
  "alignments divider = map (\<lambda>cell.
     if cell \<noteq> [] \<and> hd cell = 58 \<and> last cell = 58 then lit '' style='' @ [34] @ lit ''text-align:center'' @ [34]
     else if cell \<noteq> [] \<and> last cell = 58 then lit '' style='' @ [34] @ lit ''text-align:right'' @ [34]
     else []) (split_row divider)"

definition starts_block :: "unicode \<Rightarrow> str \<Rightarrow> bool" where
  "starts_block uc line \<longleftrightarrow> strip line = [] \<or> heading_match line \<noteq> None \<or> fence_match line \<noteq> None \<or>
     rule_line (strip line) \<or> quote_match line \<noteq> None \<or> ul_match line \<noteq> None \<or> ol_match uc line \<noteq> None"

definition at_table :: "str list \<Rightarrow> bool" where
  "at_table lines \<longleftrightarrow>
     (case lines of line # follower # _ \<Rightarrow> line \<noteq> [] \<and> 124 \<in> set line \<and> follower \<noteq> [] \<and> is_table_divider follower
      | _ \<Rightarrow> False)"

section \<open>Blocks\<close>

record heading =
  hd_level :: nat
  hd_text :: str
  hd_slug :: str

record renderer =
  rn_toc :: "heading list"
  rn_slugs :: "str \<rightharpoonup> nat"

definition new_renderer :: renderer where
  "new_renderer = \<lparr>rn_toc = [], rn_slugs = Map.empty\<rparr>"

definition unique_slug :: "unicode \<Rightarrow> str \<Rightarrow> renderer \<Rightarrow> str \<times> renderer" where
  "unique_slug uc title r =
     (let slug = slugify uc title;
          count = (case rn_slugs r slug of None \<Rightarrow> 0 | Some n \<Rightarrow> n)
      in (if count = 0 then slug else slug @ [45] @ nat_str (count + 1),
          r\<lparr>rn_slugs := (rn_slugs r)(slug \<mapsto> count + 1)\<rparr>))"

definition render_fence :: "str \<Rightarrow> str list \<Rightarrow> str \<times> str list" where
  "render_fence language later =
     (let body = takeWhile (\<lambda>l. \<not> starts_with [96, 96, 96] l) later;
          css = (if language \<noteq> [] then lit '' class='' @ [34] @ lit ''language-'' @ attr_escape language @ [34] else [])
      in (lit ''<pre>'' @ (lit ''<code'' @ css @ lit ''>'') @ text_escape (join_str nl body) @ lit ''</code>'' @ lit ''</pre>'',
          drop 1 (dropWhile (\<lambda>l. \<not> starts_with [96, 96, 96] l) later)))"

definition heading_tag :: "nat \<Rightarrow> str \<Rightarrow> str" where
  "heading_tag level slug = lit ''<h'' @ nat_str level @ lit '' id='' @ [34] @ attr_escape slug @ [34] @ lit ''>''"

definition anchor_tag :: "str \<Rightarrow> str" where
  "anchor_tag slug = lit ''<a class='' @ [34] @ lit ''doc-anchor'' @ [34] @ lit '' href='' @ [34] @ lit ''#'' @ attr_escape slug @
     [34] @ lit '' aria-label='' @ [34] @ lit ''Link to this section'' @ [34] @ lit ''>''"

definition render_heading :: "unicode \<Rightarrow> link_resolver \<Rightarrow> nat \<Rightarrow> str \<Rightarrow> renderer \<Rightarrow> str \<times> renderer" where
  "render_heading uc resolve level raw r =
     (case unique_slug uc (filter (\<lambda>c. c \<notin> {96, 42, 95}) raw) r of (slug, r1) \<Rightarrow>
        (heading_tag level slug @
           (render_inline uc resolve raw @ (anchor_tag slug @ lit ''#'' @ lit ''</a>'')) @
           lit ''</h'' @ nat_str level @ lit ''>'',
         if level = 2 \<or> level = 3
         then r1\<lparr>rn_toc := rn_toc r1 @ [\<lparr>hd_level = level, hd_text = raw, hd_slug = slug\<rparr>]\<rparr> else r1))"

definition render_cells :: "unicode \<Rightarrow> link_resolver \<Rightarrow> str \<Rightarrow> str list \<Rightarrow> str list \<Rightarrow> str" where
  "render_cells uc resolve tag styles cells =
     concat (map (\<lambda>(cell, style). (lit ''<'' @ tag @ style @ lit ''>'') @ render_inline uc resolve cell @
         (lit ''</'' @ tag @ lit ''>''))
       (zip cells (styles @ replicate (length cells) [])))"

definition table_row :: "str \<Rightarrow> bool" where
  "table_row line \<longleftrightarrow> strip line \<noteq> [] \<and> 124 \<in> set line"

definition render_table :: "unicode \<Rightarrow> link_resolver \<Rightarrow> str \<Rightarrow> str \<Rightarrow> str list \<Rightarrow> str \<times> str list" where
  "render_table uc resolve header divider later =
     (let styles = alignments divider;
          rows = map (\<lambda>line. lit ''<tr>'' @ render_cells uc resolve (lit ''td'') styles (split_row line) @ lit ''</tr>'')
            (takeWhile table_row later)
      in ((lit ''<div class='' @ [34] @ lit ''doc-table-wrap'' @ [34] @ lit ''>'') @
            (lit ''<table>'' @
               (nl @ (lit ''<thead>'' @ (lit ''<tr>'' @
                  render_cells uc resolve (lit ''th'') styles (split_row header) @ lit ''</tr>'') @ lit ''</thead>'') @
                nl @ (lit ''<tbody>'' @ (nl @ join_str nl rows @ nl) @ lit ''</tbody>'') @ nl) @
             lit ''</table>'') @
          lit ''</div>'',
          dropWhile table_row later))"

fun append_last :: "str \<Rightarrow> str list \<Rightarrow> str list" where
  "append_last s [] = []"
| "append_last s [x] = [x @ s]"
| "append_last s (x # y # xs) = x # append_last s (y # xs)"

definition list_html :: "bool \<Rightarrow> str list \<Rightarrow> str" where
  "list_html ordered items =
     (let tag = (if ordered then lit ''ol'' else lit ''ul'')
      in (lit ''<'' @ tag @ lit ''>'') @
         (nl @ join_str nl (map (\<lambda>item. lit ''<li>'' @ item @ lit ''</li>'') items) @ nl) @
         (lit ''</'' @ tag @ lit ''>''))"

text \<open>
  The loop of \<open>_list\<close>, with the items so far; it returns the items and the lines it leaves. A nested list is the
  same loop at the indentation of its first line. \<open>None\<close> is running out of fuel.
\<close>

fun list_loop :: "nat \<Rightarrow> unicode \<Rightarrow> link_resolver \<Rightarrow> nat \<Rightarrow> str list \<Rightarrow> str list \<Rightarrow> (str list \<times> str list) option" where
  "list_loop 0 uc resolve base items lines = None"
| "list_loop (Suc n) uc resolve base items lines =
     (case lines of
        [] \<Rightarrow> Some (items, [])
      | line # later \<Rightarrow>
          if strip line = [] then
            (case later of
               [] \<Rightarrow> Some (items, lines)
             | follower # _ \<Rightarrow>
                 if strip follower = [] then Some (items, lines)
                 else (case li_match uc follower of
                         None \<Rightarrow> Some (items, lines)
                       | Some (indent, _) \<Rightarrow>
                           if indent < base then Some (items, lines) else list_loop n uc resolve base items later))
          else (case li_match uc line of
                  None \<Rightarrow>
                    if items \<noteq> [] \<and> starts_with (replicate (base + 1) 32) line
                    then list_loop n uc resolve base (append_last (32 # render_inline uc resolve (strip line)) items) later
                    else Some (items, lines)
                | Some (indent, content) \<Rightarrow>
                    if indent < base then Some (items, lines)
                    else if base < indent \<and> items \<noteq> [] then
                      (case list_loop n uc resolve indent [] lines of
                         None \<Rightarrow> None
                       | Some (inner, rest) \<Rightarrow>
                           list_loop n uc resolve base
                             (append_last (10 # list_html (ol_match uc line \<noteq> None) inner) items) rest)
                    else list_loop n uc resolve base (items @ [render_inline uc resolve content]) later))"

definition render_list :: "unicode \<Rightarrow> link_resolver \<Rightarrow> nat \<Rightarrow> str list \<Rightarrow> (str \<times> str list) option" where
  "render_list uc resolve base lines =
     map_option (\<lambda>(items, rest). (list_html (ol_match uc (hd lines) \<noteq> None) items, rest))
       (list_loop (2 * length lines + 2) uc resolve base [] lines)"

fun paragraph_lines :: "unicode \<Rightarrow> str list \<Rightarrow> str list \<times> str list" where
  "paragraph_lines uc [] = ([], [])"
| "paragraph_lines uc (line # later) =
     (if starts_block uc line \<or> at_table (line # later) then ([], line # later)
      else apfst ((#) line) (paragraph_lines uc later))"

definition render_paragraph :: "unicode \<Rightarrow> link_resolver \<Rightarrow> str list \<Rightarrow> str" where
  "render_paragraph uc resolve body =
     lit ''<p>'' @ render_inline uc resolve (join_str nl (map strip body)) @ lit ''</p>''"

text \<open>The lines of a quotation without their marks, and its markup.\<close>

definition quoted :: "str list \<Rightarrow> str list" where
  "quoted lines = map (the \<circ> quote_match) (takeWhile (\<lambda>l. quote_match l \<noteq> None) lines)"

definition quote_html :: "str list \<Rightarrow> str" where
  "quote_html inner = lit ''<blockquote>'' @ (nl @ join_str nl inner @ nl) @ lit ''</blockquote>''"

text \<open>
  \<open>blocks\<close>: the rendered blocks and the state at the end. It is only ever called with \<open>stop_indent = 0\<close>, for which
  it runs to the end of the lines. A quotation has a renderer of its own.
\<close>

fun blocks ::
  "nat \<Rightarrow> unicode \<Rightarrow> link_resolver \<Rightarrow> str list \<Rightarrow> renderer \<Rightarrow> (str list \<times> renderer) option" where
  "blocks 0 uc resolve lines r = None"
| "blocks (Suc n) uc resolve lines r =
     (let emit = (\<lambda>html rest r'. map_option (apfst ((#) html)) (blocks n uc resolve rest r'))
      in case lines of
           [] \<Rightarrow> Some ([], r)
         | line # later \<Rightarrow>
             if strip line = [] then blocks n uc resolve later r
             else if fence_match line \<noteq> None then
               (case render_fence (the (fence_match line)) later of (html, rest) \<Rightarrow> emit html rest r)
             else if heading_match line \<noteq> None then
               (case the (heading_match line) of (level, raw) \<Rightarrow>
                  case render_heading uc resolve level raw r of (html, r') \<Rightarrow> emit html later r')
             else if rule_line (strip line) then emit (lit ''<hr>'') later r
             else if quote_match line \<noteq> None then
               (case blocks n uc resolve (quoted lines) new_renderer of
                  None \<Rightarrow> None
                | Some (inner, _) \<Rightarrow>
                    emit (quote_html inner) (dropWhile (\<lambda>l. quote_match l \<noteq> None) lines) r)
             else if at_table lines then
               (case render_table uc resolve line (hd later) (tl later) of (html, rest) \<Rightarrow> emit html rest r)
             else if li_match uc line \<noteq> None then
               (case render_list uc resolve (fst (the (li_match uc line))) lines of
                  None \<Rightarrow> None
                | Some (html, rest) \<Rightarrow> emit html rest r)
             else (case paragraph_lines uc later of (body, rest) \<Rightarrow>
                     emit (render_paragraph uc resolve (line # body)) rest r))"

section \<open>Documents\<close>

fun unix_newlines :: "str \<Rightarrow> str" where
  "unix_newlines (c # d # cs) =
     (if c = 13 \<and> d = 10 then 10 # unix_newlines cs
      else (if c = 13 then 10 else c) # unix_newlines (d # cs))"
| "unix_newlines [c] = [if c = 13 then 10 else c]"
| "unix_newlines [] = []"

fun expandtabs :: "nat \<Rightarrow> nat \<Rightarrow> str \<Rightarrow> str" where
  "expandtabs width column [] = []"
| "expandtabs width column (c # cs) =
     (if c = 9 then replicate (width - column mod width) 32 @ expandtabs width (column + (width - column mod width)) cs
      else if c = 10 \<or> c = 13 then c # expandtabs width 0 cs
      else c # expandtabs width (column + 1) cs)"

record document =
  doc_html :: str
  doc_toc :: "heading list"

definition lines_of :: "str \<Rightarrow> str list" where
  "lines_of s = split_char 10 (expandtabs 4 0 (unix_newlines s))"

text \<open>The weight of the lines bounds the depth of the recursion.\<close>

definition weight :: "str list \<Rightarrow> nat" where
  "weight lines = sum_list (map (\<lambda>l. length l + 1) lines)"

definition render_markdown :: "unicode \<Rightarrow> link_resolver \<Rightarrow> str \<Rightarrow> document option" where
  "render_markdown uc resolve s =
     map_option (\<lambda>(out, r). \<lparr>doc_html = join_str nl out, doc_toc = rn_toc r\<rparr>)
       (blocks (Suc (weight (lines_of s))) uc resolve (lines_of s) new_renderer)"

section \<open>Well-formed output\<close>

text \<open>
  The markup the renderer may produce: text in which \<open>&\<close>, \<open><\<close> and \<open>>\<close> only occur as part of an entity or of one
  of the renderer's own tags, with every element closed, nothing in an attribute that could end it, and
  links only to targets within the site or with one of the safe schemes.
\<close>

definition entities :: "str list" where
  "entities = [lit ''&amp;'', lit ''&lt;'', lit ''&gt;'']"

definition attr_safe :: "str \<Rightarrow> bool" where
  "attr_safe v \<longleftrightarrow> list_all (\<lambda>c. c \<notin> {34, 60, 62}) v"

definition safe_target :: "str \<Rightarrow> bool" where
  "safe_target v \<longleftrightarrow> list_ex (\<lambda>p. starts_with p v) ([lit ''#'', lit ''/''] @ SAFE_LINK_SCHEMES)"

definition plain_tags :: "str list" where
  "plain_tags = [lit ''code'', lit ''strong'', lit ''em'', lit ''pre'', lit ''p'', lit ''blockquote'', lit ''table'', lit ''thead'',
     lit ''tbody'', lit ''tr'', lit ''th'', lit ''td'', lit ''ul'', lit ''ol'', lit ''li'']"

inductive element :: "str \<Rightarrow> str \<Rightarrow> bool" where
  plain: "tag \<in> set plain_tags \<Longrightarrow> element (lit ''<'' @ tag @ lit ''>'') (lit ''</'' @ tag @ lit ''>'')"
| language: "attr_safe v \<Longrightarrow>
    element (lit ''<code'' @ (lit '' class='' @ [34] @ lit ''language-'' @ v @ [34]) @ lit ''>'') (lit ''</code>'')"
| link: "attr_safe v \<Longrightarrow> safe_target v \<Longrightarrow> element (lit ''<a href='' @ [34] @ v @ [34] @ lit ''>'') (lit ''</a>'')"
| anchor: "attr_safe (attr_escape slug) \<Longrightarrow> element (anchor_tag slug) (lit ''</a>'')"
| headline: "1 \<le> level \<Longrightarrow> level \<le> 6 \<Longrightarrow> attr_safe (attr_escape slug) \<Longrightarrow>
    element (heading_tag level slug) (lit ''</h'' @ nat_str level @ lit ''>'')"
| cell: "tag \<in> {lit ''th'', lit ''td''} \<Longrightarrow>
    align \<in> {lit ''text-align:center'', lit ''text-align:right''} \<Longrightarrow>
    element (lit ''<'' @ tag @ (lit '' style='' @ [34] @ align @ [34]) @ lit ''>'') (lit ''</'' @ tag @ lit ''>'')"
| wrap: "element (lit ''<div class='' @ [34] @ lit ''doc-table-wrap'' @ [34] @ lit ''>'') (lit ''</div>'')"

inductive wf_html :: "str \<Rightarrow> bool" where
  wf_Nil: "wf_html []"
| wf_char: "c \<notin> {38, 60, 62} \<Longrightarrow> wf_html s \<Longrightarrow> wf_html (c # s)"
| wf_entity: "e \<in> set entities \<Longrightarrow> wf_html s \<Longrightarrow> wf_html (e @ s)"
| wf_rule: "wf_html s \<Longrightarrow> wf_html (lit ''<hr>'' @ s)"
| wf_element: "element opening ending \<Longrightarrow> wf_html body \<Longrightarrow> wf_html s \<Longrightarrow> wf_html (opening @ body @ ending @ s)"

lemma wf_append: "wf_html a \<Longrightarrow> wf_html b \<Longrightarrow> wf_html (a @ b)"
  by (induction rule: wf_html.induct) (auto intro: wf_html.intros)

lemma wf_enclosed: "element opening ending \<Longrightarrow> wf_html body \<Longrightarrow> wf_html (opening @ body @ ending)"
  using wf_element [where s = "[]"] by (simp add: wf_Nil)

lemma wf_nl: "wf_html nl"
  by (simp add: nl_def wf_char wf_Nil)

lemma wf_text_escape: "wf_html (text_escape s)"
proof (induction s)
  case (Cons c s)
  have "wf_html (escape_char False c)"
    using wf_entity [of "lit ''&amp;''" "[]"] wf_entity [of "lit ''&lt;''" "[]"] wf_entity [of "lit ''&gt;''" "[]"]
    by (auto simp: escape_char_def entities_def intro: wf_html.intros)
  then show ?case using Cons by (simp add: text_escape_def wf_append)
qed (simp add: text_escape_def wf_Nil)

lemma wf_escape_char: "wf_html (escape_char False c)"
  using wf_text_escape [of "[c]"] by (simp add: text_escape_def)

lemma attr_safe_escape [simp]: "attr_safe (attr_escape s)"
  by (induction s) (auto simp: attr_safe_def attr_escape_def escape_char_def lit_def)

lemma starts_with_escape:
  assumes "starts_with p s" and "\<forall>c \<in> set p. escape_char True c = [c]"
  shows "starts_with p (attr_escape s)"
proof -
  have "attr_escape (p @ r) = p @ attr_escape r" for r
    using assms(2) by (induction p) (auto simp: attr_escape_def)
  moreover have "s = p @ drop (length p) s" using assms(1) by (metis append_take_drop_id starts_with_def)
  ultimately have "attr_escape s = p @ attr_escape (drop (length p) s)" by metis
  then show ?thesis by (simp add: starts_with_def)
qed

lemma safe_prefix_plain:
  "p \<in> set ([lit ''#'', lit ''/''] @ SAFE_LINK_SCHEMES) \<Longrightarrow> \<forall>c \<in> set p. escape_char True c = [c]"
  by (auto simp: SAFE_LINK_SCHEMES_def lit_def escape_char_def)

lemma safe_target_escape: "safe_target s \<Longrightarrow> safe_target (attr_escape s)"
  using starts_with_escape safe_prefix_plain unfolding safe_target_def list_ex_iff by blast

lemma safe_href_target: "safe_target (safe_href href)"
  by (simp add: safe_href_def safe_target_def starts_with_def SAFE_LINK_SCHEMES_def)

lemma wf_link: "safe_target url \<Longrightarrow> wf_html label \<Longrightarrow>
    wf_html (lit ''<a href='' @ [34] @ attr_escape url @ [34] @ lit ''>'' @ label @ lit ''</a>'')"
  using wf_enclosed [OF element.link [of "attr_escape url"], of label] by (simp add: safe_target_escape)

lemma wf_plain: "tag \<in> set plain_tags \<Longrightarrow> wf_html body \<Longrightarrow>
    wf_html ((lit ''<'' @ tag @ lit ''>'') @ body @ lit ''</'' @ tag @ lit ''>'')"
  by (rule wf_enclosed [OF element.plain])

lemma lit_append: "lit (a @ b) = lit a @ lit b"
  by (simp add: lit_def)

lemma wf_tag:
  assumes "tag \<in> {''code'', ''strong'', ''em'', ''pre'', ''p'', ''blockquote'', ''table'', ''thead'', ''tbody'', ''tr'', ''th'', ''td'',
      ''ul'', ''ol'', ''li''}" and "wf_html body"
  shows "wf_html (lit (''<'' @ tag @ ''>'') @ body @ lit (''</'' @ tag @ ''>''))"
proof -
  have "lit tag \<in> set plain_tags" using assms(1) by (auto simp: plain_tags_def)
  from wf_plain [OF this assms(2)] show ?thesis by (simp only: lit_append append_assoc)
qed

lemmas wf_tags =
  wf_tag [of "''code''", simplified] wf_tag [of "''strong''", simplified] wf_tag [of "''em''", simplified]
  wf_tag [of "''pre''", simplified] wf_tag [of "''p''", simplified] wf_tag [of "''blockquote''", simplified]
  wf_tag [of "''table''", simplified] wf_tag [of "''thead''", simplified] wf_tag [of "''tbody''", simplified]
  wf_tag [of "''tr''", simplified] wf_tag [of "''li''", simplified]

lemma starts_with_take: "starts_with p s \<Longrightarrow> length p \<le> n \<Longrightarrow> starts_with p (take n s)"
  by (simp add: starts_with_def min_absorb1)

lemma autolink_target: "autolink_match s = Some (Autolink url, rest) \<Longrightarrow> safe_target url"
proof -
  assume "autolink_match s = Some (Autolink url, rest)"
  then obtain s1 where run: "autolink_match s = Some (Autolink url, rest)" "strip_prefix (lit ''<'') s = Some s1"
    by (cases "strip_prefix (lit ''<'') s") (simp_all add: autolink_match_def)
  let ?url = "takeWhile (\<lambda>c. c \<noteq> 62 \<and> \<not> py_space c) s1"
  from run obtain p ps where ps: "filter (\<lambda>p. starts_with p s1) SAFE_LINK_SCHEMES = p # ps"
    by (cases "filter (\<lambda>p. starts_with p s1) SAFE_LINK_SCHEMES") (simp_all add: autolink_match_def Let_def)
  with run have url: "url = ?url" and "length p < length url"
    by (auto simp: autolink_match_def Let_def split: option.splits if_splits)
  with ps have ps: "filter (\<lambda>p. starts_with p s1) SAFE_LINK_SCHEMES = p # ps" "length p < length url" by simp_all
  then have "p \<in> set (filter (\<lambda>p. starts_with p s1) SAFE_LINK_SCHEMES)" by simp
  then have p: "p \<in> set SAFE_LINK_SCHEMES" "starts_with p s1" "length p < length url" using ps(2) by simp_all
  have "url = take (length url) s1" unfolding url by (rule takeWhile_eq_take)
  then have "starts_with p url" using starts_with_take [of p s1 "length url"] p by simp
  then show ?thesis using p(1) by (auto simp: safe_target_def list_ex_iff)
qed

lemma inline_match_autolink: "inline_match uc prev s = Some (Autolink url, rest) \<Longrightarrow> safe_target url"
  using first_of_SomeD [of _ "(Autolink url, rest)"]
  by (fastforce simp: inline_match_def link_match_def strong_match_def em_match_def apfst_def
      split: option.splits if_splits dest!: first_of_SomeD intro: autolink_target)

lemma wf_inline: "wf_html (inline_from uc resolve prev s)"
proof (induction uc resolve prev s rule: inline_from.induct)
  case (1 uc resolve prev s)
  show ?case
  proof (cases "inline_match uc prev s")
    case None
    then show ?thesis
      using 1 by (subst inline_from.simps) (auto simp: wf_Nil split: list.splits intro!: wf_append wf_escape_char)
  next
    case (Some mr)
    obtain m rest where mr: "mr = (m, rest)" by (metis prod.exhaust)
    have rest: "wf_html (inline_from uc resolve (last_consumed s rest) rest)" by (rule "1.IH"(5) [OF Some mr [symmetric]])
    show ?thesis
    proof (cases m)
      case (Code code)
      from wf_append [OF wf_tags(1) [OF wf_text_escape [of "strip code"]] rest] show ?thesis
        using Some mr Code by (subst inline_from.simps) simp
    next
      case (Link label href)
      then have "wf_html (inline_from uc resolve None label)" by (rule "1.IH"(2) [OF Some mr [symmetric]])
      from wf_append [OF wf_link [OF safe_href_target this, of "case resolve of None \<Rightarrow> href | Some f \<Rightarrow> f href"] rest]
      show ?thesis using Some mr Link by (subst inline_from.simps) simp
    next
      case (Autolink url)
      then have "safe_target url" using Some mr inline_match_autolink by simp
      from wf_append [OF wf_link [OF this wf_text_escape [of url]] rest] show ?thesis
        using Some mr Autolink by (subst inline_from.simps) simp
    next
      case (Strong content)
      then have "wf_html (inline_from uc resolve None content)" by (rule "1.IH"(3) [OF Some mr [symmetric]])
      from wf_append [OF wf_tags(2) [OF this] rest] show ?thesis
        using Some mr Strong by (subst inline_from.simps) simp
    next
      case (Em content)
      then have "wf_html (inline_from uc resolve None content)" by (rule "1.IH"(4) [OF Some mr [symmetric]])
      from wf_append [OF wf_tags(3) [OF this] rest] show ?thesis
        using Some mr Em by (subst inline_from.simps) simp
    qed
  qed
qed

lemma wf_render_inline: "wf_html (render_inline uc resolve s)"
  by (simp add: render_inline_def wf_inline)

text \<open>Each block is well-formed.\<close>

lemma wf_join: "list_all wf_html xs \<Longrightarrow> wf_html (join_str nl xs)"
  by (induction nl xs rule: join_str.induct) (auto intro: wf_append wf_nl wf_Nil)

lemma wf_lines: "wf_html s \<Longrightarrow> wf_html (nl @ s @ nl)"
  by (intro wf_append wf_nl)

lemma wf_fence: "wf_html (fst (render_fence language later))"
proof -
  let ?text = "text_escape (join_str nl (takeWhile (\<lambda>l. \<not> starts_with [96, 96, 96] l) later))"
  have "wf_html ((lit ''<code'' @ (if language \<noteq> [] then lit '' class='' @ [34] @ lit ''language-'' @ attr_escape language @ [34] else []) @
      lit ''>'') @ ?text @ lit ''</code>'')"
  proof (cases "language = []")
    case True
    then show ?thesis using wf_tags(1) [OF wf_text_escape] by (simp add: lit_append [symmetric])
  next
    case False
    then show ?thesis using wf_enclosed [OF element.language [of "attr_escape language"] wf_text_escape] by simp
  qed
  from wf_tags(4) [OF this] show ?thesis by (simp add: render_fence_def Let_def)
qed

lemma heading_level: "heading_match line = Some (level, raw) \<Longrightarrow> 1 \<le> level \<and> level \<le> 6"
  by (auto simp: heading_match_def Let_def Suc_le_eq split: if_splits)

lemma wf_heading:
  assumes "1 \<le> level" and "level \<le> 6"
  shows "wf_html (fst (render_heading uc resolve level raw r))"
proof -
  obtain slug r1 where slug: "unique_slug uc (filter (\<lambda>c. c \<notin> {96, 42, 95}) raw) r = (slug, r1)" by (metis prod.exhaust)
  have "wf_html (lit ''#'')" by (simp add: lit_def wf_char wf_Nil)
  then have "wf_html (anchor_tag slug @ lit ''#'' @ lit ''</a>'')" by (intro wf_enclosed element.anchor) simp_all
  from wf_enclosed [OF element.headline [OF assms, of slug] wf_append [OF wf_render_inline this]]
  show ?thesis unfolding render_heading_def slug by simp
qed

lemma alignment_style:
  "style \<in> set (alignments divider @ replicate n []) \<Longrightarrow> style = [] \<or>
     (\<exists>align \<in> {lit ''text-align:center'', lit ''text-align:right''}. style = lit '' style='' @ [34] @ align @ [34])"
  by (auto simp: alignments_def)

lemma wf_cells:
  assumes "tag = ''th'' \<or> tag = ''td''"
  shows "wf_html (render_cells uc resolve (lit tag) (alignments divider) cells)"
proof -
  have "wf_html ((lit ''<'' @ lit tag @ style @ lit ''>'') @ render_inline uc resolve c @ (lit ''</'' @ lit tag @ lit ''>''))"
    if style: "style \<in> set (alignments divider @ replicate n [])" for c style n
  proof (cases "style = []")
    case True
    have "lit tag \<in> set plain_tags" using assms by (auto simp: plain_tags_def)
    from wf_enclosed [OF element.plain [OF this] wf_render_inline] show ?thesis using True by simp
  next
    case False
    then obtain align where "align \<in> {lit ''text-align:center'', lit ''text-align:right''}"
      "style = lit '' style='' @ [34] @ align @ [34]" using alignment_style [OF style] by blast
    with wf_enclosed [OF element.cell [of "lit tag" align] wf_render_inline] assms show ?thesis by simp
  qed
  then have "\<forall>(c, style) \<in> set (zip cells (alignments divider @ replicate (length cells) [])).
      wf_html ((lit ''<'' @ lit tag @ style @ lit ''>'') @ render_inline uc resolve c @ (lit ''</'' @ lit tag @ lit ''>''))"
    by (metis (no_types, lifting) case_prodI2 set_zip_rightD)
  moreover have "list_all wf_html xs \<Longrightarrow> wf_html (concat xs)" for xs
    by (induction xs) (simp_all add: wf_Nil wf_append)
  moreover from calculation(1) have "list_all wf_html (map (\<lambda>(c, style). (lit ''<'' @ lit tag @ style @ lit ''>'') @
      render_inline uc resolve c @ (lit ''</'' @ lit tag @ lit ''>''))
      (zip cells (alignments divider @ replicate (length cells) [])))"
    unfolding list_all_iff set_map by (auto simp only: ball_simps split_paired_all prod.case image_iff)
  ultimately show ?thesis unfolding render_cells_def by blast
qed

lemma wf_table: "wf_html (fst (render_table uc resolve header divider later))"
proof -
  let ?row = "\<lambda>tag cells. lit ''<tr>'' @ render_cells uc resolve (lit tag) (alignments divider) cells @ lit ''</tr>''"
  have row: "wf_html (?row tag cells)" if "tag = ''th'' \<or> tag = ''td''" for tag cells
    by (rule wf_tags(10) [OF wf_cells [OF that]])
  let ?rows = "map (\<lambda>line. ?row ''td'' (split_row line)) (takeWhile table_row later)"
  have "list_all wf_html ?rows" using row by (simp add: list_all_iff)
  from wf_tags(9) [OF wf_lines [OF wf_join [OF this]]]
  have "wf_html (lit ''<tbody>'' @ (nl @ join_str nl ?rows @ nl) @ lit ''</tbody>'')" .
  note tbody = this
  have thead: "wf_html (lit ''<thead>'' @ ?row ''th'' (split_row header) @ lit ''</thead>'')"
    by (rule wf_tags(8) [OF row]) simp
  have "wf_html (nl @ (lit ''<thead>'' @ ?row ''th'' (split_row header) @ lit ''</thead>'') @
      nl @ (lit ''<tbody>'' @ (nl @ join_str nl ?rows @ nl) @ lit ''</tbody>'') @ nl)"
    by (rule wf_append [OF wf_nl wf_append [OF thead wf_append [OF wf_nl wf_append [OF tbody wf_nl]]]])
  from wf_enclosed [OF element.wrap wf_tags(7) [OF this]] show ?thesis
    by (simp add: render_table_def Let_def)
qed

lemma wf_append_last: "list_all wf_html items \<Longrightarrow> wf_html s \<Longrightarrow> list_all wf_html (append_last s items)"
  by (induction s items rule: append_last.induct) (auto intro: wf_append)

lemma wf_list_html:
  assumes "list_all wf_html items"
  shows "wf_html (list_html ordered items)"
proof -
  have "list_all wf_html (map (\<lambda>item. lit ''<li>'' @ item @ lit ''</li>'') items)"
    using assms wf_tags(11) by (auto simp: list_all_iff)
  from wf_lines [OF wf_join [OF this]] show ?thesis
    unfolding list_html_def Let_def by (intro wf_plain) (auto simp: plain_tags_def)
qed

lemma wf_list_loop:
  "list_loop n uc resolve base items lines = Some (items', rest) \<Longrightarrow> list_all wf_html items \<Longrightarrow> list_all wf_html items'"
proof (induction n arbitrary: base items lines items' rest)
  case (Suc n)
  have space: "wf_html (32 # render_inline uc resolve s)" for s by (simp add: wf_char wf_render_inline)
  have newline: "list_all wf_html inner \<Longrightarrow> wf_html (10 # list_html ordered inner)" for ordered inner
    by (simp add: wf_char wf_list_html)
  show ?case
  proof (cases lines)
    case Nil
    then show ?thesis using Suc.prems by simp
  next
    case (Cons line later)
    show ?thesis
    proof (cases "strip line = []")
      case True
      then have "items' = items \<or> list_loop n uc resolve base items later = Some (items', rest)"
        using Suc.prems(1) Cons by (auto split: list.splits option.splits if_splits)
      then show ?thesis using Suc.IH Suc.prems(2) by blast
    next
      case nonblank: False
      show ?thesis
      proof (cases "li_match uc line")
        case None
        then have "items' = items \<or>
            list_loop n uc resolve base (append_last (32 # render_inline uc resolve (strip line)) items) later = Some (items', rest)"
          using Suc.prems(1) Cons nonblank by (auto split: if_splits)
        then show ?thesis using Suc.IH wf_append_last [OF Suc.prems(2) space] Suc.prems(2) by blast
      next
        case (Some m)
        obtain indent content where m: "m = (indent, content)" by (metis prod.exhaust)
        consider "items' = items" | "list_loop n uc resolve base (items @ [render_inline uc resolve content]) later = Some (items', rest)"
          | inner rest1 ordered where "list_loop n uc resolve indent [] lines = Some (inner, rest1)"
            "list_loop n uc resolve base (append_last (10 # list_html ordered inner) items) rest1 = Some (items', rest)"
          using Suc.prems(1) Cons nonblank Some m by (auto split: if_splits option.splits prod.splits)
        then show ?thesis
        proof cases
          case 2
          then show ?thesis by (rule Suc.IH) (simp add: Suc.prems wf_render_inline)
        next
          case 3
          have "list_all wf_html inner" by (rule Suc.IH [OF 3(1)]) simp
          then show ?thesis using Suc.IH [OF 3(2)] wf_append_last [OF Suc.prems(2) newline] by blast
        qed (use Suc.prems in simp)
      qed
    qed
  qed
qed simp

section \<open>Termination\<close>

text \<open>
  A list at an indentation takes at least its first line, a nested one starts at the same line: twice the number
  of lines, and one more where the first line is indented further, is fuel enough.
\<close>

definition deeper :: "unicode \<Rightarrow> nat \<Rightarrow> str list \<Rightarrow> nat" where
  "deeper uc base lines =
     (case lines of [] \<Rightarrow> 0 | line # _ \<Rightarrow>
        (case li_match uc line of None \<Rightarrow> 0 | Some (indent, _) \<Rightarrow> if base < indent then 1 else 0))"

definition at_item :: "unicode \<Rightarrow> nat \<Rightarrow> str list \<Rightarrow> bool" where
  "at_item uc base lines \<longleftrightarrow>
     (case lines of [] \<Rightarrow> False | line # _ \<Rightarrow> strip line \<noteq> [] \<and>
        (case li_match uc line of None \<Rightarrow> False | Some (indent, _) \<Rightarrow> base \<le> indent))"

lemma deeper_le: "deeper uc base lines \<le> 1"
  by (auto simp: deeper_def split: list.splits option.splits)

lemma list_loop_nested:
  assumes more: "\<And>base items lines. 2 * length lines + deeper uc base lines < n \<Longrightarrow> \<exists>items' k.
      list_loop n uc resolve base items lines = Some (items', drop k lines) \<and> (at_item uc base lines \<longrightarrow> 0 < k)"
    and fuel: "2 * length lines + deeper uc base lines < Suc n"
    and here: "lines = line # later" "strip line \<noteq> []" "li_match uc line = Some (indent, content)"
    and deep: "base < indent" "items \<noteq> []"
  shows "\<exists>items' k. list_loop (Suc n) uc resolve base items lines = Some (items', drop k lines) \<and> 0 < k"
proof -
  have "deeper uc indent lines = 0" "deeper uc base lines = 1" "at_item uc indent lines"
    using here deep by (simp_all add: deeper_def at_item_def)
  then obtain inner k where inner: "list_loop n uc resolve indent [] lines = Some (inner, drop k lines)" "0 < k"
    using more [of lines indent "[]"] fuel by auto
  have "length (drop k lines) < length lines" using inner(2) here(1) by simp
  then have "2 * length (drop k lines) + deeper uc base (drop k lines) < n"
    using fuel \<open>deeper uc base lines = 1\<close> deeper_le [of uc base "drop k lines"] by linarith
  from more [OF this, of "append_last (10 # list_html (ol_match uc line \<noteq> None) inner) items"]
  obtain items' j where "list_loop n uc resolve base (append_last (10 # list_html (ol_match uc line \<noteq> None) inner) items)
      (drop k lines) = Some (items', drop (j + k) lines)"
    by (auto simp: drop_drop)
  then show ?thesis
    using here deep inner by (intro exI [of _ items'] exI [of _ "j + k"]) (simp del: not_None_eq)
qed

lemma list_loop_enough:
  "2 * length lines + deeper uc base lines < n \<Longrightarrow>
   \<exists>items' k. list_loop n uc resolve base items lines = Some (items', drop k lines) \<and> (at_item uc base lines \<longrightarrow> 0 < k)"
proof (induction n arbitrary: base items lines)
  case (Suc n)
  show ?case
  proof (cases lines)
    case Nil
    then show ?thesis by (simp add: at_item_def)
  next
    case (Cons line later)
    have onward: "\<exists>items' k. list_loop n uc resolve base items1 later = Some (items', drop (Suc k) lines)" for items1
      using Suc.IH [of later base items1] Suc.prems deeper_le [of uc base later] Cons by fastforce
    show ?thesis
    proof (cases "strip line = []")
      case True
      then have "\<not> at_item uc base lines" by (simp add: at_item_def Cons)
      moreover have "list_loop (Suc n) uc resolve base items lines = Some (items, drop 0 lines) \<or>
          list_loop (Suc n) uc resolve base items lines = list_loop n uc resolve base items later"
        using True Cons by (auto split: list.splits option.splits)
      ultimately show ?thesis using onward [of items] by metis
    next
      case nonblank: False
      show ?thesis
      proof (cases "li_match uc line")
        case None
        then have "\<not> at_item uc base lines" by (simp add: at_item_def Cons)
        moreover have "list_loop (Suc n) uc resolve base items lines = Some (items, drop 0 lines) \<or>
            list_loop (Suc n) uc resolve base items lines = list_loop n uc resolve base
              (append_last (32 # render_inline uc resolve (strip line)) items) later"
          using None nonblank Cons by simp
        ultimately show ?thesis
          using onward [of "append_last (32 # render_inline uc resolve (strip line)) items"] by metis
      next
        case (Some m)
        obtain indent content where m: "m = (indent, content)" by (metis prod.exhaust)
        consider "indent < base" | "base \<le> indent" "\<not> (base < indent \<and> items \<noteq> [])" | "base < indent" "items \<noteq> []"
          by linarith
        then show ?thesis
        proof cases
          case 1
          then have "\<not> at_item uc base lines" by (simp add: at_item_def Cons Some m)
          moreover have "list_loop (Suc n) uc resolve base items lines = Some (items, drop 0 lines)"
            using 1 nonblank Cons Some m by simp
          ultimately show ?thesis by blast
        next
          case 2
          then have "list_loop (Suc n) uc resolve base items lines =
              list_loop n uc resolve base (items @ [render_inline uc resolve content]) later"
            using nonblank Cons Some m by auto
          then show ?thesis using onward [of "items @ [render_inline uc resolve content]"] by auto
        next
          case 3
          then show ?thesis
            using list_loop_nested [OF Suc.IH Suc.prems Cons nonblank Some [unfolded m]] by blast
        qed
      qed
    qed
  qed
qed simp

lemma weight_drop: "lines \<noteq> [] \<Longrightarrow> 0 < k \<Longrightarrow> weight (drop k lines) < weight lines"
proof -
  assume "lines \<noteq> []" "0 < k"
  then obtain line later j where "lines = line # later" "k = Suc j" by (metis gr0_implies_Suc neq_Nil_conv)
  moreover have "weight (drop j later) \<le> weight later"
    unfolding weight_def drop_map [symmetric]
    by (metis append_take_drop_id le_add2 sum_list_append)
  ultimately show ?thesis by (simp add: weight_def)
qed

lemma dropWhile_drop: "\<exists>k. dropWhile P xs = drop k xs"
  by (metis dropWhile_eq_drop)

lemma weight_quote: "lines \<noteq> [] \<Longrightarrow> quote_match (hd lines) \<noteq> None \<Longrightarrow>
    weight (quoted lines) < weight lines"
proof -
  have shorter: "quote_match l = Some q \<Longrightarrow> length q < length l" for l q
    by (auto simp: quote_match_def split: option.splits list.splits if_splits dest: strip_prefix_length)
  have le: "weight (map (the \<circ> quote_match) (takeWhile (\<lambda>l. quote_match l \<noteq> None) ls)) \<le> weight ls" for ls
    using shorter by (induction ls) (force simp: weight_def)+
  assume "lines \<noteq> []" "quote_match (hd lines) \<noteq> None"
  then obtain line later q where l: "lines = line # later" "quote_match line = Some q"
    by (cases lines) auto
  then show ?thesis using le [of later] shorter [OF l(2)] by (simp add: weight_def quoted_def)
qed

declare blocks.simps [simp del]

definition renders :: "nat \<Rightarrow> unicode \<Rightarrow> link_resolver \<Rightarrow> str list \<Rightarrow> renderer \<Rightarrow> bool" where
  "renders n uc resolve lines r \<longleftrightarrow>
     (case blocks n uc resolve lines r of None \<Rightarrow> False | Some (out, _) \<Rightarrow> list_all wf_html out)"

lemma renders_emit:
  assumes "renders n uc resolve rest r'" and "wf_html html"
  shows "case map_option (apfst ((#) html)) (blocks n uc resolve rest r') of
           None \<Rightarrow> False | Some (out, _) \<Rightarrow> list_all wf_html out"
  using assms by (cases "blocks n uc resolve rest r'") (auto simp: renders_def apfst_def)

lemma paragraph_lines_drop: "\<exists>k. snd (paragraph_lines uc later) = drop k later"
proof (induction later)
  case (Cons line later)
  then obtain k where "snd (paragraph_lines uc later) = drop k later" ..
  then have "snd (paragraph_lines uc (line # later)) = drop 0 (line # later) \<or>
      snd (paragraph_lines uc (line # later)) = drop (Suc k) (line # later)"
    by auto
  then show ?case by blast
qed simp

lemma weight_dropWhile: "lines = line # later \<Longrightarrow> weight (drop k (dropWhile P (drop j later))) < weight lines"
proof -
  assume lines: "lines = line # later"
  obtain i where "dropWhile P (drop j later) = drop i (drop j later)" using dropWhile_drop by blast
  then have "drop k (dropWhile P (drop j later)) = drop (Suc (k + i + j)) lines" by (simp add: lines add.assoc)
  with weight_drop [of lines "Suc (k + i + j)"] lines show ?thesis by simp
qed

lemma render_list_total:
  assumes "li_match uc line = Some (base, content)" and "strip line \<noteq> []"
  obtains html k where "render_list uc resolve base (line # later) = Some (html, drop (Suc k) (line # later))" "wf_html html"
proof -
  let ?lines = "line # later"
  have "at_item uc base ?lines" using assms by (simp add: at_item_def)
  moreover have "2 * length ?lines + deeper uc base ?lines < 2 * length ?lines + 2"
    using deeper_le [of uc base ?lines] by simp
  ultimately obtain items k where items:
    "list_loop (2 * length ?lines + 2) uc resolve base [] ?lines = Some (items, drop (Suc k) ?lines)"
    using list_loop_enough [of ?lines uc base _ resolve "[]"] by (metis gr0_implies_Suc)
  then have "wf_html (list_html (ol_match uc line \<noteq> None) items)"
    by (intro wf_list_html wf_list_loop [OF items]) simp
  with items that [of "list_html (ol_match uc line \<noteq> None) items" k] show ?thesis by (simp add: render_list_def)
qed

text \<open>What the first of the lines opens, in the order in which the code asks.\<close>

lemma line_cases:
  obtains (blank) "strip line = []"
  | (fence) language where "strip line \<noteq> []" "fence_match line = Some language"
  | (heading) level raw where "strip line \<noteq> []" "fence_match line = None" "heading_match line = Some (level, raw)"
  | (rule) "strip line \<noteq> []" "fence_match line = None" "heading_match line = None" "rule_line (strip line)"
  | (quote) "strip line \<noteq> []" "fence_match line = None" "heading_match line = None" "\<not> rule_line (strip line)"
    "quote_match line \<noteq> None"
  | (table) "strip line \<noteq> []" "fence_match line = None" "heading_match line = None" "\<not> rule_line (strip line)"
    "quote_match line = None" "at_table lines"
  | (items) base content where "strip line \<noteq> []" "fence_match line = None" "heading_match line = None"
    "\<not> rule_line (strip line)" "quote_match line = None" "\<not> at_table lines" "li_match uc line = Some (base, content)"
  | (para) "strip line \<noteq> []" "fence_match line = None" "heading_match line = None" "\<not> rule_line (strip line)"
    "quote_match line = None" "\<not> at_table lines" "li_match uc line = None"
  by (metis option.exhaust prod.exhaust)

lemma blocks_step:
  assumes Cons: "lines = line # later"
    and onward: "\<And>rest r'. weight rest < weight lines \<Longrightarrow> renders n uc resolve rest r'"
  shows "renders (Suc n) uc resolve lines r"
proof -
  note unfold = renders_def [of "Suc n"] blocks.simps(2) Let_def Cons
  have rest: "weight (drop k (dropWhile P (drop j later))) < weight lines" for k P j
    using weight_dropWhile [OF Cons] .
  have here: "weight later < weight lines" using rest [of 0 "\<lambda>_. False" 0] by simp
  show ?thesis
  proof (cases rule: line_cases [where line = line and lines = lines and uc = uc])
    case blank
    then have "blocks (Suc n) uc resolve lines r = blocks n uc resolve later r" by (simp add: blocks.simps(2) Let_def Cons)
    then show ?thesis using onward [OF here, of r] by (simp add: renders_def)
  next
    case (fence language)
    obtain html more where html: "render_fence language later = (html, more)" by (metis prod.exhaust)
    then have "weight more < weight lines" using rest [of 1 _ 0] by (auto simp: render_fence_def Let_def)
    from renders_emit [OF onward [OF this, of r], of html] show ?thesis
      using fence html wf_fence [of language later] by (simp add: unfold)
  next
    case (heading level raw)
    obtain html r' where html: "render_heading uc resolve level raw r = (html, r')" by (metis prod.exhaust)
    from renders_emit [OF onward [OF here, of r'], of html] show ?thesis
      using heading html wf_heading [of level uc resolve raw r] heading_level [of line] by (simp add: unfold)
  next
    case rule
    then show ?thesis using renders_emit [OF onward [OF here, of r], of "lit ''<hr>''"] wf_rule [OF wf_Nil]
      by (simp add: unfold)
  next
    case quote
    have "renders n uc resolve (quoted lines) new_renderer"
      by (rule onward [OF weight_quote]) (use quote Cons in auto)
    then obtain inner r0 where inner: "blocks n uc resolve (quoted lines) new_renderer = Some (inner, r0)" "list_all wf_html inner"
      by (auto simp: renders_def split: option.splits)
    have "dropWhile (\<lambda>l. quote_match l \<noteq> None) lines = drop 0 (dropWhile (\<lambda>l. quote_match l \<noteq> None) (drop 0 later))"
      using quote Cons by simp
    then have "weight (dropWhile (\<lambda>l. quote_match l \<noteq> None) lines) < weight lines" using rest by metis
    from renders_emit [OF onward [OF this, of r] wf_tags(6) [OF wf_lines [OF wf_join [OF inner(2)]]]]
    show ?thesis using quote inner(1) Cons by (simp add: renders_def [of "Suc n"] blocks.simps(2) Let_def quote_html_def)
  next
    case table
    obtain html more where html: "render_table uc resolve line (hd later) (tl later) = (html, more)" by (metis prod.exhaust)
    then have "weight more < weight lines" using rest [of 0 table_row 1] by (auto simp: render_table_def Let_def drop_Suc)
    from renders_emit [OF onward [OF this, of r], of html] show ?thesis
      using table html wf_table [of uc resolve line "hd later" "tl later"] by (simp add: unfold)
  next
    case (items base content)
    obtain html k where html: "render_list uc resolve base lines = Some (html, drop (Suc k) lines)" "wf_html html"
      using render_list_total [OF items(7,1)] Cons by metis
    have "weight (drop (Suc k) lines) < weight lines" using Cons by (intro weight_drop) simp_all
    from renders_emit [OF onward [OF this, of r] html(2)] show ?thesis
      using items html(1) Cons by (simp add: renders_def [of "Suc n"] blocks.simps(2) Let_def)
  next
    case para
    obtain body more where body: "paragraph_lines uc later = (body, more)" by (metis prod.exhaust)
    then have "weight more < weight lines"
      using paragraph_lines_drop [of uc later] rest [of _ "\<lambda>_. False" 0] by auto
    from renders_emit [OF onward [OF this, of r] wf_tags(5) [OF wf_render_inline]] show ?thesis
      using para body by (simp add: unfold render_paragraph_def)
  qed
qed

lemma blocks_render: "weight lines < n \<Longrightarrow> renders n uc resolve lines r"
proof (induction n arbitrary: lines r)
  case (Suc n)
  show ?case
  proof (cases lines)
    case (Cons line later)
    then show ?thesis by (rule blocks_step) (use Suc in simp)
  qed (simp add: renders_def blocks.simps)
qed simp

text \<open>
  C22. The renderer of the manual terminates on every input, whatever the Unicode tables and the rewriting of the
  links, and its output is well-formed: every element it opens is closed in order, the text of the page
  never becomes markup, no attribute value can be left, and links only lead within the site or to
  \<open>http\<close>, \<open>https\<close> and \<open>mailto\<close> targets.
\<close>

theorem manual_always_renders:
  "\<exists>doc. render_markdown uc resolve s = Some doc \<and> wf_html (doc_html doc)"
  using blocks_render [of "lines_of s" "Suc (weight (lines_of s))" uc resolve new_renderer]
  by (auto simp: renders_def render_markdown_def wf_join split: option.splits)

section \<open>Two corners of the renderer\<close>

text \<open>
  \<open>\S(?:.*?\S)?\<close> prefers the longer form, so the closing mark of a one-letter emphasis is taken for its content when
  another mark follows; and a heading that already ends in the number of a repeated one gets the same slug.
\<close>

definition ascii_tables :: unicode where
  "ascii_tables =
     \<lparr>uc_word = (\<lambda>c. slug_char c \<or> 65 \<le> c \<and> c \<le> 90 \<or> c = 95), uc_digit = is_digit,
      uc_lower = map (\<lambda>c. if 65 \<le> c \<and> c \<le> 90 then c + 32 else c)\<rparr>"

lemma lazy_any_list:
  "lazy_any fin [] = fin []"
  "lazy_any fin (c # cs) =
     (case fin (c # cs) of Some r \<Rightarrow> Some r | None \<Rightarrow> map_option (apfst ((#) c)) (lazy_any fin cs))"
  by (cases "fin []", simp_all add: lazy_any.simps [of fin "[]"])
    (cases "fin (c # cs)", simp_all add: lazy_any.simps [of fin "c # cs"])

lemma short_strong_merges:
  "inline_match ascii_tables None (lit ''**a** **c**'') = Some (Strong (lit ''a** **c''), [])"
  "inline_match ascii_tables None (lit ''**ab** **c**'') = Some (Strong (lit ''ab''), lit '' **c**'')"
  by (simp_all add: inline_match_def lit_def link_match_def autolink_match_def strong_match_def strip_prefix_def
      starts_with_def emphasized_def lazy_any_list nonspace_then_def py_space_def apfst_def)

lemma slug_examples:
  "slugify ascii_tables (lit ''Foo'') = lit ''foo''"
  "slugify ascii_tables (lit ''Foo 2'') = lit ''foo-2''"
  by (simp_all add: slugify_def ascii_tables_def lit_def strip_chars_def slug_char_def)

lemma slugs_collide:
  "let (_, r1) = unique_slug ascii_tables (lit ''Foo'') new_renderer;
       (second, r2) = unique_slug ascii_tables (lit ''Foo'') r1;
       (third, _) = unique_slug ascii_tables (lit ''Foo 2'') r2
   in second = lit ''foo-2'' \<and> third = lit ''foo-2''"
  by (simp add: unique_slug_def slug_examples new_renderer_def Let_def) (simp add: lit_def nat_str.simps)

end
