(* ===== verification/Docs.thy ===== *)
theory Docs
  imports Markdown
begin

text \<open>
  \<^verbatim>\<open>gateway/api/docs_pages.py\<close>: the pages of the built-in manual. The directory of the manual is a parameter, the
  files that exist with their modification times and contents; it is read once per call. The module's cache is a
  map that the operations return updated.
\<close>

record doc_file =
  df_mtime :: rat
  df_bytes :: bytes

type_synonym docs_dir = "str \<rightharpoonup> doc_file"

section \<open>The registry\<close>

record page_meta =
  pm_slug :: str
  pm_section :: str
  pm_icon :: str

definition SECTION_START :: str where "SECTION_START = lit ''Start here''"
definition SECTION_MENUS :: str where "SECTION_MENUS = lit ''Admin menus''"
definition SECTION_INTEGRATION :: str where "SECTION_INTEGRATION = lit ''Integration and operations''"

definition page_entry :: "string \<Rightarrow> str \<Rightarrow> string \<Rightarrow> page_meta" where
  "page_entry slug sec icon = \<lparr>pm_slug = lit slug, pm_section = sec, pm_icon = lit icon\<rparr>"

definition PAGES :: "page_meta list" where
  "PAGES =
     [page_entry ''getting-started'' SECTION_START ''book'',
      page_entry ''sms-format'' SECTION_START ''type'',
      page_entry ''dashboard'' SECTION_MENUS ''grid'',
      page_entry ''chats'' SECTION_MENUS ''chat'',
      page_entry ''messages'' SECTION_MENUS ''message'',
      page_entry ''api-tokens'' SECTION_MENUS ''key'',
      page_entry ''webhook-log'' SECTION_MENUS ''bolt'',
      page_entry ''logs'' SECTION_MENUS ''terminal'',
      page_entry ''users'' SECTION_MENUS ''users'',
      page_entry ''settings'' SECTION_MENUS ''gear'',
      page_entry ''rest-api'' SECTION_INTEGRATION ''code'',
      page_entry ''webhooks'' SECTION_INTEGRATION ''share'',
      page_entry ''troubleshooting'' SECTION_INTEGRATION ''lifebuoy'']"

definition by_slug :: "str \<Rightarrow> page_meta option" where
  "by_slug slug = List.find (\<lambda>m. pm_slug m = slug) PAGES"

record doc_page =
  dp_slug :: str
  dp_title :: str
  dp_summary :: str
  dp_icon :: str
  dp_section :: str
  dp_html :: str
  dp_toc :: "heading list"

section \<open>Links and headers\<close>

text \<open>\<open>_PAGE_LINK_RE.fullmatch\<close>: the name and the fragment.\<close>

definition name_char :: "nat \<Rightarrow> bool" where
  "name_char c \<longleftrightarrow> slug_char c \<or> c = 45"

definition page_link :: "str \<Rightarrow> (str \<times> str) option" where
  "page_link target =
     (case strip_prefix (lit ''.md'') (dropWhile name_char target) of
        None \<Rightarrow> None
      | Some fragment \<Rightarrow>
          if takeWhile name_char target \<noteq> [] \<and> (fragment = [] \<or> hd fragment = 35 \<and> 10 \<notin> set fragment)
          then Some (takeWhile name_char target, fragment) else None)"

definition resolve_link :: "str \<Rightarrow> str" where
  "resolve_link target =
     (case page_link target of
        None \<Rightarrow> target
      | Some (name, fragment) \<Rightarrow>
          if by_slug name = None then target else lit ''/admin/docs/'' @ name @ fragment)"

text \<open>\<open>_H1_RE\<close>. With nothing but blanks after the hash the last blank becomes the title.\<close>

definition h1_match :: "str \<Rightarrow> str option" where
  "h1_match line =
     (case strip_prefix [35] line of
        None \<Rightarrow> None
      | Some s \<Rightarrow>
          let blanks = takeWhile py_space s; body = dropWhile py_space s
          in if blanks = [] then None
             else if body \<noteq> [] then Some (rstrip body)
             else if 2 \<le> length blanks then Some [last blanks] else None)"

definition blank_line :: "str \<Rightarrow> bool" where
  "blank_line line \<longleftrightarrow> strip line = []"

definition summary_line :: "str \<Rightarrow> bool" where
  "summary_line line \<longleftrightarrow> \<not> blank_line line \<and> \<not> starts_with [35] line"

text \<open>\<open>s.replace("\r\n", "\n")\<close>.\<close>

fun crlf_to_lf :: "str \<Rightarrow> str" where
  "crlf_to_lf (c # d # cs) = (if c = 13 \<and> d = 10 then 10 # crlf_to_lf cs else c # crlf_to_lf (d # cs))"
| "crlf_to_lf s = s"

definition split_header :: "str \<Rightarrow> str \<times> str \<times> str" where
  "split_header s =
     (case dropWhile blank_line (split_char 10 (crlf_to_lf s)) of
        [] \<Rightarrow> ([], [], s)
      | line # later \<Rightarrow>
          (case h1_match line of
             None \<Rightarrow> ([], [], s)
           | Some title \<Rightarrow>
               let body = dropWhile blank_line later
               in (title, join_str [32] (map strip (takeWhile summary_line body)),
                   join_str nl (dropWhile summary_line body))))"

section \<open>Loading a page\<close>

text \<open>\<open>_SLUG_RE\<close>: words of \<open>[a-z0-9]\<close>, joined by single hyphens.\<close>

definition slug_ok :: "str \<Rightarrow> bool" where
  "slug_ok s \<longleftrightarrow> list_all (\<lambda>word. word \<noteq> [] \<and> list_all slug_char word) (split_char 45 s)"

definition source_file :: "docs_dir \<Rightarrow> str \<Rightarrow> doc_file option" where
  "source_file dir slug = (if by_slug slug = None \<or> \<not> slug_ok slug then None else dir slug)"

text \<open>\<open>read_text(encoding="utf-8")\<close>, with the universal newlines of text mode.\<close>

definition read_utf8 :: "bytes \<Rightarrow> exn + str" where
  "read_utf8 bs = (case utf8_decode bs of None \<Rightarrow> Inl UnicodeDecodeError | Some s \<Rightarrow> Inr (unix_newlines s))"

text \<open>\<open>slug.replace("-", " ").capitalize()\<close> on the letters a registered slug is made of.\<close>

definition slug_title :: "str \<Rightarrow> str" where
  "slug_title slug =
     (case map (\<lambda>c. if c = 45 then 32 else c) slug of
        [] \<Rightarrow> []
      | c # cs \<Rightarrow> (if 97 \<le> c \<and> c \<le> 122 then c - 32 else c) # cs)"

text \<open>\<open>render\<close> has a result on every input, see \<open>blocks_render\<close>.\<close>

definition render_page :: "unicode \<Rightarrow> page_meta \<Rightarrow> bytes \<Rightarrow> exn + doc_page" where
  "render_page uc meta bs =
     (case read_utf8 bs of
        Inl x \<Rightarrow> Inl x
      | Inr content \<Rightarrow>
          (case split_header content of (title, summary, body) \<Rightarrow>
             let out = the (render_markdown uc (Some resolve_link) body)
             in Inr \<lparr>dp_slug = pm_slug meta, dp_title = (if title \<noteq> [] then title else slug_title (pm_slug meta)),
                  dp_summary = summary, dp_icon = pm_icon meta, dp_section = pm_section meta,
                  dp_html = doc_html out, dp_toc = doc_toc out\<rparr>))"

type_synonym docs_cache = "str \<rightharpoonup> rat \<times> doc_page"

definition cached :: "docs_cache \<Rightarrow> str \<Rightarrow> rat \<Rightarrow> doc_page option" where
  "cached cache slug stamp =
     (case cache slug of None \<Rightarrow> None | Some (s, page) \<Rightarrow> if s = stamp then Some page else None)"

definition load_page :: "unicode \<Rightarrow> docs_dir \<Rightarrow> str \<Rightarrow> docs_cache \<Rightarrow> (exn + doc_page option) \<times> docs_cache" where
  "load_page uc dir slug cache =
     (case source_file dir slug of
        None \<Rightarrow> (Inr None, cache)
      | Some doc \<Rightarrow>
          (case cached cache slug (df_mtime doc) of
             Some page \<Rightarrow> (Inr (Some page), cache)
           | None \<Rightarrow>
               (case render_page uc (the (by_slug slug)) (df_bytes doc) of
                  Inl x \<Rightarrow> (Inl x, cache)
                | Inr page \<Rightarrow> (Inr (Some page), cache(slug \<mapsto> (df_mtime doc, page))))))"

section \<open>Navigation\<close>

fun load_pages :: "unicode \<Rightarrow> docs_dir \<Rightarrow> page_meta list \<Rightarrow> docs_cache \<Rightarrow> (exn + doc_page list) \<times> docs_cache" where
  "load_pages uc dir [] cache = (Inr [], cache)"
| "load_pages uc dir (meta # metas) cache =
     (case load_page uc dir (pm_slug meta) cache of
        (Inl x, c1) \<Rightarrow> (Inl x, c1)
      | (Inr found, c1) \<Rightarrow>
          (case load_pages uc dir metas c1 of
             (Inl x, c2) \<Rightarrow> (Inl x, c2)
           | (Inr pages, c2) \<Rightarrow> (Inr ((case found of None \<Rightarrow> [] | Some p \<Rightarrow> [p]) @ pages), c2)))"

definition list_pages :: "unicode \<Rightarrow> docs_dir \<Rightarrow> docs_cache \<Rightarrow> (exn + doc_page list) \<times> docs_cache" where
  "list_pages uc dir cache = load_pages uc dir PAGES cache"

text \<open>\<open>setdefault(page.section, []).append(page)\<close>: the groups in the order of their first page.\<close>

fun add_to_section :: "doc_page \<Rightarrow> (str \<times> doc_page list) list \<Rightarrow> (str \<times> doc_page list) list" where
  "add_to_section p [] = [(dp_section p, [p])]"
| "add_to_section p ((sec, ps) # rest) =
     (if sec = dp_section p then (sec, ps @ [p]) # rest else (sec, ps) # add_to_section p rest)"

definition group_sections :: "doc_page list \<Rightarrow> (str \<times> doc_page list) list" where
  "group_sections pages = fold add_to_section pages []"

definition sections :: "unicode \<Rightarrow> docs_dir \<Rightarrow> docs_cache \<Rightarrow> (exn + (str \<times> doc_page list) list) \<times> docs_cache" where
  "sections uc dir cache = apfst (map_sum id group_sections) (list_pages uc dir cache)"

definition around :: "str \<Rightarrow> doc_page list \<Rightarrow> doc_page option \<times> doc_page option" where
  "around slug pages =
     (let position = length (takeWhile (\<lambda>p. dp_slug p \<noteq> slug) pages)
      in if position = length pages then (None, None)
         else (if 0 < position then Some (pages ! (position - 1)) else None,
               if position + 1 < length pages then Some (pages ! (position + 1)) else None))"

definition neighbours ::
  "unicode \<Rightarrow> docs_dir \<Rightarrow> str \<Rightarrow> docs_cache \<Rightarrow> (exn + doc_page option \<times> doc_page option) \<times> docs_cache" where
  "neighbours uc dir slug cache = apfst (map_sum id (around slug)) (list_pages uc dir cache)"

text \<open>The two routes of the admin panel.\<close>

definition docs_index :: "unicode \<Rightarrow> docs_dir \<Rightarrow> docs_cache \<Rightarrow> (exn + (str \<times> doc_page list) list) \<times> docs_cache" where
  "docs_index uc dir cache = sections uc dir cache"

definition docs_page ::
  "unicode \<Rightarrow> docs_dir \<Rightarrow> str \<Rightarrow> docs_cache \<Rightarrow> (exn + doc_page \<times> doc_page option \<times> doc_page option) \<times> docs_cache" where
  "docs_page uc dir slug cache =
     (case load_page uc dir slug cache of
        (Inl x, c1) \<Rightarrow> (Inl x, c1)
      | (Inr None, c1) \<Rightarrow> (Inl (HTTPException 404 (lit ''documentation page not found'')), c1)
      | (Inr (Some page), c1) \<Rightarrow> apfst (map_sum id (Pair page)) (neighbours uc dir slug c1))"

section \<open>The cache\<close>

text \<open>
  Where a file that changes gets another modification time, \<open>contents\<close> tells its bytes at each time.
\<close>

definition agrees :: "(str \<Rightarrow> rat \<Rightarrow> bytes) \<Rightarrow> docs_dir \<Rightarrow> bool" where
  "agrees contents dir \<longleftrightarrow> (\<forall>slug doc. dir slug = Some doc \<longrightarrow> df_bytes doc = contents slug (df_mtime doc))"

definition sound_cache :: "unicode \<Rightarrow> (str \<Rightarrow> rat \<Rightarrow> bytes) \<Rightarrow> docs_cache \<Rightarrow> bool" where
  "sound_cache uc contents cache \<longleftrightarrow>
     (\<forall>slug stamp page. cache slug = Some (stamp, page) \<longrightarrow>
        render_page uc (the (by_slug slug)) (contents slug stamp) = Inr page)"

text \<open>A page rendered from the disk.\<close>

definition fresh_page :: "unicode \<Rightarrow> docs_dir \<Rightarrow> str \<Rightarrow> exn + doc_page option" where
  "fresh_page uc dir slug =
     (case source_file dir slug of
        None \<Rightarrow> Inr None
      | Some doc \<Rightarrow> map_sum id Some (render_page uc (the (by_slug slug)) (df_bytes doc)))"

lemma sound_empty [simp]: "sound_cache uc contents Map.empty"
  by (simp add: sound_cache_def)

lemma load_page_fresh:
  assumes "agrees contents dir" and "sound_cache uc contents cache"
  shows "fst (load_page uc dir slug cache) = fresh_page uc dir slug"
    and "sound_cache uc contents (snd (load_page uc dir slug cache))"
proof -
  have "fst (load_page uc dir slug cache) = fresh_page uc dir slug \<and>
      sound_cache uc contents (snd (load_page uc dir slug cache))"
  proof (cases "source_file dir slug")
    case None
    then show ?thesis using assms(2) by (simp add: load_page_def fresh_page_def)
  next
    case (Some doc)
    then have bytes: "df_bytes doc = contents slug (df_mtime doc)"
      using assms(1) by (auto simp: agrees_def source_file_def split: if_splits)
    show ?thesis
    proof (cases "cached cache slug (df_mtime doc)")
      case None
      then show ?thesis
        using Some bytes assms(2)
        by (cases "render_page uc (the (by_slug slug)) (df_bytes doc)")
          (auto simp: load_page_def fresh_page_def sound_cache_def)
    next
      case hit: (Some page)
      then have "cache slug = Some (df_mtime doc, page)" by (auto simp: cached_def split: option.splits if_splits)
      then have "render_page uc (the (by_slug slug)) (df_bytes doc) = Inr page"
        using assms(2) bytes by (simp add: sound_cache_def)
      with Some hit assms(2) show ?thesis by (simp add: load_page_def fresh_page_def)
    qed
  qed
  then show "fst (load_page uc dir slug cache) = fresh_page uc dir slug"
    "sound_cache uc contents (snd (load_page uc dir slug cache))" by simp_all
qed

fun fresh_pages :: "unicode \<Rightarrow> docs_dir \<Rightarrow> page_meta list \<Rightarrow> exn + doc_page list" where
  "fresh_pages uc dir [] = Inr []"
| "fresh_pages uc dir (meta # metas) =
     (case fresh_page uc dir (pm_slug meta) of
        Inl x \<Rightarrow> Inl x
      | Inr found \<Rightarrow> map_sum id (\<lambda>pages. (case found of None \<Rightarrow> [] | Some p \<Rightarrow> [p]) @ pages) (fresh_pages uc dir metas))"

lemma load_pages_fresh:
  assumes "agrees contents dir"
  shows "sound_cache uc contents cache \<Longrightarrow>
    fst (load_pages uc dir metas cache) = fresh_pages uc dir metas \<and>
    sound_cache uc contents (snd (load_pages uc dir metas cache))"
proof (induction metas arbitrary: cache)
  case (Cons meta metas)
  obtain res c1 where load: "load_page uc dir (pm_slug meta) cache = (res, c1)" by (metis prod.exhaust)
  then have res: "fresh_page uc dir (pm_slug meta) = res" "sound_cache uc contents c1"
    using load_page_fresh [OF assms Cons.prems, of "pm_slug meta"] by simp_all
  show ?case
  proof (cases res)
    case (Inl x)
    then show ?thesis using load res by simp
  next
    case (Inr found)
    obtain res2 c2 where "load_pages uc dir metas c1 = (res2, c2)" by (metis prod.exhaust)
    moreover from this have "fresh_pages uc dir metas = res2" "sound_cache uc contents c2"
      using Cons.IH [OF res(2)] by simp_all
    ultimately show ?thesis using load res Inr by (cases res2) simp_all
  qed
qed simp

definition fresh_docs_page :: "unicode \<Rightarrow> docs_dir \<Rightarrow> str \<Rightarrow> exn + doc_page \<times> doc_page option \<times> doc_page option" where
  "fresh_docs_page uc dir slug =
     (case fresh_page uc dir slug of
        Inl x \<Rightarrow> Inl x
      | Inr None \<Rightarrow> Inl (HTTPException 404 (lit ''documentation page not found''))
      | Inr (Some page) \<Rightarrow> map_sum id (\<lambda>pages. (page, around slug pages)) (fresh_pages uc dir PAGES))"

lemma docs_page_fresh:
  assumes "agrees contents dir" and "sound_cache uc contents cache"
  shows "fst (docs_page uc dir slug cache) = fresh_docs_page uc dir slug"
    and "sound_cache uc contents (snd (docs_page uc dir slug cache))"
proof -
  obtain res c1 where load: "load_page uc dir slug cache = (res, c1)" by (metis prod.exhaust)
  then have res: "fresh_page uc dir slug = res" "sound_cache uc contents c1"
    using load_page_fresh [OF assms, of slug] by simp_all
  obtain res2 c2 where pages: "load_pages uc dir PAGES c1 = (res2, c2)" by (metis prod.exhaust)
  then have res2: "fresh_pages uc dir PAGES = res2" "sound_cache uc contents c2"
    using load_pages_fresh [OF assms(1) res(2), of PAGES] by simp_all
  show "fst (docs_page uc dir slug cache) = fresh_docs_page uc dir slug"
    "sound_cache uc contents (snd (docs_page uc dir slug cache))"
    using load res pages res2
    by (cases res; cases res2;
        auto simp: docs_page_def fresh_docs_page_def neighbours_def list_pages_def split: option.splits)+
qed

text \<open>The answers to a series of requests, each with the directory it finds, from one cache.\<close>

fun serve_docs :: "unicode \<Rightarrow> (docs_dir \<times> str) list \<Rightarrow> docs_cache \<Rightarrow>
    (exn + doc_page \<times> doc_page option \<times> doc_page option) list" where
  "serve_docs uc [] cache = []"
| "serve_docs uc ((dir, slug) # requests) cache =
     (case docs_page uc dir slug cache of (answer, c1) \<Rightarrow> answer # serve_docs uc requests c1)"

lemma serve_docs_fresh:
  "(\<forall>(dir, slug) \<in> set requests. agrees contents dir) \<Longrightarrow> sound_cache uc contents cache \<Longrightarrow>
     serve_docs uc requests cache = map (\<lambda>(dir, slug). fresh_docs_page uc dir slug) requests"
proof (induction uc requests cache rule: serve_docs.induct)
  case (2 uc dir slug requests cache)
  then have "agrees contents dir" by simp
  from docs_page_fresh [OF this "2.prems"(2), of slug] "2.IH" [OF surjective_pairing [symmetric]] "2.prems"(1)
  show ?case by (simp add: case_prod_beta)
qed simp

text \<open>
  C40. Whatever pages of the manual are asked for in whatever order, and however the files change in
  between, every answer is the one rendered from the files as they are at that moment: the cache is never
  seen, as long as a file that changes gets another modification time.
\<close>

theorem manual_cache_transparent:
  assumes "\<forall>(dir, slug) \<in> set requests. agrees contents dir"
  shows "serve_docs uc requests Map.empty = map (\<lambda>(dir, slug). fresh_docs_page uc dir slug) requests"
  using serve_docs_fresh [OF assms sound_empty] .

definition sample_contents :: "str \<Rightarrow> rat \<Rightarrow> bytes" where
  "sample_contents slug stamp = (if stamp = 1 then lit ''# Logs'' else lit ''# Event log'')"

definition sample_dir :: "rat \<Rightarrow> docs_dir" where
  "sample_dir stamp = [lit ''logs'' \<mapsto> \<lparr>df_mtime = stamp, df_bytes = sample_contents (lit ''logs'') stamp\<rparr>]"

theorem manual_cache_transparent_witness:
  "serve_docs ascii_tables [(sample_dir 1, lit ''logs''), (sample_dir 2, lit ''logs''), (sample_dir 1, lit ''none'')] Map.empty =
     [fresh_docs_page ascii_tables (sample_dir 1) (lit ''logs''), fresh_docs_page ascii_tables (sample_dir 2) (lit ''logs''),
      Inl (HTTPException 404 (lit ''documentation page not found''))]"
proof -
  let ?requests = "[(sample_dir 1, lit ''logs''), (sample_dir 2, lit ''logs''), (sample_dir 1, lit ''none'')]"
  have "agrees sample_contents (sample_dir stamp)" for stamp by (simp add: agrees_def sample_dir_def)
  then have "\<forall>(dir, slug) \<in> set ?requests. agrees sample_contents dir" by simp
  from manual_cache_transparent [OF this, of ascii_tables] show ?thesis
    by (simp add: fresh_docs_page_def fresh_page_def source_file_def by_slug_def PAGES_def page_entry_def)
qed

end
