(* ===== verification/System.thy ===== *)
theory System
  imports Dashboard
begin

text \<open>
  The gateway as a whole: the API process, its webhook dispatcher and the worker share nothing but the database, so a
  run is a sequence of their commits. This theory says which rows are well-typed, that every part keeps
  them so, and what the readers of the database gain from it.
\<close>

section \<open>Well-typed rows\<close>

definition timestamp :: "str \<Rightarrow> bool" where
  "timestamp s \<longleftrightarrow> (\<exists>t. in_range t \<and> s = iso t)"

definition typed_message :: "message \<Rightarrow> bool" where
  "typed_message m \<longleftrightarrow> timestamp (msg_created_at m) \<and> (msg_direction m = Inbound \<longleftrightarrow> msg_status m = Received) \<and>
     (msg_status m \<in> {Sent, Delivered} \<longrightarrow> msg_sent_at m \<noteq> None) \<and>
     (msg_status m = Delivered \<longrightarrow> msg_delivered_at m \<noteq> None) \<and>
     (msg_status m = Failed \<longrightarrow> msg_error m \<noteq> None) \<and>
     (msg_status m = Received \<longrightarrow> msg_received_at m \<noteq> None)"

definition typed_token :: "api_token \<Rightarrow> bool" where
  "typed_token t \<longleftrightarrow> pred_option timestamp (tok_last_used_at t)"

definition typed_status :: "(str \<rightharpoonup> kv_row) \<Rightarrow> bool" where
  "typed_status g \<longleftrightarrow>
     pred_option (timestamp \<circ> kv_value) (g (lit ''worker_heartbeat'')) \<and>
     pred_option (\<lambda>r. kv_value r = [] \<or> (\<exists>p. kv_value r = int_str p)) (g (lit ''signal_percent''))"

definition typed :: "database \<Rightarrow> bool" where
  "typed d \<longleftrightarrow> list_all typed_message (messages d) \<and> list_all typed_token (api_tokens d) \<and>
     typed_status (gateway_status d)"

definition clock_ok :: "'d world \<Rightarrow> bool" where
  "clock_ok w \<longleftrightarrow> (\<forall>i. in_range (wall (env w) i))"

text \<open>The invariant of the whole database; \<open>admin\<close> is the name of the permanent admin.\<close>

definition sound_db :: "str \<Rightarrow> database \<Rightarrow> bool" where
  "sound_db admin d \<longleftrightarrow> keys_ok d \<and> refs_ok d \<and> hook_ok d \<and> admin \<notin> usr_username ` set (admin_users d) \<and> typed d"

lemma timestamp_iso [simp, intro]: "in_range t \<Longrightarrow> timestamp (iso t)"
  by (auto simp: timestamp_def)

lemma clock_ok_iso: "clock_ok w \<Longrightarrow> timestamp (iso (wall (env w) i))"
  by (simp add: clock_ok_def)

lemma clock_ok_advance [simp]: "clock_ok (advance n w) = clock_ok w"
  by (simp add: clock_ok_def)

lemma clock_ok_db [simp]: "clock_ok (w\<lparr>db := d\<rparr>) = clock_ok w"
  by (simp add: clock_ok_def)

lemma typed_cong:
  "messages d' = messages d \<Longrightarrow> api_tokens d' = api_tokens d \<Longrightarrow> gateway_status d' = gateway_status d \<Longrightarrow>
   typed d' = typed d"
  by (simp add: typed_def)

lemma typed_record_event [simp]: "typed (db (record_event s l c w)) = typed (db w)"
  by (rule typed_cong) simp_all

lemma typed_set_config [simp]: "typed (db (set_config k v w)) = typed (db w)"
  by (rule typed_cong) simp_all

lemma typed_other_tables [simp]:
  "typed (d\<lparr>deliveries := x\<rparr>) = typed d" "typed (d\<lparr>admin_users := y\<rparr>) = typed d"
  by (simp_all add: typed_def)

lemma typed_add_message:
  "typed d \<Longrightarrow> typed_message m \<Longrightarrow> add_message m d = Inr d' \<Longrightarrow> typed d'"
  by (auto simp: add_message_Inr typed_def)

section \<open>Requests keep the rows well-typed\<close>

lemma new_outbound_typed:
  assumes "new_outbound a b w = (Inr m, w1)" and "clock_ok w"
  shows "typed_message m" and "db w1 = db w"
  using assms clock_ok_iso [of w]
  by (auto simp: new_outbound_def message_id_def new_id_def utc_now_iso_def typed_message_def split: sum.splits)

lemma new_outbound_db [simp]: "db (snd (new_outbound a b w)) = db w"
  by (simp add: new_outbound_def message_id_def new_id_def utc_now_iso_def split: sum.split)

lemma typed_commit_message: "typed (db w) \<Longrightarrow> typed_message m \<Longrightarrow> typed (db (snd (commit_message m w)))"
  by (auto simp: commit_message_def typed_add_message split: sum.splits)

lemma typed_enqueue:
  assumes "clock_ok w" and "typed (db w)"
  shows "typed (db (snd (enqueue_outbound a b w)))"
proof -
  obtain r w1 where new: "new_outbound a b w = (r, w1)" by (metis prod.exhaust)
  then have db: "db w1 = db w" using new_outbound_db [of a b w] by simp
  show ?thesis
  proof (cases r)
    case (Inr m)
    then have "typed_message m" using new_outbound_typed new assms(1) by blast
    then have "typed (db (snd (commit_message m w1)))" using typed_commit_message [of w1 m] assms(2) db by simp
    then show ?thesis using new Inr by (auto simp: enqueue_outbound_def split: prod.splits sum.splits)
  qed (use new db assms(2) in \<open>simp add: enqueue_outbound_def\<close>)
qed

lemma typed_post_message:
  assumes "clock_ok w" and "typed (db w)"
  shows "typed (db (snd (post_message a b w)))"
proof -
  obtain r w1 where new: "new_outbound a b w = (r, w1)" by (metis prod.exhaust)
  then have db: "db w1 = db w" using new_outbound_db [of a b w] by simp
  have "typed (db (snd (commit_message m w1)))" if "r = Inr m" for m
    using typed_commit_message [of w1 m] new_outbound_typed [of a b w m w1] assms db new that by simp
  then show ?thesis
    using assms(2) new db
    by (fastforce simp: post_message_def split: option.splits sum.splits bool.splits prod.splits)
qed

lemma typed_chat_send: "clock_ok w \<Longrightarrow> typed (db w) \<Longrightarrow> typed (db (snd (chat_send hx a b w)))"
  using typed_enqueue [of w a "strip b"]
  by (cases "enqueue_outbound a (strip b) w") (auto simp: chat_send_def http_error_def split: sum.splits)

lemma typed_test_sms:
  assumes "clock_ok w" and "typed (db w)"
  shows "typed (db (snd (send_test_sms a b w)))"
proof -
  define content where "content = (if strip b \<noteq> [] then strip b else lit ''Test from Open SMS Gateway'')"
  show ?thesis
    using assms typed_enqueue [OF assms, of a content] unfolding send_test_sms_def content_def [symmetric] Let_def
    by (cases "enqueue_outbound a content w") (auto simp: http_error_def split: sum.splits)
qed

lemma typed_tokens:
  "typed (db w) \<Longrightarrow> list_all typed_token (f (api_tokens (db w))) \<Longrightarrow> typed (db (with_tokens f w))"
  by (simp add: with_tokens_def typed_def)

lemma typed_create_token: "typed (db w) \<Longrightarrow> typed (db (snd (create_token_action f label w)))"
proof -
  assume typed: "typed (db w)"
  obtain plaintext w1 where new: "new_api_token w = (plaintext, w1)" by (metis prod.exhaust)
  have "typed d" if "add_token t (db w) = Inr d" "tok_last_used_at t = None" for t d
    using that typed by (auto simp: add_token_Inr typed_def typed_token_def)
  then show ?thesis
    using typed new new_api_token_frame(1) [OF new]
    by (auto simp: create_token_action_def token_id_def new_id_def utc_now_iso_def split: sum.splits)
qed

lemma typed_revoke: "typed (db w) \<Longrightarrow> typed (db (snd (revoke_token k w)))"
proof -
  assume typed: "typed (db w)"
  then have "typed (db (with_tokens (map (\<lambda>t. if tok_id t = k then t\<lparr>tok_revoked_at := v\<rparr> else t)) (advance 1 w)))" for v
    by (intro typed_tokens) (auto simp: typed_def list_all_iff typed_token_def)
  then show ?thesis using typed by (auto simp: revoke_token_def http_error_def utc_now_iso_def split: option.splits)
qed

lemma typed_delete_token: "typed (db w) \<Longrightarrow> typed (db (snd (delete_token k w)))"
proof -
  assume typed: "typed (db w)"
  then have "typed (db (with_tokens (filter (\<lambda>t. tok_id t \<noteq> k)) w))"
    by (intro typed_tokens) (auto simp: typed_def list_all_iff)
  then show ?thesis using typed by (auto simp: delete_token_def http_error_def split: option.splits)
qed

lemma typed_purge: "typed (db w) \<Longrightarrow> typed (db (snd (purge_messages n w)))"
proof -
  assume typed: "typed (db w)"
  have "typed (delete_older c d)" if "typed d" for c d
    using that by (auto simp: delete_older_def typed_def list_all_iff Let_def)
  then show ?thesis using typed by (simp add: purge_messages_def http_error_def now_utc_def Let_def)
qed

lemma typed_settings:
  "typed (db w) \<Longrightarrow> typed (db (snd (set_own_number s w)))"
  "typed (db w) \<Longrightarrow> typed (db (snd (set_webhook s w)))"
  "typed (db w) \<Longrightarrow> typed (db (snd (rotate_webhook_secret w)))"
  "typed (db w) \<Longrightarrow> typed (db (snd (restart_worker w)))"
  "typed (db w) \<Longrightarrow> typed (db (snd (restart_api w)))"
  by (auto simp: set_own_number_def set_webhook_def rotate_webhook_secret_def restart_worker_def restart_api_def
      http_error_def Let_def utc_now_iso_def split: prod.splits dest: new_webhook_secret_frame)

lemma typed_retry: "typed (db w) \<Longrightarrow> typed (db (snd (retry_delivery k w)))"
  by (auto simp: retry_delivery_def http_error_def utc_now_iso_def update_delivery_Inr split: option.splits sum.splits)

lemma typed_users:
  "typed (db w) \<Longrightarrow> typed (db (snd (create_user f printable name p w)))"
  "typed (db w) \<Longrightarrow> typed (db (snd (change_user_password f k p w)))"
  "typed (db w) \<Longrightarrow> typed (db (snd (delete_user k w)))"
proof -
  assume typed: "typed (db w)"
  obtain h w1 where h: "token_hex 8 w = (h, w1)" by (metis prod.exhaust)
  obtain r w2 where r: "hash_password f p w1 = (r, w2)" by (metis prod.exhaust)
  have "db w2 = db w" using readings_preserve [of 8 w] hash_password_frame [of f p w1] by (simp add: h r)
  then show "typed (db (snd (create_user f printable name p w)))"
    using typed
    by (auto simp: create_user_def http_error_def Let_def h r utc_now_iso_def add_user_Inr
        split: option.splits sum.splits)
  obtain q w3 where q: "hash_password f p w = (q, w3)" by (metis prod.exhaust)
  then have "db w3 = db w" using hash_password_frame [of f p w] by simp
  then show "typed (db (snd (change_user_password f k p w)))"
    using typed by (auto simp: change_user_password_def http_error_def q split: option.splits sum.splits)
  show "typed (db (snd (delete_user k w)))"
    using typed by (auto simp: delete_user_def http_error_def Let_def split: option.splits)
qed

lemmas request_typed =
  typed_create_token typed_revoke typed_delete_token typed_purge typed_settings typed_chat_send typed_test_sms
  typed_retry typed_users typed_post_message

lemma api_step_typed: "api_step w w' \<Longrightarrow> clock_ok w \<Longrightarrow> typed (db w) \<Longrightarrow> typed (db w')"
  by (induction rule: api_step.induct) (simp_all add: request_typed)

text \<open>No handler changes the settings of the process.\<close>

lemma new_message_drv:
  "new_outbound a b w = (q, w1) \<Longrightarrow> drv w1 = drv w" "commit_message m w = (p, w2) \<Longrightarrow> drv w2 = drv w"
  "enqueue_outbound a b w = (s, w3) \<Longrightarrow> drv w3 = drv w"
  by (auto simp: enqueue_outbound_def new_outbound_def commit_message_def message_id_def new_id_def utc_now_iso_def
      split: sum.splits)

lemma drawn_drv:
  "token_hex n w = (h, w1) \<Longrightarrow> drv w1 = drv w" "hash_password f p w = (q, w2) \<Longrightarrow> drv w2 = drv w"
  using readings_preserve(4) [of n w] hash_password_frame(2) [of f p w] by simp_all

lemma api_step_drv: "api_step w w' \<Longrightarrow> drv w' = drv w"
proof (induction rule: api_step.induct)
  case (step_create_token w sha256 label)
  then show ?case
    by (auto simp: create_token_action_def token_id_def new_id_def utc_now_iso_def split: prod.splits sum.splits
        dest!: new_api_token_frame(2))
next
  case (step_webhook w s)
  then show ?case
    by (auto simp: set_webhook_def http_error_def Let_def split: prod.splits dest!: new_webhook_secret_frame(2))
next
  case (step_rotate w)
  then show ?case
    by (auto simp: rotate_webhook_secret_def http_error_def split: prod.splits dest!: new_webhook_secret_frame(2))
next
  case (step_chat_send w hx to body)
  then show ?case
    by (auto simp: chat_send_def http_error_def split: prod.splits sum.splits dest!: new_message_drv)
next
  case (step_test_sms w to body)
  then show ?case
    by (auto simp: send_test_sms_def http_error_def Let_def split: prod.splits sum.splits dest!: new_message_drv)
next
  case (step_create_user w pbkdf2 printable name password)
  then show ?case
    by (auto simp: create_user_def http_error_def Let_def utc_now_iso_def split: prod.splits sum.splits option.splits
        dest!: drawn_drv)
next
  case (step_change_password w pbkdf2 k password)
  then show ?case
    by (auto simp: change_user_password_def http_error_def Let_def split: prod.splits sum.splits option.splits
        dest!: drawn_drv)
next
  case (step_post_message w to body)
  then show ?case
    by (auto simp: post_message_def split: prod.splits sum.splits option.splits bool.splits dest!: new_message_drv)
qed (auto simp: revoke_token_def delete_token_def purge_messages_def set_own_number_def retry_delivery_def
    delete_user_def restart_worker_def restart_api_def http_error_def with_tokens_def utc_now_iso_def now_utc_def Let_def
    split: option.splits sum.splits)

text \<open>What a request does to the messages: it deletes some, or queues one under a new identifier.\<close>

definition api_rows :: "database \<Rightarrow> database \<Rightarrow> bool" where
  "api_rows d d' \<longleftrightarrow> (ids_distinct d \<longrightarrow> ids_distinct d') \<and>
     (\<forall>m' \<in> set (messages d'). m' \<in> set (messages d) \<or> queued m' \<and> get_message d (msg_id m') = None)"

lemma api_rows_same: "messages d' = messages d \<Longrightarrow> api_rows d d'"
  by (simp add: api_rows_def ids_distinct_def)

lemma api_rows_commit: "queued m \<Longrightarrow> api_rows (db w) (db (snd (commit_message m w)))"
  by (auto simp: commit_message_def add_message_Inr api_rows_def ids_distinct_def get_message_None_iff split: sum.splits)

lemma new_outbound_queued: "new_outbound a b w = (Inr m, w1) \<Longrightarrow> queued m"
  by (auto simp: new_outbound_def message_id_def new_id_def utc_now_iso_def queued_def split: sum.splits)

lemma rows_enqueue: "api_rows (db w) (db (snd (enqueue_outbound a b w)))"
proof -
  obtain r w1 where new: "new_outbound a b w = (r, w1)" by (metis prod.exhaust)
  then have db: "db w1 = db w" using new_outbound_db [of a b w] by simp
  show ?thesis
  proof (cases r)
    case (Inr m)
    then have "queued m" using new_outbound_queued new by blast
    with api_rows_commit [of m w1] have "api_rows (db w) (db (snd (commit_message m w1)))" by (simp add: db)
    then show ?thesis using new Inr by (auto simp: enqueue_outbound_def split: prod.splits sum.splits)
  qed (use new db in \<open>simp add: enqueue_outbound_def api_rows_same\<close>)
qed

lemma rows_post: "api_rows (db w) (db (snd (post_message a b w)))"
proof -
  obtain r w1 where new: "new_outbound a b w = (r, w1)" by (metis prod.exhaust)
  then have db: "db w1 = db w" using new_outbound_db [of a b w] by simp
  have "api_rows (db w) (db (snd (commit_message m w1)))" if "r = Inr m" for m
    using api_rows_commit [of m w1] new_outbound_queued [of a b w m w1] new that by (simp add: db)
  then show ?thesis
    using new db api_rows_same [OF refl, of "db w"]
    by (fastforce simp: post_message_def split: option.splits sum.splits bool.splits prod.splits)
qed

lemma rows_chat: "api_rows (db w) (db (snd (chat_send hx a b w)))"
  using rows_enqueue [of w a "strip b"]
  by (cases "enqueue_outbound a (strip b) w") (auto simp: chat_send_def http_error_def api_rows_same split: sum.splits)

lemma rows_test: "api_rows (db w) (db (snd (send_test_sms a b w)))"
proof -
  define content where "content = (if strip b \<noteq> [] then strip b else lit ''Test from Open SMS Gateway'')"
  show ?thesis
    using rows_enqueue [of w a content] unfolding send_test_sms_def content_def [symmetric] Let_def
    by (cases "enqueue_outbound a content w") (auto simp: http_error_def api_rows_def ids_distinct_def split: sum.splits)
qed

lemma rows_purge: "api_rows (db w) (db (snd (purge_messages n w)))"
  by (auto simp: purge_messages_def http_error_def now_utc_def delete_older_def api_rows_def ids_distinct_def Let_def
      distinct_map_filter)

lemma rows_create_token: "messages (db (snd (create_token_action f label w))) = messages (db w)"
proof -
  obtain plaintext w1 where new: "new_api_token w = (plaintext, w1)" by (metis prod.exhaust)
  then show ?thesis using new_api_token_frame(1) [OF new]
    by (auto simp: create_token_action_def token_id_def new_id_def utc_now_iso_def add_token_Inr split: sum.splits)
qed

lemma rows_others:
  "messages (db (snd (revoke_token k w))) = messages (db w)"
  "messages (db (snd (delete_token k w))) = messages (db w)"
  "messages (db (snd (set_own_number s w))) = messages (db w)"
  "messages (db (snd (restart_worker w))) = messages (db w)"
  "messages (db (snd (restart_api w))) = messages (db w)"
  "messages (db (snd (retry_delivery k w))) = messages (db w)"
  "messages (db (snd (delete_user k w))) = messages (db w)"
  by (auto simp: revoke_token_def delete_token_def set_own_number_def restart_worker_def restart_api_def retry_delivery_def
      delete_user_def with_tokens_def http_error_def utc_now_iso_def update_delivery_Inr Let_def
      split: option.splits sum.splits)

lemma rows_webhook:
  "messages (db (snd (set_webhook s w))) = messages (db w)"
  "messages (db (snd (rotate_webhook_secret w))) = messages (db w)"
  by (auto simp: set_webhook_def rotate_webhook_secret_def http_error_def Let_def split: prod.splits dest: new_webhook_secret_frame)

lemma rows_users:
  "messages (db (snd (create_user f printable name p w))) = messages (db w)"
  "messages (db (snd (change_user_password f k p w))) = messages (db w)"
proof -
  obtain h w1 where h: "token_hex 8 w = (h, w1)" by (metis prod.exhaust)
  obtain r w2 where r: "hash_password f p w1 = (r, w2)" by (metis prod.exhaust)
  have "db w2 = db w" using readings_preserve [of 8 w] hash_password_frame [of f p w1] by (simp add: h r)
  then show "messages (db (snd (create_user f printable name p w))) = messages (db w)"
    by (auto simp: create_user_def http_error_def Let_def h r utc_now_iso_def add_user_Inr split: option.splits sum.splits)
  obtain q w3 where q: "hash_password f p w = (q, w3)" by (metis prod.exhaust)
  then have "db w3 = db w" using hash_password_frame [of f p w] by simp
  then show "messages (db (snd (change_user_password f k p w))) = messages (db w)"
    by (auto simp: change_user_password_def http_error_def q split: option.splits sum.splits)
qed

lemma api_step_rows: "api_step w w' \<Longrightarrow> api_rows (db w) (db w')"
  by (induction rule: api_step.induct)
    (simp_all add: rows_post rows_chat rows_test rows_purge api_rows_same rows_create_token rows_others rows_webhook rows_users)

lemma authenticate_messages: "messages (db (snd (authenticate sha256 header w))) = messages (db w)"
  by (auto simp: authenticate_def utc_now_iso_def needs_refresh_def stamp_token_def now_utc_def
    split: option.splits sum.splits prod.splits)

lemma api_step_sound:
  assumes "api_step w w'" and "clock_ok w" and "sound_db (st_admin_user (app_settings (drv w))) (db w)"
  shows "sound_db (st_admin_user (app_settings (drv w))) (db w')"
proof -
  have "admin_inv w" using assms(3) by (simp add: sound_db_def admin_inv_def)
  from api_step_inv [OF assms(1) this] api_step_typed [OF assms(1,2)] assms(3) show ?thesis
    by (simp add: sound_db_def admin_inv_def api_step_drv [OF assms(1)])
qed

text \<open>The bearer authentication writes the time of last use.\<close>

lemma authenticate_sound:
  assumes "clock_ok w" and "sound_db admin (db w)"
  shows "sound_db admin (db (snd (authenticate sha256 header w)))"
proof -
  have stamped: "sound_db admin (stamp_token k (iso (wall (env w) i)) (db w))" for k i
  proof -
    let ?f = "\<lambda>t. if tok_id t = k then t\<lparr>tok_last_used_at := Some (iso (wall (env w) i))\<rparr> else t"
    have same: "map tok_id (map ?f ts) = map tok_id ts" "map tok_hash (map ?f ts) = map tok_hash ts" for ts
      by simp_all
    have "list_all typed_token ts \<Longrightarrow> list_all typed_token (map ?f ts)" for ts
      using clock_ok_iso [OF assms(1)] by (auto simp: list_all_iff typed_token_def)
    then show ?thesis
      using assms(2)
      by (simp add: sound_db_def keys_ok_def refs_ok_def hook_ok_def get_config_def typed_def stamp_token_def same
          del: map_map)
  qed
  have refreshed: "needs_refresh v w = (q, w1) \<Longrightarrow> w1 = w \<or> w1 = advance 1 w" for v q w1
    using needs_refresh_world [of v w] by auto
  show ?thesis
    using assms(2) stamped
    by (auto simp: authenticate_def utc_now_iso_def split: option.splits sum.splits prod.splits dest!: refreshed)
qed

section \<open>The worker keeps the database sound\<close>

text \<open>Same tables but for the messages; and for the events and settings of the worker.\<close>

lemma sound_messages:
  assumes "sound_db admin d" and "\<And>m. m \<in> set (messages d) \<Longrightarrow> msg_id (f m) = msg_id m \<and> typed_message (f m)"
  shows "sound_db admin (d\<lparr>messages := map f (messages d)\<rparr>)"
proof -
  have ids: "map msg_id (map f (messages d)) = map msg_id (messages d)" using assms(2) by simp
  then have "msg_id ` set (map f (messages d)) = msg_id ` set (messages d)" by (metis set_map)
  with ids show ?thesis
    using assms by (auto simp: sound_db_def keys_ok_def refs_ok_def hook_ok_def get_config_def typed_def list_all_iff
        simp del: map_map)
qed

lemma sound_same:
  assumes "messages d' = messages d" and "deliveries d' = deliveries d" and "api_tokens d' = api_tokens d"
    and "admin_users d' = admin_users d" and "typed_status (gateway_status d) \<longrightarrow> typed_status (gateway_status d')"
    and "\<And>k. k \<in> {WEBHOOK_URL, WEBHOOK_SECRET} \<Longrightarrow> get_config d' k = get_config d k"
  shows "sound_db admin d \<Longrightarrow> sound_db admin d'"
  using assms by (simp add: sound_db_def keys_ok_def refs_ok_def hook_ok_def typed_def)

lemma sound_record_event [simp]: "sound_db admin (db (record_event s l c w)) = sound_db admin (db w)"
  by (auto intro: sound_same [rotated -1])

lemma requeue_typed: "typed_message m \<Longrightarrow> typed_message (requeue m)"
  by (auto simp: requeue_def interrupted_def typed_message_def)

lemma sound_recover:
  assumes "sound_db admin (db w)"
  shows "sound_db admin (db (snd (recover_interrupted_sends w)))"
proof -
  have "sound_db admin ((db w)\<lparr>messages := map requeue (messages (db w))\<rparr>)"
    by (rule sound_messages [OF assms])
      (use assms requeue_typed in \<open>auto simp: sound_db_def typed_def list_all_iff requeue_def\<close>)
  then show ?thesis by (simp add: recover_interrupted_sends_def Let_def)
qed

lemma turn_typed: "in_transit m \<Longrightarrow> typed_message m \<Longrightarrow> typed_message (turn_update t m)"
  by (cases t) (auto simp: in_transit_def typed_message_def mark_sent_def mark_failed_def)

text \<open>A turn of the queue, with whatever is committed meanwhile.\<close>

interpretation sound: outbox_contract "sound_db admin" for admin
proof
  fix d k and t :: turn
  assume d: "sound_db admin d"
  then have typed: "typed_message m" if "m \<in> set (messages d)" for m
    using that by (simp add: sound_db_def typed_def list_all_iff)
  show "sound_db admin (with_message k (\<lambda>m. m\<lparr>msg_status := Sending\<rparr>) d)" if "awaiting [k] d"
    unfolding with_message_def using that typed
    by (intro sound_messages [OF d]) (auto simp: awaiting_def queued_def typed_message_def)
  show "sound_db admin (with_message k (turn_update t) d)" if "\<forall>m \<in> set (messages d). msg_id m = k \<longrightarrow> in_transit m"
    unfolding with_message_def using that typed turn_typed by (intro sound_messages [OF d]) auto
qed

lemma sound_add_message:
  assumes "sound_db admin d" and "typed_message m" and "add_message m d = Inr d'"
  shows "sound_db admin d'"
  using assms typed_add_message [of d m d']
  by (auto simp: sound_db_def add_message_Inr keys_ok_def refs_ok_def hook_ok_def get_config_def get_message_None_iff)

lemma sound_add_delivery:
  assumes "sound_db admin d" and "add_delivery r d = Inr d'"
  shows "sound_db admin d'"
proof -
  have "get_message d (whd_message_id r) \<noteq> None" and d': "d' = d\<lparr>deliveries := deliveries d @ [r]\<rparr>"
    using assms(2) by (simp_all add: add_delivery_Inr)
  then have "whd_message_id r \<in> msg_id ` set (messages d)" by (metis get_message_None_iff)
  with assms(1) show ?thesis unfolding d' by (simp add: sound_db_def keys_ok_def refs_ok_def hook_ok_def get_config_def)
qed

lemma received_typed: "timestamp now \<Longrightarrow> typed_message (received_message k number body received segments now)"
  by (simp add: received_message_def typed_message_def)

lemma sound_store_text:
  assumes "clock_ok w" and "sound_db admin (db w)"
  shows "sound_db admin (db (snd (store_text configured e w)))" and "clock_ok (snd (store_text configured e w))"
proof -
  have pending: "sound_db admin (db v) \<Longrightarrow> sound_db admin (db (snd (add_pending_delivery k v)))"
    "clock_ok (snd (add_pending_delivery k v)) = clock_ok v" for k and v :: "'a world"
  proof -
    define r where "r = new_delivery (lit ''whd'' @ lit ''_'' @ ulid (env v) (Suc (tick (env v)))) k (iso (wall (env v) (tick (env v))))"
    have "add_pending_delivery k v = (case add_delivery r (db v) of
        Inl x \<Rightarrow> (Inl x, advance (Suc 0) (advance (Suc 0) v))
      | Inr d \<Rightarrow> (Inr (), (advance (Suc 0) (advance (Suc 0) v))\<lparr>db := d\<rparr>))"
      by (simp add: add_pending_delivery_def utc_now_iso_def delivery_id_def new_id_def r_def)
    then show "sound_db admin (db v) \<Longrightarrow> sound_db admin (db (snd (add_pending_delivery k v)))"
      "clock_ok (snd (add_pending_delivery k v)) = clock_ok v"
      using sound_add_delivery [of admin "db v" r] by (simp_all split: sum.splits)
  qed
  have "sound_db admin (db (snd (store_text configured e w))) \<and> clock_ok (snd (store_text configured e w))"
  proof (cases e)
    case (InboundSMS number body received segments)
    let ?m = "received_message (lit ''msg'' @ lit ''_'' @ ulid (env w) (tick (env w))) number body received segments
      (iso (wall (env w) (Suc (tick (env w)))))"
    show ?thesis
    proof (cases "add_message ?m (db w)")
      case (Inr d)
      then have "sound_db admin d"
        by (rule sound_add_message [OF assms(2) received_typed [OF clock_ok_iso [OF assms(1)]]])
      then show ?thesis
        using Inr InboundSMS assms(1) pending [where v = "(advance (Suc 0) (advance (Suc 0) w))\<lparr>db := d\<rparr>"]
        by (simp add: message_id_def new_id_def utc_now_iso_def)
    qed (use InboundSMS assms in \<open>simp add: message_id_def new_id_def utc_now_iso_def\<close>)
  qed (use assms in simp)
  then show "sound_db admin (db (snd (store_text configured e w)))" "clock_ok (snd (store_text configured e w))"
    by simp_all
qed

lemma sound_store_texts:
  "clock_ok w \<Longrightarrow> sound_db admin (db w) \<Longrightarrow>
   sound_db admin (db (snd (store_texts configured evs w))) \<and> clock_ok (snd (store_texts configured evs w))"
proof (induction evs arbitrary: w)
  case (Cons e evs)
  obtain q w1 where q: "store_text configured e w = (q, w1)" by (metis prod.exhaust)
  then have "clock_ok w1" "sound_db admin (db w1)"
    using sound_store_text [OF Cons.prems, of configured e] by simp_all
  with Cons.IH [of w1] q show ?case by (cases q) simp_all
qed simp

text \<open>
  Commits of other processes that fall between two statements of the worker: they keep the database sound, a
  message that is still there afterwards is the row it was, and a new one is queued.
\<close>

definition sound_other :: "str \<Rightarrow> (database \<Rightarrow> database) \<Rightarrow> bool" where
  "sound_other admin other \<longleftrightarrow> (\<forall>d. sound_db admin d \<longrightarrow> sound_db admin (other d) \<and>
     (\<forall>m \<in> set (messages d). \<forall>m' \<in> set (messages (other d)). msg_id m' = msg_id m \<longrightarrow> m' = m))"

lemma delivered_typed: "typed_message m \<Longrightarrow> msg_status m = Sent \<Longrightarrow> typed_message (mark_delivered ts m)"
  by (auto simp: typed_message_def mark_delivered_def)

lemma sound_late_report:
  assumes "sound_db admin d" and "sound_other admin other" and "m \<in> set (messages d)" and "msg_status m = Sent"
  shows "sound_db admin (with_message (msg_id m) (mark_delivered ts) (other d))"
proof -
  have d': "sound_db admin (other d)" using assms(1,2) by (simp add: sound_other_def)
  have delivered: "typed_message (mark_delivered ts r)" if r: "r \<in> set (messages (other d))" "msg_id r = msg_id m" for r
  proof -
    have "r = m" using assms(1-3) r by (simp add: sound_other_def)
    moreover have "typed_message r" using d' r(1) by (simp add: sound_db_def typed_def list_all_iff)
    ultimately show ?thesis using assms(4) delivered_typed by simp
  qed
  have "\<forall>r \<in> set (messages (other d)). typed_message r"
    using d' by (simp add: sound_db_def typed_def list_all_iff)
  with delivered show ?thesis
    unfolding with_message_def by (intro sound_messages [OF d']) (simp add: mark_delivered_def)
qed

lemma sound_reports:
  "apply_reports other rs w = (q, w') \<Longrightarrow> sound_db admin (db w) \<Longrightarrow> sound_other admin other \<Longrightarrow> sound_db admin (db w')"
proof (induction rs arbitrary: other w)
  case (Cons r rs)
  obtain p w1 where p: "apply_delivery_report other r w = (p, w1)" by (metis prod.exhaust)
  have 1: "sound_db admin (db w1)"
    using apply_delivery_report_cases [OF p]
  proof (elim disjE exE conjE)
    assume "db w1 = other (db w)"
    then show ?thesis using Cons.prems(2,3) by (simp add: sound_other_def)
  next
    fix m ts
    assume "m \<in> set (messages (db w))" "msg_status m = Sent"
      "db w1 = with_message (msg_id m) (mark_delivered ts) (other (db w))"
    then show ?thesis using sound_late_report [OF Cons.prems(2,3)] by simp
  qed (use Cons.prems(2) in simp)
  have "sound_other admin id"
    by (auto simp: sound_other_def sound_db_def keys_ok_def distinct_map dest: inj_onD)
  then have "sound_other admin (if b then id else other)" for b using Cons.prems(3) by simp
  then show ?case using Cons.IH [OF _ 1] Cons.prems(1) p 1 by (cases p) auto
qed simp

text \<open>The worker's operations do not bend the clock.\<close>

lemma send_wall [simp]: "clock_ok (snd (send_with_retries D to body k l w)) = clock_ok w"
  by (induction D to body k l w rule: send_with_retries.induct)
    (auto simp: clock_ok_def split: option.splits prod.splits sum.splits dest: arg_cong [where f = "\<lambda>x. wall (env (snd x))"])

lemma call_clock [simp]: "clock_ok (snd (call m w)) = clock_ok w"
  by (simp add: clock_ok_def)

lemma commit_clock [simp]: "clock_ok (snd (commit_update k f w)) = clock_ok w"
  by (simp add: commit_update_def split: sum.split)

lemma settle_clock [simp]: "clock_ok (snd (settle k out)) = clock_ok (snd out)"
proof -
  obtain r w where out: "out = (r, w)" by (cases out)
  have "clock_ok w' = clock_ok w1" if "commit_update k f w1 = (q, w')" for f q w' and w1 :: "'a world"
    using commit_clock [of k f w1] that by simp
  then show ?thesis
    by (cases r; cases "projl r")
      (auto simp: out settle_def utc_now_iso_def split: prod.splits sum.splits)
qed

lemma meanwhile_clock [simp]: "clock_ok (meanwhile f w) = clock_ok w"
  by (simp add: clock_ok_def)

lemma process_message_clock: "clock_ok (snd (process_message other D n k w)) = clock_ok w"
proof -
  obtain q w1 where q: "commit_update k (\<lambda>m. m\<lparr>msg_status := Sending\<rparr>) (meanwhile (other (Marking k)) w) = (q, w1)"
    by (metis prod.exhaust)
  then have w1: "clock_ok w1 = clock_ok w" using commit_clock meanwhile_clock by (metis snd_conv)
  obtain r w2 where r: "attempt_send D n k (meanwhile (other (Reading k)) w1) = (r, w2)" by (metis prod.exhaust)
  have "clock_ok (snd (attempt_send D n k v)) = clock_ok v" for v
    by (simp add: attempt_send_def split: option.split)
  from this [of "meanwhile (other (Reading k)) w1"] r have "clock_ok w2 = clock_ok w" by (simp add: w1)
  then show ?thesis using q r w1 by (cases q) (simp_all add: process_message_def)
qed

lemma outbox_loop_clock: "clock_ok (snd (snd (outbox_loop other D n ks b w))) = clock_ok w"
proof (induction ks arbitrary: b w)
  case (Cons k ks)
  have pm: "clock_ok w2 = clock_ok w1" if "process_message other D n k w1 = (q, w2)" for q w1 w2
    using process_message_clock [of other D n k w1] that by simp
  show ?case
    using Cons.IH by (auto simp: read_monotonic_def split: option.splits prod.splits sum.splits bool.splits dest!: pm)
qed simp

lemma process_outbox_clock: "process_outbox other D n b w = (r, b', w') \<Longrightarrow> clock_ok w' = clock_ok w"
  using outbox_loop_clock [of other D n "map msg_id (outbox (db w))" b w] by (simp add: process_outbox_def)

lemma apply_reports_clock: "clock_ok (snd (apply_reports other rs w)) = clock_ok w"
proof (induction rs arbitrary: other w)
  case (Cons r rs)
  obtain p w1 where p: "apply_delivery_report other r w = (p, w1)" by (metis prod.exhaust)
  have cu: "clock_ok w2 = clock_ok v" if "commit_update k f v = (q, w2)" for k f q w2 and v :: "'a world"
    using commit_clock [of k f v] that by simp
  have "clock_ok w1 = clock_ok w"
    using p by (cases r) (auto simp: utc_now_iso_def split: option.splits if_splits prod.splits sum.splits dest!: cu)
  then show ?case using Cons.IH p by (cases p) simp_all
qed simp

lemma sound_inbound:
  assumes "process_inbound other D w = (r, w')" and clock: "clock_ok w" and sound: "sound_db admin (db w)"
    and other: "\<forall>mo. sound_other admin (other mo)"
  shows "sound_db admin (db w') \<and> clock_ok w'"
  using assms(1)
proof (cases rule: process_inbound_parts)
  case (idle q)
  then show ?thesis using sound clock call_clock [of "dv_fetch_inbound D" w] by simp
next
  case (ran evs w1 p w2 q w3)
  have m: "sound_db admin d \<Longrightarrow> sound_db admin (other mo d)" for mo d using other by (simp add: sound_other_def)
  have 1: "clock_ok (meanwhile (other Storing) w1)" "sound_db admin (db (meanwhile (other Storing) w1))"
    using m sound clock call_clock [of "dv_fetch_inbound D" w] ran(1,2) by simp_all
  have 2: "sound_db admin (db w2)" "clock_ok w2"
    using sound_store_texts [OF 1, of "webhook_configured (db w)" "filter is_text evs"] ran(3) by simp_all
  have "sound_db admin (db (meanwhile (other Matching) w2))" using m 2(1) by simp
  from sound_reports [OF ran(4) this spec [OF other]] have 3: "sound_db admin (db w3)" .
  have "clock_ok w3"
    using apply_reports_clock [of "other Reporting" "filter (\<lambda>e. \<not> is_text e) evs" "meanwhile (other Matching) w2"] ran(4) 2(2)
    by simp
  with ran(5) m [OF sound] 2 3 show ?thesis by auto
qed

lemma record_event_clock [simp]: "clock_ok (record_event s l c w) = clock_ok w"
  by (simp add: record_event_def Let_def utc_now_iso_def now_utc_def clock_ok_def)

lemma recover_clock [simp]: "clock_ok (snd (recover_interrupted_sends w)) = clock_ok w"
  by (simp add: recover_interrupted_sends_def Let_def)

lemma sound_connect:
  assumes "ensure_connected D s w = (r, s', w')" and "clock_ok w" and "sound_db admin (db w)"
  shows "sound_db admin (db w')" and "clock_ok w'"
proof -
  obtain q w1 where q: "call (dv_connect D) w = (q, w1)" by (metis prod.exhaust)
  then have 1: "sound_db admin (db w1)" "clock_ok w1"
    using call_db [of "dv_connect D" w] call_clock [of "dv_connect D" w] assms(2,3) by simp_all
  then have "sound_db admin (db (snd (recover_interrupted_sends (record_event a b c w1))))" for a b c
    by (intro sound_recover) simp
  then show "sound_db admin (db w')" "clock_ok w'"
    using assms q 1 by (auto simp: ensure_connected_def split: sum.splits if_splits)
qed

lemma sound_status:
  assumes "clock_ok w" and "sound_db admin (db w)"
  shows "sound_db admin (db (write_status st w))"
proof -
  have "typed_status (gateway_status (db (write_status st w)))"
    using clock_ok_iso [OF assms(1)]
    by (auto simp: write_status_def utc_now_iso_def status_values_def typed_status_def split: option.split)
  then show ?thesis
    by (intro sound_same [OF _ _ _ _ _ _ assms(2)])
      (simp_all add: write_status_def utc_now_iso_def get_config_def)
qed

text \<open>The interference that a round tolerates.\<close>

definition sound_between :: "str \<Rightarrow> interference \<Rightarrow> bool" where
  "sound_between admin other \<longleftrightarrow> (\<forall>mo. sound_other admin (other mo)) \<and> (\<forall>mo d. brings_queued d (other mo d))"

lemma sound_between_keeps: "sound_between admin other \<Longrightarrow> sound_db admin d \<Longrightarrow> sound_db admin (other mo d)"
  by (simp add: sound_between_def sound_other_def)

lemma sound_outbox:
  assumes "process_outbox other D n b w = (r, b', w')" and "sound_db admin (db w)" and "sound_between admin other"
  shows "sound_db admin (db w')"
proof -
  have "ids_distinct (db w)" using assms(2) by (simp add: sound_db_def keys_ok_def ids_distinct_def)
  then show ?thesis
    using sound.process_outbox [OF _ _ _ assms(2,1)] assms(3) sound_between_keeps by (simp add: sound_between_def)
qed

lemma sound_round:
  assumes "worker_round other D s w = (r, s', w')" and "clock_ok w" and "sound_db admin (db w)"
    and other: "sound_between admin other"
  shows "sound_db admin (db w') \<and> clock_ok w'"
  using assms(1)
proof (cases rule: worker_round_parts)
  case (1 r1 s1 w1 r2 b w2 r3 w3 r4 w4)
  have m: "sound_db admin (db v) \<Longrightarrow> sound_db admin (db (meanwhile (other mo) v))" for mo and v :: "'a world"
    using sound_between_keeps [OF other] by simp
  note s1 = sound_connect [OF 1(1) assms(2,3)]
  have s2: "sound_db admin (db w2)" "clock_ok w2"
    using sound_outbox [OF 1(2) m [OF s1(1)] other] process_outbox_clock [OF 1(2)] s1(2) by simp_all
  have "\<forall>mo. sound_other admin (other mo)" using other by (simp add: sound_between_def)
  from sound_inbound [OF 1(3) _ m [OF s2(1)] this] s2(2) have s3: "sound_db admin (db w3)" "clock_ok w3" by simp_all
  have s4: "sound_db admin (db w4)" "clock_ok w4"
    using call_clock [of "dv_status D" w3] 1(4,5) s3 by simp_all
  have "clock_ok (write_status st w4)" for st using s4(2) by (simp add: write_status_def utc_now_iso_def)
  then show ?thesis using 1(6) s1 s2 s3 s4 sound_status [OF s4(2,1)] by auto
qed

lemma sound_iteration:
  assumes "loop_iteration other D s w = (out, s', w')" and "clock_ok w" and "sound_db admin (db w)"
    and "sound_between admin other"
  shows "sound_db admin (db w')"
proof (cases "restart_requested w")
  case (Pair b w1)
  have 1: "sound_db admin (db w1)" "clock_ok w1"
  proof -
    have "sound_db admin (db (set_config RESTART_WORKER None w))"
      by (rule sound_same [OF _ _ _ _ _ _ assms(3)]) (auto simp: cfg.get_put)
    moreover have "clock_ok (set_config RESTART_WORKER None w)" using assms(2) by (simp add: set_config_def)
    ultimately show "sound_db admin (db w1)" "clock_ok w1"
      using Pair assms(2,3) by (auto simp: restart_requested_def split: if_splits)
  qed
  obtain r s2 w2 where r: "worker_round other D s w1 = (r, s2, w2)" by (metis prod.exhaust)
  note 2 = sound_round [OF r 1(2,1) assms(4)]
  then have "sound_db admin (db (write_status DISCONNECTED_STATUS (record_event a b c w2)))" for a b c
    by (intro sound_status) simp_all
  then show ?thesis
    using assms(1) Pair r 1 2 by (auto simp: loop_iteration_def Let_def split: bool.splits sum.splits)
qed

lemma sound_start: "clock_ok w \<Longrightarrow> sound_db admin (db w) \<Longrightarrow> sound_db admin (db (snd (start_worker n w)))"
  using sound_recover [of admin w]
  by (cases "recover_interrupted_sends w") (simp add: start_worker_def read_monotonic_def)

section \<open>The dispatcher\<close>

text \<open>
  A property of the database that the dispatcher keeps, whatever the others commit during its requests as long as they keep
  it: it must survive new log entries, and an update of one delivery that leaves the reference to the message alone.
\<close>

locale dispatch_contract =
  fixes P :: "database \<Rightarrow> bool"
  assumes delivery: "P d \<Longrightarrow> (\<And>r. whd_message_id (f r) = whd_message_id r) \<Longrightarrow>
    P (d\<lparr>deliveries := map (\<lambda>r. if whd_id r = k then f r else r) (deliveries d)\<rparr>)"
    and logged: "P d \<Longrightarrow> P (d\<lparr>events := entries, event_seq := last_id\<rparr>)"
begin

lemma event: "P (db w) \<Longrightarrow> P (db (record_event s l c w))"
  by (simp add: record_event_def utc_now_iso_def now_utc_def Let_def logged)

lemma commit_delivery:
  assumes "P (db w)" and "\<And>r. whd_message_id (f r) = whd_message_id r" and "commit_delivery k f w = (q, w')"
  shows "P (db w')"
  using assms(3) delivery [OF assms(1,2)] assms(1)
  by (auto simp: commit_delivery_def update_delivery_Inr split: sum.splits)

lemma record_attempt:
  assumes "P (db w)" and "record_attempt now r res w = (q, w')"
  shows "P (db w')"
proof -
  obtain t w1 where t: "read_now now w = (t, w1)" "db w1 = db w" by (cases now) (auto simp: read_now_def now_utc_def)
  have commit: "commit_delivery k f v = (p, v') \<Longrightarrow> P (db v) \<Longrightarrow> (\<And>x. whd_message_id (f x) = whd_message_id x) \<Longrightarrow> P (db v')"
    for k f v p v' using commit_delivery by blast
  show ?thesis
    using assms t
    by (auto simp: record_attempt_def Let_def utc_now_iso_def split: prod.splits sum.splits if_splits
        intro!: event elim!: commit)
qed

lemma attempt:
  assumes client: "\<And>req w. P (db w) \<Longrightarrow> P (db (snd (client req w)))" and "P (db w)"
    and "attempt_delivery hmac client now url secret k w = (q, w')"
  shows "P (db w')"
proof (cases "get_delivery (db w) k")
  case (Some r)
  show ?thesis
  proof (cases "get_message (db w) (whd_message_id r)")
    case None
    obtain p v where p: "commit_delivery k (\<lambda>row. row\<lparr>whd_status := WFailed\<rparr>) w = (p, v)" by (metis prod.exhaust)
    from commit_delivery [OF assms(2) _ p] have "P (db v)" by simp
    then show ?thesis using assms(3) Some None p by (cases p) (auto simp: attempt_delivery_def)
  next
    case (Some m)
    show ?thesis
    proof (cases "webhook_request hmac url secret r m")
      case (Inr req)
      obtain res v where res: "client req w = (res, v)" by (metis prod.exhaust)
      then have v: "P (db v)" using client [OF assms(2), of req] by simp
      obtain p u where p: "record_attempt now r res v = (p, u)" by (metis prod.exhaust)
      from record_attempt [OF v p] show ?thesis
        using assms(3) \<open>get_delivery (db w) k = Some r\<close> Some Inr res v p
        by (cases res; cases p) (auto simp: attempt_delivery_def)
    qed (use assms \<open>get_delivery (db w) k = Some r\<close> Some in \<open>auto simp: attempt_delivery_def\<close>)
  qed
qed (use assms in \<open>auto simp: attempt_delivery_def\<close>)

lemma deliver_all:
  assumes client: "\<And>req w. P (db w) \<Longrightarrow> P (db (snd (client req w)))"
  shows "P (db w) \<Longrightarrow> P (db (snd (deliver_all hmac client now url secret ks w)))"
proof (induction ks arbitrary: w)
  case (Cons k ks)
  obtain q w1 where q: "attempt_delivery hmac client now url secret k w = (q, w1)" by (metis prod.exhaust)
  from attempt [OF client Cons.prems q] have w1: "P (db w1)" .
  obtain p w2 where p: "deliver_all hmac client now url secret ks w1 = (p, w2)" by (metis prod.exhaust)
  then have "P (db w2)" using Cons.IH [OF w1] by simp
  then show ?case using q w1 p by (cases q; cases p) simp_all
qed simp

lemma dispatch:
  assumes "P (db w)" and "\<And>req w. P (db w) \<Longrightarrow> P (db (snd (client req w)))"
  shows "P (db (dispatcher_turn hmac client w))"
  using assms(1) deliver_all [OF assms(2), where w = "advance (Suc 0) w"]
  by (auto simp: dispatcher_turn_def process_due_deliveries_def read_now_def now_utc_def Let_def)

end

interpretation sound: dispatch_contract "sound_db admin" for admin
proof
  fix d and f :: "delivery \<Rightarrow> delivery" and k
  assume d: "sound_db admin d" and f: "\<And>r. whd_message_id (f r) = whd_message_id r"
  let ?rows = "map (\<lambda>r. if whd_id r = k then f r else r) (deliveries d)"
  have "map whd_message_id ?rows = map whd_message_id (deliveries d)" by (simp add: f)
  then have "whd_message_id ` set ?rows = whd_message_id ` set (deliveries d)" by (metis set_map)
  then show "sound_db admin (d\<lparr>deliveries := ?rows\<rparr>)"
    using d by (simp add: sound_db_def keys_ok_def refs_ok_def hook_ok_def get_config_def)
next
  fix d entries last_id assume "sound_db admin d"
  then show "sound_db admin (d\<lparr>events := entries, event_seq := last_id\<rparr>)"
    by (rule sound_same [rotated -1]) (simp_all add: get_config_def)
qed

section \<open>Runs of the gateway\<close>

text \<open>
  What one request commits, in an API process with the settings \<open>st\<close>: the writes of a handler and of the bearer
  authentication. The identifiers in \<open>U\<close> are those that are not drawn (any more); with \<open>U = {}\<close> that says nothing.
\<close>

definition reuses_none :: "str set \<Rightarrow> database \<Rightarrow> database \<Rightarrow> bool" where
  "reuses_none U d d' \<longleftrightarrow> msg_id ` set (messages d') \<inter> U \<subseteq> msg_id ` set (messages d)"

inductive request :: "settings \<Rightarrow> str set \<Rightarrow> database \<Rightarrow> database \<Rightarrow> bool" for st :: settings and U :: "str set" where
  handled: "\<lbrakk>api_step w w'; clock_ok w; app_settings (drv w) = st; reuses_none U (db w) (db w')\<rbrakk> \<Longrightarrow>
    request st U (db w) (db w')"
| authenticated: "clock_ok (w :: app world) \<Longrightarrow> request st U (db w) (db (snd (authenticate sha256 header w)))"

text \<open>
  Requests that fall between two statements of the worker. No identifier of a purged message is drawn again, so a row
  that is found under an identifier afterwards is the row it named before.
\<close>

definition requests_between :: "settings \<Rightarrow> str set \<Rightarrow> (database \<Rightarrow> database) \<Rightarrow> bool" where
  "requests_between st U other \<longleftrightarrow> (\<forall>d. (request st U)\<^sup>*\<^sup>* d (other d) \<and>
     (keys_ok d \<longrightarrow> (\<forall>m \<in> set (messages d). \<forall>m' \<in> set (messages (other d)). msg_id m' = msg_id m \<longrightarrow> m' = m)))"

text \<open>
  What anyone but the dispatcher commits; \<open>D\<close> is the modem driver of the worker. Requests may fall between any two
  statements of an iteration, and the worker may be killed, which shows in the database where a message has
  been marked: the queue \<open>ks @ k # later\<close> was worked off up to \<open>k\<close>.
\<close>

inductive commit :: "settings \<Rightarrow> 'd modem_driver \<Rightarrow> str set \<Rightarrow> database \<Rightarrow> database \<Rightarrow> bool"
  for st :: settings and D :: "'d modem_driver" and U :: "str set"
where
  requested: "request st U d d' \<Longrightarrow> commit st D U d d'"
| iterated: "\<lbrakk>loop_iteration other D s w = (out, s', w'); clock_ok w; \<And>mo. requests_between st U (other mo);
     \<forall>i. lit ''msg'' @ lit ''_'' @ ulid (env w) i \<notin> U\<rbrakk> \<Longrightarrow> commit st D U (db w) (db w')"
| started: "clock_ok (w :: 'd world) \<Longrightarrow> commit st D U (db w) (db (snd (start_worker n w)))"
| killed: "\<lbrakk>map msg_id (outbox (db w)) = ks @ k # later; outbox_loop other D n ks b w = (r, b', w1);
     \<And>mo. requests_between st U (other mo)\<rbrakk> \<Longrightarrow>
    commit st D U (db w) (with_message k (\<lambda>m. m\<lparr>msg_status := Sending\<rparr>) (other (Marking k) (db w1)))"

definition commits_during :: "settings \<Rightarrow> 'd modem_driver \<Rightarrow> str set \<Rightarrow> app http_client \<Rightarrow> bool" where
  "commits_during st D U client \<longleftrightarrow> (\<forall>req w. (commit st D U)\<^sup>*\<^sup>* (db w) (db (snd (client req w))))"

inductive gateway_step :: "settings \<Rightarrow> 'd modem_driver \<Rightarrow> str set \<Rightarrow> database \<Rightarrow> database \<Rightarrow> bool"
  for st :: settings and D :: "'d modem_driver" and U :: "str set"
where
  committed: "commit st D U d d' \<Longrightarrow> gateway_step st D U d d'"
| dispatched: "commits_during st D U client \<Longrightarrow> gateway_step st D U (db w) (db (dispatcher_turn hmac client w))"

lemma rtranclp_invariant: "r\<^sup>*\<^sup>* a b \<Longrightarrow> (\<And>x y. r x y \<Longrightarrow> P x \<Longrightarrow> P y) \<Longrightarrow> P a \<Longrightarrow> P b"
  by (induction rule: rtranclp_induct) auto

lemma request_sound: "request st U d d' \<Longrightarrow> sound_db (st_admin_user st) d \<Longrightarrow> sound_db (st_admin_user st) d'"
proof (induction rule: request.induct)
  case (handled w w')
  then show ?case using api_step_sound [OF handled(1,2)] handled by simp
next
  case (authenticated w sha256 header)
  then show ?case by (rule authenticate_sound)
qed

lemma request_rows: "request st U d d' \<Longrightarrow> api_rows d d' \<and> reuses_none U d d'"
  by (induction rule: request.induct) (auto simp: api_step_rows api_rows_same authenticate_messages reuses_none_def)

lemma between_sound:
  assumes "\<And>mo. requests_between st U (other mo)"
  shows "sound_between (st_admin_user st) other"
proof -
  have "sound_other (st_admin_user st) (other mo)" for mo
    using rtranclp_invariant [of "request st U" _ _ "sound_db (st_admin_user st)"] request_sound assms [of mo]
    by (fastforce simp: requests_between_def sound_other_def sound_db_def)
  moreover have "brings_queued d (other mo d)" for mo d
  proof -
    have "(request st U)\<^sup>*\<^sup>* d (other mo d)" using assms by (simp add: requests_between_def)
    then show ?thesis
    proof induction
      case (step y z)
      have "brings_queued y z" using request_rows [OF step(2)] by (auto simp: brings_queued_def api_rows_def)
      with step(3) show ?case by (rule brings_queued_trans)
    qed simp
  qed
  ultimately show ?thesis by (simp add: sound_between_def)
qed

lemma killed_queue:
  assumes "ids_distinct d" and "map msg_id (outbox d) = ks @ k # later"
  shows "awaiting (ks @ [k]) d" and "distinct (ks @ [k])"
  using awaiting_outbox [OF assms(1)] outbox_queued(1) [OF assms(1)] unfolding assms(2) by (auto simp: awaiting_def)

lemma commit_sound: "commit st D U d d' \<Longrightarrow> sound_db (st_admin_user st) d \<Longrightarrow> sound_db (st_admin_user st) d'"
proof (induction rule: commit.induct)
  case (iterated other s w out s' w')
  then show ?case using sound_iteration [OF iterated(1,2) _ between_sound] by blast
next
  case (killed w ks k later other n b r b' w1)
  have between: "sound_between (st_admin_user st) other" by (rule between_sound) (rule killed(3))
  have "ids_distinct (db w)" using killed(4) by (simp add: sound_db_def keys_ok_def ids_distinct_def)
  from sound.killed [OF _ _ killed(2) killed_queue [OF this killed(1)] killed(4)] between show ?case
    using sound_between_keeps [OF between] by (simp add: sound_between_def)
qed (auto intro: request_sound sound_start)

lemma during_sound:
  "commits_during st D U client \<Longrightarrow> sound_db (st_admin_user st) (db w) \<Longrightarrow>
   sound_db (st_admin_user st) (db (snd (client req w)))"
  using rtranclp_invariant [of "commit st D U" _ _ "sound_db (st_admin_user st)"] commit_sound
  unfolding commits_during_def by blast

lemma gateway_step_sound:
  "gateway_step st D U d d' \<Longrightarrow> sound_db (st_admin_user st) d \<Longrightarrow> sound_db (st_admin_user st) d'"
  by (induction rule: gateway_step.induct) (auto intro: commit_sound sound.dispatch during_sound)

lemma sound_empty_db [simp]: "sound_db admin empty_db"
  by (simp add: sound_db_def empty_db_def keys_ok_def refs_ok_def hook_ok_def get_config_def typed_def typed_status_def)

lemma gateway_run_sound: "(gateway_step st D U)\<^sup>*\<^sup>* d d' \<Longrightarrow> sound_db (st_admin_user st) d \<Longrightarrow> sound_db (st_admin_user st) d'"
  using rtranclp_invariant [of "gateway_step st D U" d d' "sound_db (st_admin_user st)"] gateway_step_sound by blast

section \<open>Readers of a sound database do not fail\<close>

lemma typed_stamped: "typed d \<Longrightarrow> stamped d"
  by (auto simp: typed_def stamped_def list_all_iff typed_message_def timestamp_def)

lemma dashboard_returns: "typed (db w) \<Longrightarrow> \<exists>v. fst (dashboard_context z w) = Inr v"
  by (rule stamped_dashboard_returns [OF typed_stamped])

lemma localdt_returns: "typed_message m \<Longrightarrow> \<exists>s. localdt z (Some (msg_created_at m)) = Inr s"
  using parse_iso_iso by (fastforce simp: typed_message_def timestamp_def localdt_def)

lemma healthz_returns:
  assumes "typed (db w)"
  shows "\<exists>h. fst (healthz w) = Inr h"
proof -
  have "int_str p \<noteq> []" for p by (simp add: int_str_def)
  then have signal: "\<exists>v. signal_value (status_value (db w) (lit ''signal_percent'')) = Inr v"
    using assms
    by (cases "gateway_status (db w) (lit ''signal_percent'')")
      (auto simp: typed_def typed_status_def status_value_def signal_value_def or_none_def py_int_int_str)
  have "\<exists>b w1. heartbeat_fresh (status_value (db w) (lit ''worker_heartbeat'')) w = (Inr b, w1)"
    using assms parse_iso_iso
    by (cases "gateway_status (db w) (lit ''worker_heartbeat'')")
      (fastforce simp: typed_def typed_status_def status_value_def heartbeat_fresh_def now_utc_def timestamp_def)+
  then show ?thesis using signal by (auto simp: healthz_def Let_def)
qed

lemma bearer_chars: "bearer header = Some token \<Longrightarrow> set token \<subseteq> set (the header)"
proof -
  assume "bearer header = Some token"
  then obtain v where "header = Some v" "token = strip (after_char 32 v)"
    by (cases header) (auto simp: bearer_def Let_def before_char_def after_char_def strip_def lstrip_def rstrip_def split: if_splits)
  moreover have "set (strip s) \<subseteq> set s" for s
    unfolding strip_def lstrip_def rstrip_def by (metis set_dropWhileD set_rev subsetI)
  moreover have "set (after_char c s) \<subseteq> set s" for c s
  proof -
    have "set (tl xs) \<subseteq> set xs" for xs :: str by (cases xs) auto
    then show ?thesis unfolding after_char_def by (meson set_dropWhileD subset_iff)
  qed
  ultimately show ?thesis by fastforce
qed

lemma active_at_most_one: "distinct (map tok_hash ts) \<Longrightarrow> length (filter (\<lambda>t. tok_hash t = h \<and> P t) ts) \<le> 1"
proof (induction ts)
  case (Cons t ts)
  then have "tok_hash t = h \<Longrightarrow> filter (\<lambda>t. tok_hash t = h \<and> P t) ts = []"
    by (auto simp: filter_empty_conv) (metis image_eqI)
  with Cons show ?case by auto
qed simp

lemma needs_refresh_returns:
  assumes "pred_option timestamp v"
  shows "\<exists>b w1. needs_refresh v w = (Inr b, w1)"
proof (cases v)
  case (Some s)
  then obtain t where "in_range t" "s = iso t" using assms by (auto simp: timestamp_def)
  then show ?thesis using Some by (simp add: needs_refresh_def now_utc_def parse_iso_iso ex_bool_eq)
qed (simp add: needs_refresh_def ex_bool_eq)

lemma authenticate_answers:
  assumes "sound_db admin (db w)" and "\<forall>c \<in> set (the header). c < 256"
  shows "case fst (authenticate sha256 header w) of Inr _ \<Rightarrow> True | Inl x \<Rightarrow> \<exists>detail. x = HTTPException 401 detail"
proof (cases "bearer header")
  case (Some token)
  then have "list_all scalar token"
    using bearer_chars [OF Some] assms(2) by (fastforce simp: list_all_iff scalar_def surrogate_def)
  then obtain h where h: "hash_token sha256 token = Inr h" by (simp add: hash_token_def utf8_encode_def)
  have "length (active_with_hash h (db w)) \<le> 1"
    using assms(1) by (simp only: active_with_hash_def sound_db_def keys_ok_def active_at_most_one)
  then consider "active_with_hash h (db w) = []" | row where "active_with_hash h (db w) = [row]"
    by (cases "active_with_hash h (db w)") auto
  then show ?thesis
  proof cases
    case 2
    then have "row \<in> set (api_tokens (db w))" by (metis active_with_hash_def filter_is_subset list.set_intros(1) subsetD)
    then have "typed_token row" using assms(1) by (auto simp: sound_db_def typed_def list_all_iff)
    then obtain b w1 where "needs_refresh (tok_last_used_at row) w = (Inr b, w1)"
      using needs_refresh_returns [of "tok_last_used_at row" w] by (auto simp: typed_token_def)
    then show ?thesis using 2 Some h by (simp add: authenticate_def one_or_none_def)
  qed (use Some h in \<open>simp add: authenticate_def one_or_none_def\<close>)
qed (simp add: authenticate_def)

section \<open>A run to try it on\<close>

text \<open>A request that queues a message, and then one iteration of the worker with the fake modem.\<close>

definition steady_world :: "database \<Rightarrow> 'd \<Rightarrow> 'd world" where
  "steady_world d s = \<lparr>db = d, env = sample_env\<lparr>wall := \<lambda>_. 63921355200000000\<rparr>, drv = s\<rparr>"

definition posted_db :: database where
  "posted_db = db (snd (post_message (lit ''+41790000000'') (lit ''hi'') (steady_world empty_db sample_app)))"

definition served_db :: database where
  "served_db = (case loop_iteration undisturbed FakeDriver \<lparr>wk_bucket = new_bucket 10 0, wk_backoff = None, wk_connected = False\<rparr>
     (steady_world posted_db (new_fake_driver None)) of (_, _, w) \<Rightarrow> db w)"

lemma steady_clock: "clock_ok (steady_world d s)"
  by (simp add: clock_ok_def steady_world_def in_range_def days_before_year_def)

lemma undisturbed_between: "requests_between st U (undisturbed mo)"
  by (auto simp: requests_between_def keys_ok_def distinct_map inj_on_def undisturbed_apply)

lemma posted_request: "request default_settings {} empty_db posted_db"
proof -
  let ?w = "steady_world empty_db sample_app"
  have "request default_settings {} (db ?w) (db (snd (post_message (lit ''+41790000000'') (lit ''hi'') ?w)))"
    using steady_clock by (intro handled step_post_message)
      (auto simp: reuses_none_def steady_world_def sample_app_def)
  then show ?thesis by (simp add: posted_db_def) (simp add: steady_world_def)
qed

lemma sample_run: "(gateway_step default_settings FakeDriver {})\<^sup>*\<^sup>* empty_db served_db"
proof -
  let ?v = "steady_world posted_db (new_fake_driver None)"
  let ?s = "\<lparr>wk_bucket = new_bucket 10 0, wk_backoff = None, wk_connected = False\<rparr>"
  have 1: "gateway_step default_settings FakeDriver {} empty_db posted_db" by (intro committed requested posted_request)
  obtain out s' w' where run: "loop_iteration undisturbed FakeDriver ?s ?v = (out, s', w')" by (metis prod.exhaust)
  then have "commit default_settings FakeDriver {} (db ?v) (db w')"
    by (rule iterated [OF _ steady_clock undisturbed_between]) simp
  then have 2: "gateway_step default_settings FakeDriver {} (db ?v) served_db"
    using run by (intro committed) (simp add: served_db_def)
  have "db ?v = posted_db" by (simp add: steady_world_def)
  then show ?thesis using 1 2 by auto
qed

end
