(* ===== verification/Lifecycle.thy ===== *)
theory Lifecycle
  imports System
begin

text \<open>
  An abstract specification of the gateway: what may happen to one message, from the moment its identifier is
  drawn until its row is purged. The runs of \<open>System\<close>, with all their interleavings, refine it: seen through the
  abstraction \<open>fate\<close>, every step of the gateway is a run of \<open>lifecycle\<close> for every message.
\<close>

section \<open>The life of a message\<close>

datatype life = Unused | Live direction msg_status | Purged

inductive lifecycle :: "life \<Rightarrow> life \<Rightarrow> bool" where
  post: "lifecycle Unused (Live Outbound Queued)"
| receive: "lifecycle Unused (Live Inbound Received)"
| transmit: "lifecycle (Live Outbound Queued) (Live Outbound Sending)"
| requeue: "lifecycle (Live Outbound Sending) (Live Outbound Queued)"
| sent: "lifecycle (Live Outbound Sending) (Live Outbound Sent)"
| failed: "lifecycle (Live Outbound Sending) (Live Outbound Failed)"
| deliver: "lifecycle (Live Outbound Sent) (Live Outbound Delivered)"
| purge: "lifecycle (Live dir s) Purged"

inductive_cases lifecycle_SentE: "lifecycle (Live dir Sent) x"
inductive_cases lifecycle_DeliveredE: "lifecycle (Live dir Delivered) x"
inductive_cases lifecycle_FailedE: "lifecycle (Live dir Failed) x"
inductive_cases lifecycle_ReceivedE: "lifecycle (Live dir Received) x"
inductive_cases lifecycle_PurgedE: "lifecycle Purged x"

lemmas lifecycle_finalE =
  lifecycle_SentE lifecycle_DeliveredE lifecycle_FailedE lifecycle_ReceivedE lifecycle_PurgedE

lemma lifecycle_final:
  assumes "lifecycle\<^sup>*\<^sup>* a b"
  shows "a = Purged \<Longrightarrow> b = Purged" and "a = Live dir s \<Longrightarrow> s \<in> {Delivered, Failed, Received} \<Longrightarrow> b \<in> {a, Purged}"
    and "a = Live dir Sent \<Longrightarrow> b \<in> {Live dir Sent, Live dir Delivered, Purged}"
proof -
  show "a = Purged \<Longrightarrow> b = Purged"
    using assms by (induction rule: rtranclp_induct) (auto elim: lifecycle_finalE)
  show "a = Live dir s \<Longrightarrow> s \<in> {Delivered, Failed, Received} \<Longrightarrow> b \<in> {a, Purged}"
    using assms by (induction rule: rtranclp_induct) (auto elim: lifecycle_finalE)
  show "a = Live dir Sent \<Longrightarrow> b \<in> {Live dir Sent, Live dir Delivered, Purged}"
    using assms by (induction rule: rtranclp_induct) (auto elim: lifecycle_finalE)
qed

text \<open>Every well-typed state of a message can be reached.\<close>

lemma lifecycle_transit:
  "lifecycle\<^sup>*\<^sup>* (Live Outbound Queued) (Live Outbound Sending)"
  "lifecycle\<^sup>*\<^sup>* (Live Outbound Sending) (Live Outbound s)" if "s \<in> {Queued, Sending, Sent, Failed}" for s
  using that transmit requeue sent failed by auto

lemma lifecycle_reaches: "lifecycle\<^sup>*\<^sup>* Unused (Live dir s)" if "dir = Inbound \<longleftrightarrow> s = Received"
proof (cases dir)
  case Outbound
  have queued: "lifecycle\<^sup>*\<^sup>* Unused (Live Outbound Sending)"
    using post transmit by (meson r_into_rtranclp rtranclp.rtrancl_into_rtrancl)
  have "lifecycle\<^sup>*\<^sup>* (Live Outbound Sending) (Live Outbound s)"
  proof (cases "s = Delivered")
    case True
    then show ?thesis using sent deliver by (meson r_into_rtranclp rtranclp.rtrancl_into_rtrancl)
  next
    case False
    then have "s \<in> {Queued, Sending, Sent, Failed}" using that Outbound by (cases s) auto
    then show ?thesis using lifecycle_transit(2) by blast
  qed
  with queued show ?thesis using Outbound by simp
qed (use that receive in auto)

section \<open>What a commit does to the messages that were there\<close>

definition same_content :: "message \<Rightarrow> message \<Rightarrow> bool" where
  "same_content m m' \<longleftrightarrow> msg_id m' = msg_id m \<and> msg_direction m' = msg_direction m \<and> msg_msisdn m' = msg_msisdn m \<and>
     msg_body m' = msg_body m \<and> msg_created_at m' = msg_created_at m \<and> msg_received_at m' = msg_received_at m"

definition life_of :: "message \<Rightarrow> life" where
  "life_of m = Live (msg_direction m) (msg_status m)"

definition row_lives :: "message \<Rightarrow> message \<Rightarrow> bool" where
  "row_lives m m' \<longleftrightarrow> same_content m m' \<and> lifecycle\<^sup>*\<^sup>* (life_of m) (life_of m')"

text \<open>A row under one of the identifiers \<open>U\<close> is the row that was there before, further on in its life.\<close>

definition lives :: "str set \<Rightarrow> database \<Rightarrow> database \<Rightarrow> bool" where
  "lives U d d' \<longleftrightarrow> (ids_distinct d \<longrightarrow> ids_distinct d' \<and>
     (\<forall>m' \<in> set (messages d'). msg_id m' \<in> U \<longrightarrow> (\<exists>m \<in> set (messages d). row_lives m m')))"

lemma row_lives_refl [simp]: "row_lives m m"
  by (simp add: row_lives_def same_content_def)

lemma row_lives_trans: "row_lives a b \<Longrightarrow> row_lives b c \<Longrightarrow> row_lives a c"
  by (auto simp: row_lives_def same_content_def)

lemma row_lives_id: "row_lives m m' \<Longrightarrow> msg_id m' = msg_id m"
  by (simp add: row_lives_def same_content_def)

lemma lives_same: "messages d' = messages d \<Longrightarrow> lives U d d'"
  unfolding lives_def ids_distinct_def using row_lives_refl by metis

lemma lives_trans: "lives U a b \<Longrightarrow> lives U b c \<Longrightarrow> lives U a c"
  unfolding lives_def by (metis row_lives_id row_lives_trans)

lemma lives_map:
  assumes "\<And>m. m \<in> set (messages d) \<Longrightarrow> row_lives m (f m)" and "messages d' = map f (messages d)"
  shows "lives U d d'"
proof -
  have "map msg_id (messages d') = map msg_id (messages d)" using assms row_lives_id by simp
  then have "ids_distinct d \<Longrightarrow> ids_distinct d'" by (simp add: ids_distinct_def)
  then show ?thesis using assms by (auto simp: lives_def)
qed

lemma lives_with_message:
  assumes "\<And>m. m \<in> set (messages d) \<Longrightarrow> msg_id m = k \<Longrightarrow> row_lives m (f m)"
  shows "lives U d (with_message k f d)"
  by (rule lives_map [OF _ messages_with_message]) (use assms in auto)

lemma lives_request: "request st U d d' \<Longrightarrow> lives U d d'"
proof -
  assume "request st U d d'"
  from request_rows [OF this] have rows: "api_rows d d'" "reuses_none U d d'" by simp_all
  have "m' \<in> set (messages d)" if "m' \<in> set (messages d')" "msg_id m' \<in> U" for m'
  proof -
    have "msg_id m' \<in> msg_id ` set (messages d)" using that rows(2) by (auto simp: reuses_none_def)
    then show ?thesis using rows(1) that(1) by (auto simp: api_rows_def get_message_None_iff)
  qed
  then show ?thesis using rows(1) row_lives_refl unfolding lives_def api_rows_def by blast
qed

lemma lives_requests: "(request st U)\<^sup>*\<^sup>* d d' \<Longrightarrow> lives U d d'"
  by (induction rule: rtranclp_induct) (auto intro: lives_same lives_trans lives_request)

lemma lives_between: "requests_between st U other \<Longrightarrow> lives U d (other d)"
  unfolding requests_between_def using lives_requests by blast

section \<open>The worker and the dispatcher\<close>

lemma turn_lives:
  assumes "in_transit m"
  shows "row_lives m (turn_update t m)"
proof -
  have m: "msg_direction m = Outbound" "msg_status m \<in> {Queued, Sending}" using assms by (simp_all add: in_transit_def)
  have "msg_direction (turn_update t m) = Outbound" "msg_status (turn_update t m) \<in> {Queued, Sending, Sent, Failed}"
    using m by (cases t; simp add: mark_sent_def mark_failed_def)+
  then have "lifecycle\<^sup>*\<^sup>* (Live Outbound Sending) (life_of (turn_update t m))"
    unfolding life_of_def using lifecycle_transit(2) by metis
  moreover have "lifecycle\<^sup>*\<^sup>* (life_of m) (Live Outbound Sending)"
    using m lifecycle_transit(1) [of Queued] by (auto simp: life_of_def)
  moreover have "same_content m (turn_update t m)"
    by (cases t) (simp_all add: same_content_def mark_sent_def mark_failed_def)
  ultimately show ?thesis by (simp add: row_lives_def)
qed

interpretation lives_turn: outbox_contract "lives U d0" for U d0
proof
  fix d k and t :: turn
  assume d: "lives U d0 d"
  show "lives U d0 (with_message k (\<lambda>m. m\<lparr>msg_status := Sending\<rparr>) d)" if "awaiting [k] d"
    using that transmit
    by (intro lives_trans [OF d] lives_with_message)
      (auto simp: awaiting_def queued_def row_lives_def same_content_def life_of_def)
  show "lives U d0 (with_message k (turn_update t) d)" if "\<forall>m \<in> set (messages d). msg_id m = k \<longrightarrow> in_transit m"
    using that turn_lives by (intro lives_trans [OF d] lives_with_message) auto
qed

lemma lives_late_mark:
  assumes "lives U d d'" and m: "m \<in> set (messages d)" "msg_direction m = Outbound" "msg_status m = Sent"
  shows "lives U d (with_message (msg_id m) (mark_delivered ts) d')"
  unfolding lives_def
proof (intro impI conjI ballI)
  assume dist: "ids_distinct d"
  then have d': "ids_distinct d'" "\<forall>m' \<in> set (messages d'). msg_id m' \<in> U \<longrightarrow> (\<exists>m \<in> set (messages d). row_lives m m')"
    using assms(1) by (auto simp: lives_def)
  then show "ids_distinct (with_message (msg_id m) (mark_delivered ts) d')" by simp
  fix m' assume m': "m' \<in> set (messages (with_message (msg_id m) (mark_delivered ts) d'))" "msg_id m' \<in> U"
  then obtain r where r: "r \<in> set (messages d')" "m' = (if msg_id r = msg_id m then mark_delivered ts r else r)"
    unfolding in_with_message by blast
  then have "msg_id r \<in> U" using m'(2) by (auto split: if_splits)
  then obtain x where x: "x \<in> set (messages d)" "row_lives x r" using d'(2) r(1) by blast
  show "\<exists>m \<in> set (messages d). row_lives m m'"
  proof (cases "msg_id r = msg_id m")
    case True
    then have "x = m" using same_row [OF dist m(1) x(1)] row_lives_id [OF x(2)] by simp
    then have "lifecycle\<^sup>*\<^sup>* (Live Outbound Sent) (life_of r)" using x(2) m by (simp add: row_lives_def life_of_def)
    from lifecycle_final(3) [OF this refl] have "life_of r \<in> {Live Outbound Sent, Live Outbound Delivered}"
      by (auto simp: life_of_def)
    then have "row_lives r m'" using deliver True r(2)
      by (auto simp: row_lives_def same_content_def life_of_def mark_delivered_def)
    then show ?thesis using x row_lives_trans by blast
  qed (use r(2) x in auto)
qed

interpretation lives_text: inbound_contract "\<lambda>k. k \<notin> U" "lives U" for U
proof
  fix d d' :: database and m :: message and ts
  show "lives U d d'" if "messages d' = messages d" using that by (rule lives_same)
  show "lives U d d'" if "messages d' = messages d @ [m]" "get_message d (msg_id m) = None" "\<not> queued m" "msg_id m \<notin> U"
  proof -
    have "ids_distinct d \<Longrightarrow> ids_distinct d'" using that by (simp add: ids_distinct_def get_message_None_iff)
    moreover have "\<exists>x \<in> set (messages d). row_lives x m'" if m': "m' \<in> set (messages d')" "msg_id m' \<in> U" for m'
      using m' \<open>messages d' = messages d @ [m]\<close> \<open>msg_id m \<notin> U\<close> row_lives_refl by fastforce
    ultimately show ?thesis by (auto simp: lives_def)
  qed
  show "lives U d (with_message (msg_id m) (mark_delivered ts) d')"
    if "lives U d d'" "m \<in> set (messages d)" "msg_direction m = Outbound" "msg_status m = Sent"
    using that by (rule lives_late_mark)
qed (rule lives_trans)

interpretation lives_hook: dispatch_contract "lives U d0" for U d0
proof
  fix d and f :: "delivery \<Rightarrow> delivery" and k entries last_id
  assume d: "lives U d0 d"
  show "lives U d0 (d\<lparr>deliveries := map (\<lambda>r. if whd_id r = k then f r else r) (deliveries d)\<rparr>)"
    "lives U d0 (d\<lparr>events := entries, event_seq := last_id\<rparr>)"
    by (rule lives_trans [OF d lives_same], simp)+
qed

lemma requeue_lives: "row_lives m (Worker.requeue m)"
  using lifecycle.requeue
  by (auto simp: requeue_def interrupted_def row_lives_def same_content_def life_of_def)

lemma lives_recover: "lives U (db w) (db (snd (recover_interrupted_sends w)))"
  by (rule lives_map [OF requeue_lives recover_messages])

lemma lives_connect: "ensure_connected D s w = (r, s', w') \<Longrightarrow> lives U (db w) (db w')"
proof -
  assume run: "ensure_connected D s w = (r, s', w')"
  obtain q w1 where q: "call (dv_connect D) w = (q, w1)" by (metis prod.exhaust)
  have db1: "db w1 = db w" using call_db [of "dv_connect D" w] q by simp
  let ?w2 = "record_event (lit ''worker'') (lit ''info'') (lit ''modem connected'') w1"
  have "lives U (db w) (db ?w2)" by (rule lives_same) (simp add: db1)
  then have "lives U (db w) (db (snd (recover_interrupted_sends ?w2)))" using lives_recover lives_trans by blast
  moreover have "db w' = db w \<or> db w' = db (snd (recover_interrupted_sends ?w2))"
    using run q db1 by (auto simp: ensure_connected_def split: sum.splits if_splits)
  ultimately show ?thesis using lives_same by auto
qed

text \<open>The worker draws all its identifiers from one tape.\<close>

lemma send_ulid: "ulid (env (snd (send_with_retries D to body k l w))) = ulid (env w)"
  by (induction D to body k l w rule: send_with_retries.induct)
    (auto split: option.splits prod.splits sum.splits dest: arg_cong [where f = "\<lambda>x. ulid (env (snd x))"])

lemma attempt_ulid: "ulid (env (snd (attempt_send D n k w))) = ulid (env w)"
  by (simp add: attempt_send_def send_ulid split: option.split)

lemma commit_ulid: "ulid (env (snd (commit_update k f w))) = ulid (env w)"
  by (simp add: commit_update_eq)

lemma settle_ulid: "ulid (env (snd (settle k (r, w)))) = ulid (env w)"
  by (cases r; cases "projl r") (auto simp: settle_def utc_now_iso_def commit_update_eq)

lemma process_message_ulid: "ulid (env (snd (process_message other D n k w))) = ulid (env w)"
proof -
  obtain q w1 where q: "commit_update k (\<lambda>m. m\<lparr>msg_status := Sending\<rparr>) (meanwhile (other (Marking k)) w) = (q, w1)"
    by (metis prod.exhaust)
  obtain r w2 where r: "attempt_send D n k (meanwhile (other (Reading k)) w1) = (r, w2)" by (metis prod.exhaust)
  have "ulid (env w1) = ulid (env w)" "ulid (env w2) = ulid (env w1)"
    using commit_ulid [of k _ "meanwhile (other (Marking k)) w"] q attempt_ulid [of D n k "meanwhile (other (Reading k)) w1"] r
    by (metis meanwhile_frame(2) snd_conv)+
  then show ?thesis using q r by (cases q) (simp_all add: process_message_def settle_ulid)
qed

lemma outbox_loop_ulid: "ulid (env (snd (snd (outbox_loop other D n ks b w)))) = ulid (env w)"
proof (induction ks arbitrary: b w)
  case (Cons k ks)
  have pm: "ulid (env w2) = ulid (env w1)" if "process_message other D n k w1 = (q, w2)" for q w1 w2
    using process_message_ulid [of other D n k w1] that by simp
  show ?case
    using Cons.IH by (auto simp: read_monotonic_def split: option.splits prod.splits sum.splits bool.splits dest!: pm)
qed simp

lemma worker_ulid:
  "ensure_connected D s w = (r, s', w') \<Longrightarrow> ulid (env w') = ulid (env w)"
  "process_outbox other D n b v = (q, b', v') \<Longrightarrow> ulid (env v') = ulid (env v)"
proof -
  show "ulid (env v') = ulid (env v)" if "process_outbox other D n b v = (q, b', v')"
    using outbox_loop_ulid [of other D n "map msg_id (outbox (db v))" b v] that by (simp add: process_outbox_def)
  have event: "ulid (env (record_event a c l u)) = ulid (env u)" for a c l and u :: "'a world"
    by (simp add: record_event_def Let_def utc_now_iso_def now_utc_def)
  then have "ulid (env (snd (recover_interrupted_sends u))) = ulid (env u)" for u :: "'a world"
    by (simp add: recover_interrupted_sends_def Let_def)
  moreover have "ulid (env w1) = ulid (env w)" if "call (dv_connect D) w = (p, w1)" for p w1
    using call_tapes(2) [of "dv_connect D" w] that by simp
  ultimately show "ensure_connected D s w = (r, s', w') \<Longrightarrow> ulid (env w') = ulid (env w)"
    using event by (auto simp: ensure_connected_def split: sum.splits if_splits prod.splits)
qed

lemma lives_iteration:
  assumes run: "loop_iteration other D s w = (out, s', w')" and other: "\<And>mo. requests_between st U (other mo)"
    and ids: "\<forall>i. lit ''msg'' @ lit ''_'' @ ulid (env w) i \<notin> U" and dist: "ids_distinct (db w)"
  shows "lives U (db w) (db w')"
proof -
  obtain r s2 v where r: "worker_round other D s w = (r, s2, v)" by (metis prod.exhaust)
  have between: "lives U d (other mo d)" for mo d using lives_between other by blast
  have brings: "\<forall>mo d. brings_queued d (other mo d)" using between_sound [of st U other] other by (simp add: sound_between_def)
  have "lives U (db w) (db v)"
    using r
  proof (cases rule: worker_round_parts)
    case (1 r1 s1 w1 r2 b w2 r3 w3 r4 w4)
    note l1 = lives_connect [OF 1(1), of U]
    let ?w1 = "meanwhile (other Querying) w1" and ?w2 = "meanwhile (other Receiving) w2"
    have l1': "lives U (db w) (db ?w1)" using l1 between lives_trans by (metis meanwhile_frame(1))
    then have "ids_distinct (db ?w1)" using dist by (simp add: lives_def)
    from lives_turn.process_outbox [OF brings _ this l1' 1(2)] have l2: "lives U (db w) (db w2)"
      using between lives_trans by blast
    then have l2': "lives U (db w) (db ?w2)" using between lives_trans by (metis meanwhile_frame(1))
    have "\<forall>i. lit ''msg'' @ lit ''_'' @ ulid (env ?w2) i \<notin> U" using ids worker_ulid(1) [OF 1(1)] worker_ulid(2) [OF 1(2)] by simp
    from lives_text.process_inbound [OF 1(3) _ this] have l3: "lives U (db w) (db w3)"
      using between l2' lives_trans by blast
    from 1(6) consider "db v \<in> {db w1, db w2, db w3}" | "messages (db v) = messages (db w3)"
      using 1(5) by auto
    then show ?thesis
    proof cases
      case 2
      then show ?thesis by (rule lives_trans [OF l3 lives_same])
    qed (use l1 l2 l3 in auto)
  qed
  moreover have "messages (db w') \<in> {messages (db w), messages (db v)}" by (rule loop_iteration_messages [OF run r])
  ultimately show ?thesis using lives_same lives_trans by blast
qed

lemma commit_lives: "commit st D U d d' \<Longrightarrow> ids_distinct d \<Longrightarrow> lives U d d'"
proof (induction rule: commit.induct)
  case (iterated other s w out s' w')
  then show ?case using lives_iteration by blast
next
  case (started w n)
  have "lives U (db w) (db (snd (recover_interrupted_sends w)))" by (rule lives_recover)
  then show ?case
    by (cases "recover_interrupted_sends w") (simp add: start_worker_def read_monotonic_def)
next
  case (killed w ks k later other n b r b' w1)
  have between: "lives U d (other mo d)" for mo d using lives_between killed(3) by blast
  have "\<forall>mo d. brings_queued d (other mo d)" using between_sound [of st U other] killed(3) by (simp add: sound_between_def)
  from lives_turn.killed [OF this _ killed(2) killed_queue [OF killed(4,1)] lives_same] show ?case
    using between lives_trans by blast
qed (rule lives_request)

lemma gateway_step_lives:
  assumes "gateway_step st D U d d'" and "ids_distinct d"
  shows "lives U d d'"
  using assms
proof (induction rule: gateway_step.induct)
  case (dispatched client w hmac)
  have "lives U (db w) (db (snd (client req v)))" if "lives U (db w) (db v)" for req v
  proof -
    have "(commit st D U)\<^sup>*\<^sup>* (db v) (db (snd (client req v)))" using dispatched(1) by (simp add: commits_during_def)
    then show ?thesis
    proof (induction rule: rtranclp_induct)
      case (step y z)
      then have "ids_distinct y" using dispatched(2) by (simp add: lives_def)
      from lives_trans [OF step.IH commit_lives [OF step(2) this]] show ?case .
    qed (rule that)
  qed
  from lives_hook.dispatch [OF lives_same [OF refl] this] show ?case .
qed (rule commit_lives)

section \<open>Runs with their history\<close>

text \<open>
  The identifiers that have ever been used are remembered beside the database, and no step draws one of them again, which
  is what ULIDs are for. The fate of an identifier is what its row says, or else whether it has been used.
\<close>

inductive history :: "settings \<Rightarrow> 'd modem_driver \<Rightarrow> str set \<times> database \<Rightarrow> str set \<times> database \<Rightarrow> bool"
  for st :: settings and D :: "'d modem_driver"
where
  remembered: "gateway_step st D U d d' \<Longrightarrow> history st D (U, d) (U \<union> msg_id ` set (messages d'), d')"

definition fate :: "str set \<times> database \<Rightarrow> str \<Rightarrow> life" where
  "fate s k = (case get_message (snd s) k of Some m \<Rightarrow> life_of m | None \<Rightarrow> if k \<in> fst s then Purged else Unused)"

definition coherent :: "str \<Rightarrow> str set \<times> database \<Rightarrow> bool" where
  "coherent admin s \<longleftrightarrow> sound_db admin (snd s) \<and> msg_id ` set (messages (snd s)) \<subseteq> fst s"

text \<open>What a run does to one message: it goes along its life cycle, and its content does not change.\<close>

definition tracks :: "str \<Rightarrow> str set \<times> database \<Rightarrow> str set \<times> database \<Rightarrow> bool" where
  "tracks k s s' \<longleftrightarrow> lifecycle\<^sup>*\<^sup>* (fate s k) (fate s' k) \<and> fst s \<subseteq> fst s' \<and>
     (k \<in> fst s \<longrightarrow> (\<forall>m'. get_message (snd s') k = Some m' \<longrightarrow>
        (\<exists>m. get_message (snd s) k = Some m \<and> same_content m m')))"

lemma tracks_refl [simp]: "tracks k s s"
  by (simp add: tracks_def same_content_def)

lemma tracks_trans:
  assumes "tracks k s t" and "tracks k t u"
  shows "tracks k s u"
proof -
  have "same_content a c" if "same_content a b" "same_content b c" for a b c
    using that by (simp add: same_content_def)
  then show ?thesis using assms unfolding tracks_def by (meson rtranclp_trans subset_iff)
qed

lemma history_step:
  assumes "history st D s s'" and "coherent (st_admin_user st) s"
  shows "coherent (st_admin_user st) s'" and "tracks k s s'"
proof -
  from assms(1) obtain U d d' where s: "s = (U, d)" "s' = (U \<union> msg_id ` set (messages d'), d')" and step: "gateway_step st D U d d'"
    by (cases rule: history.cases)
  have sound: "sound_db (st_admin_user st) d" and used: "msg_id ` set (messages d) \<subseteq> U"
    using assms(2) by (simp_all add: coherent_def s(1))
  have sound': "sound_db (st_admin_user st) d'" by (rule gateway_step_sound [OF step sound])
  show "coherent (st_admin_user st) s'" using sound' by (auto simp: coherent_def s(2))
  have dist: "ids_distinct d" using sound by (simp add: sound_db_def keys_ok_def ids_distinct_def)
  have lives: "lives U d d'" by (rule gateway_step_lives [OF step dist])
  have old: "\<exists>m. get_message d k = Some m \<and> row_lives m m'" if "k \<in> U" "get_message d' k = Some m'" for m'
  proof -
    have m': "m' \<in> set (messages d')" "msg_id m' = k" using get_message_SomeD [OF that(2)] by simp_all
    with that(1) obtain m where "m \<in> set (messages d)" "row_lives m m'"
      using lives dist unfolding lives_def by blast
    then show ?thesis
      using get_message_in [OF dist [unfolded ids_distinct_def]] row_lives_id m'(2) by metis
  qed
  have present: "k \<in> U" if "get_message d k = Some m" for m using get_message_SomeD [OF that] used by auto
  have "lifecycle\<^sup>*\<^sup>* (fate s k) (fate s' k)"
  proof (cases "get_message d' k")
    case None
    have "lifecycle\<^sup>*\<^sup>* (life_of m) Purged" for m using purge by (auto simp: life_of_def)
    moreover have "k \<notin> msg_id ` set (messages d')" using None by (simp add: get_message_None_iff)
    ultimately show ?thesis using None present by (auto simp: fate_def s split: option.split)
  next
    case (Some m')
    show ?thesis
    proof (cases "k \<in> U")
      case True
      from old [OF True Some] show ?thesis using Some by (auto simp: fate_def s row_lives_def)
    next
      case False
      have "m' \<in> set (messages d')" using get_message_SomeD [OF Some] by simp
      then have "typed_message m'" using sound' by (simp add: sound_db_def typed_def list_all_iff)
      then have "lifecycle\<^sup>*\<^sup>* Unused (life_of m')"
        unfolding life_of_def by (intro lifecycle_reaches) (auto simp: typed_message_def)
      moreover have "get_message d k = None" using present False by (cases "get_message d k") auto
      ultimately show ?thesis using Some False by (simp add: fate_def s)
    qed
  qed
  then show "tracks k s s'" using old by (auto simp: tracks_def s row_lives_def)
qed

lemma history_run:
  assumes "(history st D)\<^sup>*\<^sup>* s s'" and "coherent (st_admin_user st) s"
  shows "coherent (st_admin_user st) s'" and "tracks k s s'"
proof -
  have "coherent (st_admin_user st) s' \<and> tracks k s s'"
    using assms(1)
  proof (induction rule: rtranclp_induct)
    case (step t u)
    then show ?case using history_step [OF step(2)] tracks_trans by blast
  qed (simp add: assms(2))
  then show "coherent (st_admin_user st) s'" "tracks k s s'" by simp_all
qed

lemma coherent_empty: "coherent admin ({}, empty_db)"
  by (simp add: coherent_def) (simp add: empty_db_def)

section \<open>A run to try it on\<close>

text \<open>The message of \<open>posted_db\<close> is sent by a worker whose identifiers are not those of the API process.\<close>

definition other_tape :: "'d world \<Rightarrow> 'd world" where
  "other_tape w = w\<lparr>env := (env w)\<lparr>ulid := \<lambda>i. lit ''Z'' @ nat_str i\<rparr>\<rparr>"

definition sent_db :: database where
  "sent_db = (case loop_iteration undisturbed FakeDriver \<lparr>wk_bucket = new_bucket 10 0, wk_backoff = None, wk_connected = False\<rparr>
     (other_tape (steady_world posted_db (new_fake_driver None))) of (_, _, w) \<Rightarrow> db w)"

lemma posted_ids: "m \<in> set (messages posted_db) \<Longrightarrow> msg_id m = lit ''msg'' @ lit ''_'' @ nat_str 0"
  by (auto simp: posted_db_def post_message_def new_outbound_def commit_message_def message_id_def new_id_def utc_now_iso_def
      add_message_Inr steady_world_def sample_env_def empty_db_def split: option.splits sum.splits bool.splits if_splits prod.splits)

lemma sample_history:
  "history default_settings FakeDriver ({}, empty_db) (msg_id ` set (messages posted_db), posted_db)"
  "history default_settings FakeDriver (msg_id ` set (messages posted_db), posted_db)
     (msg_id ` set (messages posted_db) \<union> msg_id ` set (messages sent_db), sent_db)"
proof -
  have "gateway_step default_settings FakeDriver {} empty_db posted_db" by (intro committed requested posted_request)
  from remembered [OF this] show "history default_settings FakeDriver ({}, empty_db) (msg_id ` set (messages posted_db), posted_db)"
    by simp
  let ?U = "msg_id ` set (messages posted_db)" and ?v = "other_tape (steady_world posted_db (new_fake_driver None))"
  let ?s = "\<lparr>wk_bucket = new_bucket 10 0, wk_backoff = None, wk_connected = False\<rparr>"
  obtain out s' w' where run: "loop_iteration undisturbed FakeDriver ?s ?v = (out, s', w')" by (metis prod.exhaust)
  have clock: "clock_ok ?v" using steady_clock [of posted_db "new_fake_driver None"] by (simp add: clock_ok_def other_tape_def)
  have "\<forall>i. lit ''msg'' @ lit ''_'' @ ulid (env ?v) i \<notin> ?U"
    using posted_ids by (fastforce simp: other_tape_def lit_def nat_str.simps [of 0])
  from iterated [OF run clock undisturbed_between this] have "commit default_settings FakeDriver ?U (db ?v) (db w')" .
  moreover have "db ?v = posted_db" "db w' = sent_db"
    using run by (simp_all add: other_tape_def steady_world_def sent_db_def)
  ultimately have "gateway_step default_settings FakeDriver ?U posted_db sent_db" using committed by metis
  from remembered [OF this] show "history default_settings FakeDriver (?U, posted_db) (?U \<union> msg_id ` set (messages sent_db), sent_db)" .
qed

section \<open>Properties\<close>

text \<open>
  C2. The gateway refines the life cycle of a message: along every run that never draws an identifier twice - with requests,
  purges, dispatcher rounds, iterations of the worker, starts and kills interleaved in any way, also during a send -, each
  message goes through the states of \<open>lifecycle\<close> in its order, and as long as its row exists
  its direction, addressee, text and times of creation and reception are those it began with.
\<close>

theorem gateway_refines_lifecycle:
  assumes "(history st D)\<^sup>*\<^sup>* ({}, empty_db) (U, d)" and "(history st D)\<^sup>*\<^sup>* (U, d) (U', d')"
  shows "lifecycle\<^sup>*\<^sup>* (fate (U, d) k) (fate (U', d') k) \<and>
    (\<forall>m m'. get_message d k = Some m \<and> get_message d' k = Some m' \<longrightarrow> same_content m m')"
proof -
  note coherent = history_run(1) [OF assms(1) coherent_empty]
  from history_run(2) [OF assms(2) coherent] have "tracks k (U, d) (U', d')" .
  moreover have "k \<in> U" if "get_message d k = Some m" for m
    using get_message_SomeD [OF that] coherent by (auto simp: coherent_def)
  ultimately show ?thesis by (fastforce simp: tracks_def)
qed

theorem gateway_refines_lifecycle_witness:
  "let k = lit ''msg'' @ lit ''_'' @ nat_str 0; U = msg_id ` set (messages posted_db)
   in lifecycle\<^sup>*\<^sup>* (fate (U, posted_db) k) (fate (U \<union> msg_id ` set (messages sent_db), sent_db) k)"
  using gateway_refines_lifecycle [OF r_into_rtranclp [where r = "history _ _", OF sample_history(1)]
      r_into_rtranclp [where r = "history _ _", OF sample_history(2)]]
  by (simp add: Let_def)


text \<open>After the worker has been started anew.\<close>

definition restarted_db :: database where
  "restarted_db = db (snd (start_worker 10 (other_tape (steady_world sent_db (new_fake_driver None)))))"


end
